(* ===== verification/Tansiv_Prelude.thy ===== *)
theory Tansiv_Prelude
  imports Complex_Main "HOL-Library.Word" "HOL-Library.Monad_Syntax"
begin

text \<open>
  Shared vocabulary of the development: the machine integers of the source, the two ways a Rust
  function can end (a value or a panic, and inside a value \<open>Ok\<close> or \<open>Err\<close>), the errors that
  cross component boundaries, and the scan over a vector of atomic flags that both the buffer
  pool and the output message set use to claim a slot.

  Conventions.
  \<^item> \<open>'a option\<close> as the result of an operation is "may panic": \<open>None\<close> is a Rust panic
    (a failed \<open>unwrap\<close>, \<open>assert!\<close>, index or checked arithmetic), \<open>Some v\<close> is a return.
    The \<open>do\<close> notation of \<open>Monad_Syntax\<close> then reads like the Rust body.
  \<^item> \<open>('a, 'e) result\<close> is Rust's \<open>Result<'a, 'e>\<close>.
  \<^item> \<open>usize\<close> is \<open>nat\<close>; wherever an addition or a multiplication of sizes can exceed the 64 bits
    of the target, the overflow panic of the default (debug) build profile is written out.
\<close>

section \<open>Machine integers\<close>

type_synonym u8 = "8 word"
type_synonym u32 = "32 word"
type_synonym u64 = "64 word"
type_synonym i64 = "64 word"
type_synonym c_int = "32 word"
type_synonym in_addr_t = "32 word"
type_synonym usize = nat
type_synonym bytes = "u8 list"

lemma unat_u64_less: "unat (w :: 64 word) < 2 ^ 64"
  using unsigned_less [of w] by simp

lemma unat_u32_less: "unat (w :: 32 word) < 2 ^ 32"
  using unsigned_less [of w] by simp

lemma unat_u8_less: "unat (w :: 8 word) < 256"
  using unsigned_less [of w] by simp

lemma unat_ucast_u32 [simp]: "unat (ucast (w :: u64) :: u32) = unat w mod 2 ^ 32"
  by (simp add: unsigned_ucast_eq take_bit_eq_mod)

lemma unat_ucast_u64 [simp]: "unat (ucast (w :: u32) :: u64) = unat w"
  using unat_u32_less [of w] by (simp add: unsigned_ucast_eq take_bit_eq_mod)

lemma unat_of_sint:
  assumes "0 \<le> sint (w :: 64 word)"
  shows "int (unat w) = sint w"
proof -
  have "sint w < 2 ^ 63" using sint_lt [of w] by simp
  then have "sint w mod 2 ^ 64 = sint w" using assms by (intro mod_pos_pos_trivial) simp_all
  moreover have "uint (word_of_int (sint w) :: 64 word) = sint w mod 2 ^ LENGTH(64)"
    by (rule uint_word_of_int)
  ultimately show ?thesis by simp
qed

lemma sint_of_unat:
  assumes "unat (w :: 64 word) < 2 ^ 63"
  shows "sint w = int (unat w)"
proof -
  have "int (unat w) < 2 ^ 63" using assms by (metis of_nat_less_iff of_nat_numeral of_nat_power)
  then have "uint w < 2 ^ 63" by simp
  moreover have "- (2 ^ 63) \<le> uint w" by (rule order_trans [OF _ uint_ge_0]) simp
  ultimately have "signed_take_bit 63 (uint w) = uint w" by (intro signed_take_bit_int_eq_self) simp_all
  then show ?thesis by (simp add: sint_uint)
qed

lemma sint_word_of_nat:
  assumes "n < 2 ^ 63"
  shows "sint (word_of_nat n :: 64 word) = int n"
proof -
  have "unat (word_of_nat n :: 64 word) = n" using assms by (simp add: unat_of_nat)
  then show ?thesis using sint_of_unat [of "word_of_nat n"] assms by simp
qed

definition usize_max :: nat where
  "usize_max = 2 ^ 64 - 1"

definition isize_max :: nat where
  "isize_max = 2 ^ 63 - 1"

definition usize_mul :: "usize \<Rightarrow> usize \<Rightarrow> usize option" where
  "usize_mul a b = (if a * b \<le> usize_max then Some (a * b) else None)"

definition usize_add :: "usize \<Rightarrow> usize \<Rightarrow> usize option" where
  "usize_add a b = (if a + b \<le> usize_max then Some (a + b) else None)"

lemma usize_mul_eq_Some [simp]: "usize_mul a b = Some c \<longleftrightarrow> c = a * b \<and> a * b \<le> usize_max"
  by (auto simp: usize_mul_def)

lemma usize_add_eq_Some [simp]: "usize_add a b = Some c \<longleftrightarrow> c = a + b \<and> a + b \<le> usize_max"
  by (auto simp: usize_add_def)

section \<open>Results\<close>

type_synonym ('a, 'e) result = "'e + 'a"

abbreviation Ok :: "'a \<Rightarrow> ('a, 'e) result" where
  "Ok \<equiv> Inr"

abbreviation Err :: "'e \<Rightarrow> ('a, 'e) result" where
  "Err \<equiv> Inl"

definition assert_that :: "bool \<Rightarrow> unit option" where
  "assert_that b = (if b then Some () else None)"

lemma assert_that_simps [simp]:
  "assert_that True = Some ()"
  "assert_that False = None"
  "assert_that b = Some u \<longleftrightarrow> b"
  "assert_that b = None \<longleftrightarrow> \<not> b"
  by (auto simp: assert_that_def)

text \<open>\<open>Result::unwrap\<close>: the value of \<open>Ok\<close>, a panic on \<open>Err\<close>.\<close>

definition unwrap :: "('a, 'e) result \<Rightarrow> 'a option" where
  "unwrap r = (case r of Inl _ \<Rightarrow> None | Inr v \<Rightarrow> Some v)"

lemma unwrap_simps [simp]:
  "unwrap (Inr v) = Some v"
  "unwrap (Inl e) = None"
  "unwrap r = Some v \<longleftrightarrow> r = Inr v"
  by (auto simp: unwrap_def split: sum.splits)

text \<open>\<open>Option::ok_or\<close>.\<close>

definition ok_or :: "'a option \<Rightarrow> 'e \<Rightarrow> ('a, 'e) result" where
  "ok_or x e = (case x of None \<Rightarrow> Inl e | Some v \<Rightarrow> Inr v)"

lemma ok_or_simps [simp]:
  "ok_or None e = Inl e"
  "ok_or (Some v) e = Inr v"
  "ok_or x e = Inr v \<longleftrightarrow> x = Some v"
  by (auto simp: ok_or_def split: option.splits)

section \<open>Errors of the standard library\<close>

text \<open>
  \<open>std::io::Error\<close>, by its \<open>ErrorKind\<close> (the kinds the client constructs or that its stream
  and system calls report) and its message.
\<close>

datatype error_kind = InvalidData | InvalidInput | OtherKind | UnexpectedEof | BrokenPipe | OsError

datatype io_error = IoErr (io_kind: error_kind) (io_msg: string)

section \<open>Claiming a slot\<close>

text \<open>
  \<open>for (idx, slot) in flags.iter().enumerate() { if !slot.swap(true) { ... return } }\<close>:
  every visited flag is left set, and the first one that was clear is the claimed slot.
\<close>

fun claim_from :: "nat \<Rightarrow> bool list \<Rightarrow> nat option \<times> bool list" where
  "claim_from idx [] = (None, [])"
| "claim_from idx (slot # rest) =
     (if \<not> slot then (Some idx, True # rest)
      else (let (r, rest') = claim_from (Suc idx) rest in (r, True # rest')))"

definition claim_slot :: "bool list \<Rightarrow> nat option \<times> bool list" where
  "claim_slot flags = claim_from 0 flags"

definition busy_set :: "bool list \<Rightarrow> nat set" where
  "busy_set flags = {i. i < length flags \<and> flags ! i}"

named_theorems slot_simps

lemma busy_set_bound: "i \<in> busy_set flags \<Longrightarrow> i < length flags"
  by (simp add: busy_set_def)

lemma finite_busy_set [simp]: "finite (busy_set flags)"
  by (rule finite_subset [of _ "{..<length flags}"]) (auto simp: busy_set_def)

lemma busy_set_set [slot_simps]:
  "i < length flags \<Longrightarrow> busy_set (flags[i := True]) = insert i (busy_set flags)"
  by (auto simp: busy_set_def nth_list_update)

lemma busy_set_clear [slot_simps]:
  "busy_set (flags[i := False]) = busy_set flags - {i}"
  by (cases "i < length flags") (auto simp: busy_set_def nth_list_update list_update_beyond)

lemma busy_set_full_iff:
  "busy_set flags = {..<length flags} \<longleftrightarrow> \<not> card (busy_set flags) < length flags"
proof
  assume "busy_set flags = {..<length flags}"
  then show "\<not> card (busy_set flags) < length flags" by simp
next
  assume "\<not> card (busy_set flags) < length flags"
  moreover have "busy_set flags \<subseteq> {..<length flags}" by (auto dest: busy_set_bound)
  ultimately show "busy_set flags = {..<length flags}"
    using card_seteq [of "{..<length flags}" "busy_set flags"] by simp
qed

lemma busy_set_replicate [slot_simps]: "busy_set (replicate n False) = {}"
  by (auto simp: busy_set_def)

lemma claim_from_SomeD:
  "claim_from k flags = (Some i, flags') \<Longrightarrow>
     \<exists>j. i = k + j \<and> j < length flags \<and> \<not> flags ! j \<and> (\<forall>l < j. flags ! l) \<and> flags' = flags[j := True]"
proof (induction flags arbitrary: k flags')
  case Nil
  then show ?case by simp
next
  case (Cons slot rest)
  show ?case
  proof (cases slot)
    case False
    with Cons.prems show ?thesis by (intro exI [of _ 0]) simp
  next
    case True
    with Cons.prems obtain rest' where "claim_from (Suc k) rest = (Some i, rest')" "flags' = True # rest'"
      by (auto split: prod.splits)
    with Cons.IH obtain j where "i = Suc k + j" "j < length rest" "\<not> rest ! j" "\<forall>l < j. rest ! l"
      "flags' = True # rest[j := True]" by blast
    with True show ?thesis
      by (intro exI [of _ "Suc j"]) (simp add: nth_Cons split: nat.split)
  qed
qed

lemma claim_from_None:
  "claim_from k flags = (None, flags') \<longleftrightarrow> False \<notin> set flags \<and> flags' = flags"
proof (induction flags arbitrary: k flags')
  case Nil
  then show ?case by auto
next
  case (Cons slot rest)
  obtain r rest' where c: "claim_from (Suc k) rest = (r, rest')" by fastforce
  show ?case
    using Cons.IH [of "Suc k" rest'] Cons.IH [of "Suc k" rest] c by (cases slot) auto
qed

text \<open>What a claim does, in one equivalence per outcome.\<close>

lemma claim_slot_None:
  "claim_slot flags = (None, flags') \<longleftrightarrow> busy_set flags = {..<length flags} \<and> flags' = flags"
proof -
  have "False \<notin> set flags \<longleftrightarrow> busy_set flags = {..<length flags}"
    by (force simp: busy_set_def in_set_conv_nth set_eq_iff)
  then show ?thesis by (simp add: claim_slot_def claim_from_None)
qed

lemma claim_slot_Some:
  "claim_slot flags = (Some i, flags') \<longleftrightarrow>
     i < length flags \<and> \<not> flags ! i \<and> (\<forall>l < i. flags ! l) \<and> flags' = flags[i := True]"
  (is "?L \<longleftrightarrow> ?R")
proof
  assume ?L
  then show ?R by (auto simp: claim_slot_def dest: claim_from_SomeD)
next
  assume r: ?R
  obtain x f where c: "claim_slot flags = (x, f)" by fastforce
  have "x \<noteq> None"
  proof
    assume "x = None"
    with c have "busy_set flags = {..<length flags}" by (simp add: claim_slot_None)
    with r show False by (auto simp: busy_set_def)
  qed
  then obtain j where x: "x = Some j" by blast
  with c have "j < length flags" "\<not> flags ! j" "\<forall>l < j. flags ! l" "f = flags[j := True]"
    by (auto simp: claim_slot_def dest: claim_from_SomeD)
  with r have "j = i" by (metis linorder_neqE_nat)
  with c x r \<open>f = _\<close> show ?L by simp
qed

lemma claim_slot_cases:
  obtains (full) "claim_slot flags = (None, flags)" "busy_set flags = {..<length flags}"
  | (claimed) i where "claim_slot flags = (Some i, flags[i := True])" "i < length flags"
      "i \<notin> busy_set flags" "\<forall>l < i. l \<in> busy_set flags"
proof (cases "claim_slot flags")
  case (Pair r flags')
  show ?thesis
  proof (cases r)
    case None
    with Pair full show ?thesis using claim_slot_None by auto
  next
    case (Some i)
    with Pair have "i < length flags \<and> \<not> flags ! i \<and> (\<forall>l < i. flags ! l) \<and> flags' = flags[i := True]"
      using claim_slot_Some by blast
    with Pair Some claimed show ?thesis by (auto simp: busy_set_def)
  qed
qed

text \<open>
  Fewer claimed slots than flags leave one to claim: the counting argument behind "a message
  that got a buffer also gets a slot".
\<close>

lemma claim_slot_room:
  assumes "card (busy_set flags) < length flags"
  obtains i where "claim_slot flags = (Some i, flags[i := True])" "i < length flags"
    "i \<notin> busy_set flags"
  using assms by (cases flags rule: claim_slot_cases) auto

section \<open>Slices of a byte vector\<close>

text \<open>\<open>byte_slice i n xs\<close> is \<open>xs[i .. i + n]\<close>; \<open>byte_splice i xs ys\<close> overwrites it with \<open>ys\<close>.\<close>

definition byte_slice :: "nat \<Rightarrow> nat \<Rightarrow> 'a list \<Rightarrow> 'a list" where
  "byte_slice i n xs = take n (drop i xs)"

definition byte_splice :: "nat \<Rightarrow> 'a list \<Rightarrow> 'a list \<Rightarrow> 'a list" where
  "byte_splice i xs ys = take i xs @ ys @ drop (i + length ys) xs"

lemma length_byte_slice [simp]: "i + n \<le> length xs \<Longrightarrow> length (byte_slice i n xs) = n"
  by (simp add: byte_slice_def)

lemma length_byte_splice [simp]: "i + length ys \<le> length xs \<Longrightarrow> length (byte_splice i xs ys) = length xs"
  by (simp add: byte_splice_def)

lemma nth_byte_splice:
  assumes "i + length ys \<le> length xs" "k < length xs"
  shows "byte_splice i xs ys ! k = (if i \<le> k \<and> k < i + length ys then ys ! (k - i) else xs ! k)"
  using assms by (auto simp: byte_splice_def nth_append)

lemma byte_slice_splice_same [simp]: "i + length ys \<le> length xs \<Longrightarrow> byte_slice i (length ys) (byte_splice i xs ys) = ys"
  by (simp add: byte_slice_def byte_splice_def)

lemma byte_slice_splice_other:
  assumes "i + length ys \<le> length xs" "j + n \<le> length xs" "j + n \<le> i \<or> i + length ys \<le> j"
  shows "byte_slice j n (byte_splice i xs ys) = byte_slice j n xs"
proof (rule nth_equalityI)
  show "length (byte_slice j n (byte_splice i xs ys)) = length (byte_slice j n xs)"
    using assms by simp
  fix k assume "k < length (byte_slice j n (byte_splice i xs ys))"
  then have "k < n" "j + k < length xs" using assms by simp_all
  then show "byte_slice j n (byte_splice i xs ys) ! k = byte_slice j n xs ! k"
    using assms nth_byte_splice [of i ys xs "j + k"] by (auto simp: byte_slice_def)
qed

text \<open>The \<open>idx\<close>-th of the disjoint chunks of length \<open>sz\<close>.\<close>

lemma chunk_bounds:
  fixes idx num sz n :: nat
  assumes "idx < num" "n \<le> sz"
  shows "sz * idx + n \<le> sz * num"
proof -
  have "sz * idx + sz = sz * Suc idx" by simp
  also have "\<dots> \<le> sz * num" using assms(1) by (intro mult_le_mono2) simp
  finally show ?thesis using assms(2) by linarith
qed

lemma chunk_disjoint:
  fixes idx idx' sz n n' :: nat
  assumes "idx \<noteq> idx'" "n \<le> sz" "n' \<le> sz"
  shows "sz * idx' + n' \<le> sz * idx \<or> sz * idx + n \<le> sz * idx'"
proof (cases "idx' < idx")
  case True
  then show ?thesis using chunk_bounds [of idx' idx n' sz] assms by simp
next
  case False
  then show ?thesis using chunk_bounds [of idx idx' n sz] assms by simp
qed

section \<open>Digits\<close>

text \<open>The value of a decimal digit (\<open>char::to_digit(10)\<close>).\<close>

definition digit :: "char \<Rightarrow> int option" where
  "digit c = (let n = of_char c in if 48 \<le> n \<and> n \<le> 57 then Some (n - 48) else None)"

end
