(* ===== verification/Buffer_Pool.thy ===== *)
theory Buffer_Pool
  imports Tansiv_Prelude
begin

text \<open>
  The buffer pool of \<open>buffer_pool.rs\<close>: a fixed number of equally sized buffers, one busy flag
  each, handed out by \<open>allocate_buffer\<close> and given back when a \<open>Buffer\<close> is dropped.

  The pool is generic in the Rust trait \<open>InnerBuffer\<close>, here the record of its methods
  (\<open>InnerBuffer\<close>), an argument of the pool's operations. A \<open>&mut Content\<close> obtained from
  \<open>get_mut\<close> is modelled by the write through it, \<open>ib_put\<close>. The \<open>Arc\<close> that every \<open>Buffer\<close>
  holds to its pool is the pool state passed along; dropping a buffer is the explicit
  \<open>Buffer_drop\<close>.

  The locale \<open>inner_buffer\<close> is the contract of the trait (what the comments marked "Safety"
  rely on); the theories of the two implementors interpret it. Its lemmas are the safety of the
  pool: an allocated buffer was free, is zeroed or reset, and neither allocation nor a write
  through one buffer changes the content of another live buffer.
\<close>

section \<open>Data\<close>

datatype buffer_pool_error = NoBufferAvailable | BufferSizeTooBig

fun buffer_pool_error_fmt :: "buffer_pool_error \<Rightarrow> string" where
  "buffer_pool_error_fmt NoBufferAvailable = ''No buffer available''"
| "buffer_pool_error_fmt BufferSizeTooBig = ''Size too big''"

record ('arr, 'inner, 'content) InnerBuffer =
  ib_calloc :: "usize \<Rightarrow> usize \<Rightarrow> 'arr option"
  ib_new :: "usize \<Rightarrow> usize \<Rightarrow> 'inner"
  ib_get :: "'inner \<Rightarrow> usize \<Rightarrow> 'arr \<Rightarrow> usize \<Rightarrow> 'content option"
  ib_put :: "'inner \<Rightarrow> usize \<Rightarrow> 'arr \<Rightarrow> usize \<Rightarrow> 'content \<Rightarrow> 'arr option"
  ib_reset :: "'inner \<Rightarrow> usize \<Rightarrow> 'arr \<Rightarrow> usize \<Rightarrow> 'arr option"

record 'arr buffer_pool =
  buffer_size :: usize
  buffers :: 'arr
  buffer_busy :: "bool list"

record 'inner buffer =
  buf_index :: usize
  buf_inner :: 'inner

section \<open>Operations\<close>

definition BufferPool_new ::
  "('arr, 'inner, 'content) InnerBuffer \<Rightarrow> usize \<Rightarrow> usize \<Rightarrow> 'arr buffer_pool option" where
  "BufferPool_new IB sz num = do {
     arr \<leftarrow> ib_calloc IB sz num;
     Some \<lparr>buffer_size = sz, buffers = arr, buffer_busy = replicate num False\<rparr>
   }"

definition BufferPool_allocate_buffer ::
  "('arr, 'inner, 'content) InnerBuffer \<Rightarrow> 'arr buffer_pool \<Rightarrow> usize \<Rightarrow>
     (('inner buffer, buffer_pool_error) result \<times> 'arr buffer_pool) option" where
  "BufferPool_allocate_buffer IB pool sz =
     (if sz \<le> buffer_size pool then
        (case claim_slot (buffer_busy pool) of
           (Some idx, busy) \<Rightarrow>
             let inner = ib_new IB idx sz in do {
               arr \<leftarrow> ib_reset IB inner (buffer_size pool) (buffers pool) idx;
               Some (Ok \<lparr>buf_index = idx, buf_inner = inner\<rparr>,
                     pool\<lparr>buffer_busy := busy, buffers := arr\<rparr>)
             }
         | (None, busy) \<Rightarrow> Some (Err NoBufferAvailable, pool\<lparr>buffer_busy := busy\<rparr>))
      else Some (Err BufferSizeTooBig, pool))"

definition BufferPool_free_buffer :: "'arr buffer_pool \<Rightarrow> usize \<Rightarrow> 'arr buffer_pool option" where
  "BufferPool_free_buffer pool index =
     (if index < length (buffer_busy pool)
      then Some (pool\<lparr>buffer_busy := (buffer_busy pool)[index := False]\<rparr>)
      else None)"

definition Buffer_drop :: "'arr buffer_pool \<Rightarrow> 'inner buffer \<Rightarrow> 'arr buffer_pool option" where
  "Buffer_drop pool b = BufferPool_free_buffer pool (buf_index b)"

definition Buffer_deref ::
  "('arr, 'inner, 'content) InnerBuffer \<Rightarrow> 'arr buffer_pool \<Rightarrow> 'inner buffer \<Rightarrow> 'content option" where
  "Buffer_deref IB pool b = ib_get IB (buf_inner b) (buffer_size pool) (buffers pool) (buf_index b)"

definition Buffer_deref_mut ::
  "('arr, 'inner, 'content) InnerBuffer \<Rightarrow> 'arr buffer_pool \<Rightarrow> 'inner buffer \<Rightarrow> 'content \<Rightarrow>
     'arr buffer_pool option" where
  "Buffer_deref_mut IB pool b c = do {
     arr \<leftarrow> ib_put IB (buf_inner b) (buffer_size pool) (buffers pool) (buf_index b) c;
     Some (pool\<lparr>buffers := arr\<rparr>)
   }"

section \<open>Facts that hold for every implementor\<close>

abbreviation pool_busy :: "'arr buffer_pool \<Rightarrow> nat set" where
  "pool_busy pool \<equiv> busy_set (buffer_busy pool)"

abbreviation num_buffers_of :: "'arr buffer_pool \<Rightarrow> nat" where
  "num_buffers_of pool \<equiv> length (buffer_busy pool)"

lemma Buffer_drop_Some:
  "buf_index b < num_buffers_of pool \<Longrightarrow>
     Buffer_drop pool b = Some (pool\<lparr>buffer_busy := (buffer_busy pool)[buf_index b := False]\<rparr>)"
  by (simp add: Buffer_drop_def BufferPool_free_buffer_def)

lemma Buffer_dropD:
  assumes "Buffer_drop pool b = Some pool'"
  shows "pool_busy pool' = pool_busy pool - {buf_index b}"
    and "buffers pool' = buffers pool"
    and "buffer_size pool' = buffer_size pool"
    and "num_buffers_of pool' = num_buffers_of pool"
    and "buf_index b < num_buffers_of pool"
  using assms
  by (auto simp: Buffer_drop_def BufferPool_free_buffer_def slot_simps split: if_splits)

lemma Buffer_deref_drop:
  assumes "Buffer_drop pool b = Some pool'"
  shows "Buffer_deref IB pool' b' = Buffer_deref IB pool b'"
  using Buffer_dropD [OF assms] by (simp add: Buffer_deref_def)

lemma Buffer_deref_mutD:
  assumes "Buffer_deref_mut IB pool b c = Some pool'"
  shows "buffer_busy pool' = buffer_busy pool" "buffer_size pool' = buffer_size pool"
  using assms by (auto simp: Buffer_deref_mut_def bind_eq_Some_conv)

lemma allocate_buffer_too_big:
  "BufferPool_allocate_buffer IB pool sz = Some (Err BufferSizeTooBig, pool') \<longleftrightarrow>
     buffer_size pool < sz \<and> pool' = pool"
  by (cases "buffer_busy pool" rule: claim_slot_cases)
     (auto simp: BufferPool_allocate_buffer_def Let_def bind_eq_Some_conv)

lemma allocate_buffer_none:
  "BufferPool_allocate_buffer IB pool sz = Some (Err NoBufferAvailable, pool') \<longleftrightarrow>
     sz \<le> buffer_size pool \<and> pool_busy pool = {..<num_buffers_of pool} \<and> pool' = pool"
  by (cases "buffer_busy pool" rule: claim_slot_cases)
     (auto simp: BufferPool_allocate_buffer_def Let_def bind_eq_Some_conv busy_set_def)

lemma allocate_buffer_Ok:
  assumes "BufferPool_allocate_buffer IB pool sz = Some (Ok b, pool')"
  obtains arr where
    "sz \<le> buffer_size pool"
    "buf_index b < num_buffers_of pool" "buf_index b \<notin> pool_busy pool"
    "buf_inner b = ib_new IB (buf_index b) sz"
    "ib_reset IB (buf_inner b) (buffer_size pool) (buffers pool) (buf_index b) = Some arr"
    "pool' = pool\<lparr>buffer_busy := (buffer_busy pool)[buf_index b := True], buffers := arr\<rparr>"
proof (cases "buffer_busy pool" rule: claim_slot_cases)
  case full
  with assms show ?thesis by (auto simp: BufferPool_allocate_buffer_def split: if_splits)
next
  case (claimed i)
  with assms obtain arr where "sz \<le> buffer_size pool" "b = \<lparr>buf_index = i, buf_inner = ib_new IB i sz\<rparr>"
    "ib_reset IB (ib_new IB i sz) (buffer_size pool) (buffers pool) i = Some arr"
    "pool' = pool\<lparr>buffer_busy := (buffer_busy pool)[i := True], buffers := arr\<rparr>"
    by (auto simp: BufferPool_allocate_buffer_def Let_def bind_eq_Some_conv split: if_splits)
  with claimed show ?thesis by (intro that) simp_all
qed

section \<open>The contract of the trait InnerBuffer\<close>

locale inner_buffer =
  fixes IB :: "('arr, 'inner, 'content) InnerBuffer"
    and wf_arr :: "usize \<Rightarrow> usize \<Rightarrow> 'arr \<Rightarrow> bool"
    and fits :: "'inner \<Rightarrow> usize \<Rightarrow> bool"
    and wf_content :: "'inner \<Rightarrow> 'content \<Rightarrow> bool"
  assumes calloc_wf: "ib_calloc IB sz num = Some a \<Longrightarrow> wf_arr sz num a"
    and new_fits: "n \<le> sz \<Longrightarrow> fits (ib_new IB idx n) sz"
    and get_defined: "wf_arr sz num a \<Longrightarrow> idx < num \<Longrightarrow> fits inn sz \<Longrightarrow>
      \<exists>c. ib_get IB inn sz a idx = Some c \<and> wf_content inn c"
    and put_defined: "wf_arr sz num a \<Longrightarrow> idx < num \<Longrightarrow> fits inn sz \<Longrightarrow> wf_content inn c \<Longrightarrow>
      \<exists>a'. ib_put IB inn sz a idx c = Some a' \<and> wf_arr sz num a'"
    and get_put: "wf_arr sz num a \<Longrightarrow> idx < num \<Longrightarrow> fits inn sz \<Longrightarrow>
      ib_put IB inn sz a idx c = Some a' \<Longrightarrow> ib_get IB inn sz a' idx = Some c"
    and get_put_other: "wf_arr sz num a \<Longrightarrow> idx < num \<Longrightarrow> idx' < num \<Longrightarrow> idx' \<noteq> idx \<Longrightarrow>
      fits inn sz \<Longrightarrow> fits inn' sz \<Longrightarrow> ib_put IB inn sz a idx c = Some a' \<Longrightarrow>
      ib_get IB inn' sz a' idx' = ib_get IB inn' sz a idx'"
    and reset_put: "wf_arr sz num a \<Longrightarrow> idx < num \<Longrightarrow> fits inn sz \<Longrightarrow>
      \<exists>c. wf_content inn c \<and> ib_reset IB inn sz a idx = ib_put IB inn sz a idx c"
begin

definition wf_pool :: "'arr buffer_pool \<Rightarrow> bool" where
  "wf_pool pool \<longleftrightarrow> wf_arr (buffer_size pool) (num_buffers_of pool) (buffers pool)"

definition live_buffer :: "'arr buffer_pool \<Rightarrow> 'inner buffer \<Rightarrow> bool" where
  "live_buffer pool b \<longleftrightarrow> buf_index b \<in> pool_busy pool \<and> fits (buf_inner b) (buffer_size pool)"

lemma live_buffer_bound: "live_buffer pool b \<Longrightarrow> buf_index b < num_buffers_of pool"
  by (simp add: live_buffer_def busy_set_bound)

lemma new_pool_wf:
  "BufferPool_new IB sz num = Some pool \<Longrightarrow>
     wf_pool pool \<and> pool_busy pool = {} \<and> num_buffers_of pool = num \<and> buffer_size pool = sz"
  by (auto simp: BufferPool_new_def bind_eq_Some_conv wf_pool_def slot_simps intro: calloc_wf)

lemma reset_cases:
  assumes "wf_pool pool" "idx < num_buffers_of pool" "fits inn (buffer_size pool)"
  obtains c a where "wf_content inn c"
    "ib_reset IB inn (buffer_size pool) (buffers pool) idx = Some a"
    "ib_put IB inn (buffer_size pool) (buffers pool) idx c = Some a"
    "wf_arr (buffer_size pool) (num_buffers_of pool) a"
proof -
  have wf: "wf_arr (buffer_size pool) (num_buffers_of pool) (buffers pool)"
    using assms(1) by (simp add: wf_pool_def)
  obtain c where c: "wf_content inn c" and r: "ib_reset IB inn (buffer_size pool) (buffers pool) idx =
      ib_put IB inn (buffer_size pool) (buffers pool) idx c"
    using reset_put [OF wf assms(2,3)] by blast
  obtain a where "ib_put IB inn (buffer_size pool) (buffers pool) idx c = Some a"
    "wf_arr (buffer_size pool) (num_buffers_of pool) a"
    using put_defined [OF wf assms(2,3) c] by blast
  with c r that show ?thesis by simp
qed

text \<open>Allocation never panics: it is one of the three documented outcomes.\<close>

lemma allocate_defined:
  assumes "wf_pool pool"
  shows "\<exists>r pool'. BufferPool_allocate_buffer IB pool sz = Some (r, pool')"
proof (cases "buffer_busy pool" rule: claim_slot_cases)
  case full
  then show ?thesis by (simp add: BufferPool_allocate_buffer_def)
next
  case (claimed i)
  show ?thesis
  proof (cases "sz \<le> buffer_size pool")
    case True
    then obtain a where "ib_reset IB (ib_new IB i sz) (buffer_size pool) (buffers pool) i = Some a"
      using reset_cases [OF assms claimed(2) new_fits] by blast
    with claimed True show ?thesis by (simp add: BufferPool_allocate_buffer_def)
  next
    case False
    then show ?thesis by (simp add: BufferPool_allocate_buffer_def)
  qed
qed

lemma allocate_Ok_iff:
  assumes "wf_pool pool"
  shows "(\<exists>b pool'. BufferPool_allocate_buffer IB pool sz = Some (Ok b, pool')) \<longleftrightarrow>
     sz \<le> buffer_size pool \<and> card (pool_busy pool) < num_buffers_of pool"
proof -
  obtain r pool' where r: "BufferPool_allocate_buffer IB pool sz = Some (r, pool')"
    using allocate_defined [OF assms] by blast
  show ?thesis
  proof (cases r)
    case (Inl e)
    have "\<not> (sz \<le> buffer_size pool \<and> card (pool_busy pool) < num_buffers_of pool)"
      using r Inl by (cases e) (auto simp: allocate_buffer_none allocate_buffer_too_big busy_set_full_iff)
    moreover have "\<nexists>b pool'. BufferPool_allocate_buffer IB pool sz = Some (Ok b, pool')"
      using r Inl by simp
    ultimately show ?thesis by blast
  next
    case (Inr b)
    with r have ok: "BufferPool_allocate_buffer IB pool sz = Some (Ok b, pool')" by simp
    then obtain "sz \<le> buffer_size pool" "buf_index b < num_buffers_of pool" "buf_index b \<notin> pool_busy pool"
      by (rule allocate_buffer_Ok)
    then have "sz \<le> buffer_size pool \<and> pool_busy pool \<noteq> {..<num_buffers_of pool}" by blast
    with ok show ?thesis by (simp add: busy_set_full_iff)
  qed
qed

text \<open>
  A successful allocation hands out a buffer that no one held, and changes neither the liveness
  nor the content of any other live buffer.
\<close>

lemma allocate_safe:
  assumes wf: "wf_pool pool" and alloc: "BufferPool_allocate_buffer IB pool sz = Some (Ok b, pool')"
  shows "wf_pool pool'" "live_buffer pool' b" "buf_index b \<notin> pool_busy pool"
    "pool_busy pool' = insert (buf_index b) (pool_busy pool)"
    "num_buffers_of pool' = num_buffers_of pool" "buffer_size pool' = buffer_size pool"
    "\<And>b'. live_buffer pool b' \<Longrightarrow> live_buffer pool' b' \<and> Buffer_deref IB pool' b' = Buffer_deref IB pool b'"
proof -
  from alloc obtain arr where a:
    "sz \<le> buffer_size pool" "buf_index b < num_buffers_of pool" "buf_index b \<notin> pool_busy pool"
    "buf_inner b = ib_new IB (buf_index b) sz"
    "ib_reset IB (buf_inner b) (buffer_size pool) (buffers pool) (buf_index b) = Some arr"
    "pool' = pool\<lparr>buffer_busy := (buffer_busy pool)[buf_index b := True], buffers := arr\<rparr>"
    by (rule allocate_buffer_Ok)
  have fit: "fits (buf_inner b) (buffer_size pool)" using a new_fits by simp
  obtain c where put: "ib_put IB (buf_inner b) (buffer_size pool) (buffers pool) (buf_index b) c = Some arr"
    and wfa: "wf_arr (buffer_size pool) (num_buffers_of pool) arr"
    using a(5) by (auto intro: reset_cases [OF wf a(2) fit])
  show "wf_pool pool'" using wfa a(6) by (simp add: wf_pool_def)
  show busy: "pool_busy pool' = insert (buf_index b) (pool_busy pool)"
    using a by (simp add: slot_simps)
  show "live_buffer pool' b" using busy fit a(6) by (simp add: live_buffer_def)
  show "buf_index b \<notin> pool_busy pool" by (fact a(3))
  show "num_buffers_of pool' = num_buffers_of pool" "buffer_size pool' = buffer_size pool"
    using a(6) by simp_all
  fix b' assume live: "live_buffer pool b'"
  have ne: "buf_index b' \<noteq> buf_index b" using live a(3) by (auto simp: live_buffer_def)
  have "ib_get IB (buf_inner b') (buffer_size pool) arr (buf_index b') =
        ib_get IB (buf_inner b') (buffer_size pool) (buffers pool) (buf_index b')"
    using get_put_other [OF wf [unfolded wf_pool_def] a(2) live_buffer_bound [OF live] ne fit _ put]
      live by (simp add: live_buffer_def)
  then show "live_buffer pool' b' \<and> Buffer_deref IB pool' b' = Buffer_deref IB pool b'"
    using live a(6) busy by (simp add: live_buffer_def Buffer_deref_def)
qed

text \<open>A write through a live buffer is read back, and no other live buffer sees it.\<close>

lemma write_safe:
  assumes wf: "wf_pool pool" and live: "live_buffer pool b" and c: "wf_content (buf_inner b) c"
  obtains pool' where "Buffer_deref_mut IB pool b c = Some pool'" "wf_pool pool'"
    "Buffer_deref IB pool' b = Some c" "buffer_busy pool' = buffer_busy pool"
    "buffer_size pool' = buffer_size pool"
    "\<And>b'. live_buffer pool b' \<Longrightarrow> buf_index b' \<noteq> buf_index b \<Longrightarrow>
       Buffer_deref IB pool' b' = Buffer_deref IB pool b'"
proof -
  have idx: "buf_index b < num_buffers_of pool" by (rule live_buffer_bound [OF live])
  have fit: "fits (buf_inner b) (buffer_size pool)" using live by (simp add: live_buffer_def)
  obtain a where put: "ib_put IB (buf_inner b) (buffer_size pool) (buffers pool) (buf_index b) c = Some a"
    and wfa: "wf_arr (buffer_size pool) (num_buffers_of pool) a"
    using put_defined [OF wf [unfolded wf_pool_def] idx fit c] by blast
  show ?thesis
  proof (rule that)
    show "Buffer_deref_mut IB pool b c = Some (pool\<lparr>buffers := a\<rparr>)"
      using put by (simp add: Buffer_deref_mut_def)
    show "wf_pool (pool\<lparr>buffers := a\<rparr>)" using wfa by (simp add: wf_pool_def)
    show "Buffer_deref IB (pool\<lparr>buffers := a\<rparr>) b = Some c"
      using get_put [OF wf [unfolded wf_pool_def] idx fit put] by (simp add: Buffer_deref_def)
    fix b' assume "live_buffer pool b'" "buf_index b' \<noteq> buf_index b"
    then show "Buffer_deref IB (pool\<lparr>buffers := a\<rparr>) b' = Buffer_deref IB pool b'"
      using get_put_other [OF wf [unfolded wf_pool_def] idx live_buffer_bound _ fit _ put]
      by (simp add: Buffer_deref_def live_buffer_def)
  qed simp_all
qed

lemma deref_live:
  assumes "wf_pool pool" "live_buffer pool b"
  obtains c where "Buffer_deref IB pool b = Some c" "wf_content (buf_inner b) c"
  using get_defined [OF assms(1) [unfolded wf_pool_def] live_buffer_bound [OF assms(2)]] assms(2) that
  by (auto simp: live_buffer_def Buffer_deref_def)

lemma drop_safe:
  assumes "wf_pool pool" "live_buffer pool b"
  obtains pool' where "Buffer_drop pool b = Some pool'" "wf_pool pool'"
    "pool_busy pool' = pool_busy pool - {buf_index b}"
    "\<And>b'. live_buffer pool b' \<Longrightarrow> buf_index b' \<noteq> buf_index b \<Longrightarrow>
       live_buffer pool' b' \<and> Buffer_deref IB pool' b' = Buffer_deref IB pool b'"
proof -
  let ?pool' = "pool\<lparr>buffer_busy := (buffer_busy pool)[buf_index b := False]\<rparr>"
  have d: "Buffer_drop pool b = Some ?pool'"
    by (rule Buffer_drop_Some) (rule live_buffer_bound [OF assms(2)])
  show ?thesis
    using that [OF d] assms Buffer_dropD [OF d]
    by (simp add: wf_pool_def live_buffer_def Buffer_deref_def)
qed

end

end
