(* ===== verification/Bytes_Buffer.thy ===== *)
theory Bytes_Buffer
  imports Buffer_Pool
begin

text \<open>
  The byte buffers of \<open>bytes_buffer.rs\<close>: one vector of \<open>buffer_size * num_buffers\<close> bytes, in
  which the buffer of index \<open>i\<close> is the range starting at \<open>buffer_size * i\<close>. The interpretation
  \<open>bytes_ib\<close> discharges the contract of \<open>InnerBuffer\<close>; its core is that the ranges of two
  indices are disjoint.
\<close>

record bytes_buffer =
  bb_size :: usize

definition buffer_bounds :: "bytes_buffer \<Rightarrow> usize \<Rightarrow> usize \<Rightarrow> (usize \<times> usize) option" where
  "buffer_bounds self pool_buffer_size index = do {
     buffer_start \<leftarrow> usize_mul pool_buffer_size index;
     buffer_end \<leftarrow> usize_add buffer_start (bb_size self);
     Some (buffer_start, buffer_end)
   }"

text \<open>\<open>Vec::with_capacity\<close> panics when the capacity exceeds \<open>isize::MAX\<close> bytes.\<close>

definition BytesBuffer_calloc :: "usize \<Rightarrow> usize \<Rightarrow> bytes option" where
  "BytesBuffer_calloc sz num = do {
     cap \<leftarrow> usize_mul sz num;
     assert_that (cap \<le> isize_max);
     Some (replicate cap 0)
   }"

definition BytesBuffer_new :: "usize \<Rightarrow> usize \<Rightarrow> bytes_buffer" where
  "BytesBuffer_new idx sz = \<lparr>bb_size = sz\<rparr>"

definition BytesBuffer_get :: "bytes_buffer \<Rightarrow> usize \<Rightarrow> bytes \<Rightarrow> usize \<Rightarrow> bytes option" where
  "BytesBuffer_get self pool_buffer_size inner index = do {
     (s, e) \<leftarrow> buffer_bounds self pool_buffer_size index;
     assert_that (e \<le> length inner);
     Some (byte_slice s (e - s) inner)
   }"

text \<open>
  Writing the whole slice that \<open>get_mut\<close> returns: a slice has a fixed length, so a source of
  another length is refused (\<open>copy_from_slice\<close> panics).
\<close>

definition BytesBuffer_get_mut :: "bytes_buffer \<Rightarrow> usize \<Rightarrow> bytes \<Rightarrow> usize \<Rightarrow> bytes \<Rightarrow> bytes option" where
  "BytesBuffer_get_mut self pool_buffer_size inner index content = do {
     (s, e) \<leftarrow> buffer_bounds self pool_buffer_size index;
     assert_that (e \<le> length inner);
     assert_that (length content = e - s);
     Some (byte_splice s inner content)
   }"

definition BytesBuffer_reset :: "bytes_buffer \<Rightarrow> usize \<Rightarrow> bytes \<Rightarrow> usize \<Rightarrow> bytes option" where
  "BytesBuffer_reset self pool_buffer_size inner index =
     BytesBuffer_get_mut self pool_buffer_size inner index (replicate (bb_size self) 0)"

definition BytesBuffer :: "(bytes, bytes_buffer, bytes) InnerBuffer" where
  "BytesBuffer = \<lparr>
     ib_calloc = BytesBuffer_calloc,
     ib_new = BytesBuffer_new,
     ib_get = BytesBuffer_get,
     ib_put = BytesBuffer_get_mut,
     ib_reset = BytesBuffer_reset\<rparr>"

definition bytes_wf_arr :: "usize \<Rightarrow> usize \<Rightarrow> bytes \<Rightarrow> bool" where
  "bytes_wf_arr sz num a \<longleftrightarrow> length a = sz * num \<and> sz * num \<le> isize_max"

definition bytes_fits :: "bytes_buffer \<Rightarrow> usize \<Rightarrow> bool" where
  "bytes_fits inn sz \<longleftrightarrow> bb_size inn \<le> sz"

definition bytes_wf_content :: "bytes_buffer \<Rightarrow> bytes \<Rightarrow> bool" where
  "bytes_wf_content inn c \<longleftrightarrow> length c = bb_size inn"

lemma buffer_bounds_Some:
  assumes "bytes_wf_arr sz num a" "idx < num" "bytes_fits inn sz"
  shows "buffer_bounds inn sz idx = Some (sz * idx, sz * idx + bb_size inn)"
    and "sz * idx + bb_size inn \<le> length a"
proof -
  show le: "sz * idx + bb_size inn \<le> length a"
    using chunk_bounds [of idx num "bb_size inn" sz] assms
    by (simp add: bytes_wf_arr_def bytes_fits_def)
  have max: "length a \<le> usize_max"
    using assms(1) by (simp add: bytes_wf_arr_def isize_max_def usize_max_def)
  then show "buffer_bounds inn sz idx = Some (sz * idx, sz * idx + bb_size inn)"
    using le by (simp add: buffer_bounds_def usize_mul_def usize_add_def)
qed

lemma BytesBuffer_get_Some:
  assumes "bytes_wf_arr sz num a" "idx < num" "bytes_fits inn sz"
  shows "BytesBuffer_get inn sz a idx = Some (byte_slice (sz * idx) (bb_size inn) a)"
  using buffer_bounds_Some [OF assms] by (simp add: BytesBuffer_get_def)

lemma BytesBuffer_get_mut_Some:
  assumes "bytes_wf_arr sz num a" "idx < num" "bytes_fits inn sz"
  shows "BytesBuffer_get_mut inn sz a idx c =
    (if length c = bb_size inn then Some (byte_splice (sz * idx) a c) else None)"
  using buffer_bounds_Some [OF assms] by (simp add: BytesBuffer_get_mut_def)

interpretation bytes_ib: inner_buffer BytesBuffer bytes_wf_arr bytes_fits bytes_wf_content
proof unfold_locales
  fix sz num a
  assume "ib_calloc BytesBuffer sz num = Some a"
  then show "bytes_wf_arr sz num a"
    by (auto simp: BytesBuffer_def BytesBuffer_calloc_def bytes_wf_arr_def bind_eq_Some_conv)
next
  fix n sz idx :: usize
  assume "n \<le> sz"
  then show "bytes_fits (ib_new BytesBuffer idx n) sz"
    by (simp add: BytesBuffer_def BytesBuffer_new_def bytes_fits_def)
next
  fix sz num a idx inn
  assume h: "bytes_wf_arr sz num a" "idx < num" "bytes_fits inn sz"
  then show "\<exists>c. ib_get BytesBuffer inn sz a idx = Some c \<and> bytes_wf_content inn c"
    using buffer_bounds_Some(2) [OF h]
    by (simp add: BytesBuffer_def BytesBuffer_get_Some bytes_wf_content_def)
  show "\<exists>c. bytes_wf_content inn c \<and>
     ib_reset BytesBuffer inn sz a idx = ib_put BytesBuffer inn sz a idx c"
    by (rule exI [of _ "replicate (bb_size inn) 0"])
       (simp add: BytesBuffer_def BytesBuffer_reset_def bytes_wf_content_def)
next
  fix sz num a idx inn c
  assume h: "bytes_wf_arr sz num a" "idx < num" "bytes_fits inn sz" and "bytes_wf_content inn c"
  then show "\<exists>a'. ib_put BytesBuffer inn sz a idx c = Some a' \<and> bytes_wf_arr sz num a'"
    using buffer_bounds_Some(2) [OF h] BytesBuffer_get_mut_Some [OF h, of c] h(1)
    by (simp add: BytesBuffer_def bytes_wf_content_def bytes_wf_arr_def)
next
  fix sz num a idx inn c a'
  assume h: "bytes_wf_arr sz num a" "idx < num" "bytes_fits inn sz"
    and put: "ib_put BytesBuffer inn sz a idx c = Some a'"
  have le: "sz * idx + bb_size inn \<le> length a" by (rule buffer_bounds_Some(2) [OF h])
  have a': "length c = bb_size inn" "a' = byte_splice (sz * idx) a c"
    using put h by (auto simp: BytesBuffer_def BytesBuffer_get_mut_Some split: if_splits)
  have wf': "bytes_wf_arr sz num a'"
    using h(1) a' le by (simp add: bytes_wf_arr_def)
  show "ib_get BytesBuffer inn sz a' idx = Some c"
    using a' le byte_slice_splice_same [of "sz * idx" c a] BytesBuffer_get_Some [OF wf' h(2,3)]
    by (simp add: BytesBuffer_def)
  fix idx' inn'
  assume h': "idx' < num" "idx' \<noteq> idx" "bytes_fits inn' sz"
  have le': "sz * idx' + bb_size inn' \<le> length a" by (rule buffer_bounds_Some(2) [OF h(1) h'(1,3)])
  have "byte_slice (sz * idx') (bb_size inn') (byte_splice (sz * idx) a c) = byte_slice (sz * idx') (bb_size inn') a"
    using chunk_disjoint [of idx idx' "bb_size inn" sz "bb_size inn'"] h h' a' le le'
    by (intro byte_slice_splice_other) (auto simp: bytes_fits_def)
  then show "ib_get BytesBuffer inn' sz a' idx' = ib_get BytesBuffer inn' sz a idx'"
    using a' BytesBuffer_get_Some [OF wf' h'(1,3)] BytesBuffer_get_Some [OF h(1) h'(1,3)]
    by (simp add: BytesBuffer_def)
qed

type_synonym bytes_pool = "bytes buffer_pool"

end
