(* ===== verification/Flatbuffers.thy ===== *)
theory Flatbuffers
  imports Tansiv_Prelude
begin

text \<open>
  The messages exchanged with the Tansiv actor, as the schema \<open>wire/packets.fbs\<close> declares them,
  and the interface of the FlatBuffers crate and of the code it generates from that schema.

  Structs are records, tables are datatypes whose optional fields are \<open>option\<close>s, and a union
  field is its type tag together with the optional table. FlatBuffers itself is third-party: a
  builder is a value of the type parameter \<open>'b\<close>, an offset into it one of \<open>'o\<close>, and the record
  \<open>flatbuffers\<close> holds the operations the client calls. It is an argument of every definition
  that uses it; \<open>fb_laws\<close> states the documented behaviour: what is built and finished with a size
  prefix is that size in four little-endian bytes followed by a body that decodes to what was
  built.
\<close>

section \<open>The schema\<close>

record fb_time =
  tm_seconds :: u64
  tm_nseconds :: u64

record packet_meta =
  pm_src :: u32
  pm_dst :: u32

datatype from_tansiv_type = FromNONE | FromGotoDeadline | FromDeliverPacket | FromEndSimulation | FromUnknown u8

datatype from_tansiv_table =
    GotoDeadlineT "fb_time option"
  | DeliverPacketT "packet_meta option" "bytes option"
  | EndSimulationT

datatype to_tansiv_type = ToNONE | ToAtDeadline | ToSendPacket | ToUnknown u8

datatype to_tansiv_table =
    AtDeadlineT
  | SendPacketT "packet_meta option" "fb_time option" "bytes option"

record from_tansiv_msg =
  from_content_type :: from_tansiv_type
  from_content :: "from_tansiv_table option"

record to_tansiv_msg =
  to_content_type :: to_tansiv_type
  to_content :: "to_tansiv_table option"

text \<open>The accessors generated for the unions: the table, if the tag is the one asked for.\<close>

definition content_as_goto_deadline :: "from_tansiv_msg \<Rightarrow> fb_time option option" where
  "content_as_goto_deadline m =
     (if from_content_type m = FromGotoDeadline
      then (case from_content m of Some (GotoDeadlineT t) \<Rightarrow> Some t | _ \<Rightarrow> None) else None)"

definition content_as_deliver_packet ::
  "from_tansiv_msg \<Rightarrow> (packet_meta option \<times> bytes option) option" where
  "content_as_deliver_packet m =
     (if from_content_type m = FromDeliverPacket
      then (case from_content m of Some (DeliverPacketT mt p) \<Rightarrow> Some (mt, p) | _ \<Rightarrow> None) else None)"

definition content_as_send_packet ::
  "to_tansiv_msg \<Rightarrow> (packet_meta option \<times> fb_time option \<times> bytes option) option" where
  "content_as_send_packet m =
     (if to_content_type m = ToSendPacket
      then (case to_content m of Some (SendPacketT mt t p) \<Rightarrow> Some (mt, t, p) | _ \<Rightarrow> None) else None)"

section \<open>Little-endian scalars\<close>

definition le32 :: "u32 \<Rightarrow> bytes" where
  "le32 w = map (\<lambda>i. word_of_nat (unat w div 256 ^ i)) [0..<4]"

lemma length_le32 [simp]: "length (le32 w) = 4"
  by (simp add: le32_def)

section \<open>The interface of the crate\<close>

record ('b, 'o) flatbuffers =
  fb_with_capacity :: "usize \<Rightarrow> 'b"
  fb_reset :: "'b \<Rightarrow> 'b"
  fb_create_vector :: "'b \<Rightarrow> bytes \<Rightarrow> 'b \<times> 'o"
  fb_create_send_packet :: "'b \<Rightarrow> packet_meta \<Rightarrow> fb_time \<Rightarrow> 'o \<Rightarrow> 'b \<times> 'o"
  fb_create_at_deadline :: "'b \<Rightarrow> 'b \<times> 'o"
  fb_create_to_tansiv_msg :: "'b \<Rightarrow> to_tansiv_type \<Rightarrow> 'o \<Rightarrow> 'b \<times> 'o"
  fb_create_goto_deadline :: "'b \<Rightarrow> fb_time \<Rightarrow> 'b \<times> 'o"
  fb_create_deliver_packet :: "'b \<Rightarrow> packet_meta \<Rightarrow> 'o \<Rightarrow> 'b \<times> 'o"
  fb_create_end_simulation :: "'b \<Rightarrow> 'b \<times> 'o"
  fb_create_from_tansiv_msg :: "'b \<Rightarrow> from_tansiv_type \<Rightarrow> 'o \<Rightarrow> 'b \<times> 'o"
  fb_finish_size_prefixed :: "'b \<Rightarrow> 'o \<Rightarrow> 'b"
  fb_finish :: "'b \<Rightarrow> 'o \<Rightarrow> 'b"
  fb_finished_data :: "'b \<Rightarrow> bytes option"
  fb_root_from_tansiv :: "bytes \<Rightarrow> from_tansiv_msg option"
  fb_root_to_tansiv :: "bytes \<Rightarrow> to_tansiv_msg option"
  fb_read_u32 :: "bytes \<Rightarrow> u32"

text \<open>
  What a builder holds, as seen through an offset: a byte vector, a table of either union, or a
  root message. \<open>fv_fresh\<close> is a builder nothing has been written to since its last reset.
\<close>

record ('b, 'o) fb_view =
  fv_fresh :: "'b \<Rightarrow> bool"
  fv_vector :: "'b \<Rightarrow> 'o \<Rightarrow> bytes option"
  fv_to_table :: "'b \<Rightarrow> 'o \<Rightarrow> to_tansiv_table option"
  fv_from_table :: "'b \<Rightarrow> 'o \<Rightarrow> from_tansiv_table option"
  fv_to_msg :: "'b \<Rightarrow> 'o \<Rightarrow> to_tansiv_msg option"
  fv_from_msg :: "'b \<Rightarrow> 'o \<Rightarrow> from_tansiv_msg option"

text \<open>Payloads up to this length keep a message below FlatBuffers' two gigabyte limit.\<close>

definition fb_payload_limit :: nat where
  "fb_payload_limit = 2 ^ 30"

fun to_payload_length :: "to_tansiv_table \<Rightarrow> nat" where
  "to_payload_length (SendPacketT _ _ (Some p)) = length p"
| "to_payload_length _ = 0"

fun from_payload_length :: "from_tansiv_table \<Rightarrow> nat" where
  "from_payload_length (DeliverPacketT _ (Some p)) = length p"
| "from_payload_length _ = 0"

definition fb_laws :: "('b, 'o) flatbuffers \<Rightarrow> ('b, 'o) fb_view \<Rightarrow> bool" where
  "fb_laws F V \<longleftrightarrow>
     (\<forall>n. fv_fresh V (fb_with_capacity F n)) \<and>
     (\<forall>b. fv_fresh V (fb_reset F b)) \<and>
     (\<forall>b p b' off. fv_fresh V b \<and> fb_create_vector F b p = (b', off) \<longrightarrow> fv_vector V b' off = Some p) \<and>
     (\<forall>b m t off p b' off'. fv_vector V b off = Some p \<and> fb_create_send_packet F b m t off = (b', off') \<longrightarrow>
        fv_to_table V b' off' = Some (SendPacketT (Some m) (Some t) (Some p))) \<and>
     (\<forall>b b' off'. fv_fresh V b \<and> fb_create_at_deadline F b = (b', off') \<longrightarrow>
        fv_to_table V b' off' = Some AtDeadlineT) \<and>
     (\<forall>b ty off t b' off'. fv_to_table V b off = Some t \<and> fb_create_to_tansiv_msg F b ty off = (b', off') \<longrightarrow>
        fv_to_msg V b' off' = Some \<lparr>to_content_type = ty, to_content = Some t\<rparr>) \<and>
     (\<forall>b t b' off'. fv_fresh V b \<and> fb_create_goto_deadline F b t = (b', off') \<longrightarrow>
        fv_from_table V b' off' = Some (GotoDeadlineT (Some t))) \<and>
     (\<forall>b m off p b' off'. fv_vector V b off = Some p \<and> fb_create_deliver_packet F b m off = (b', off') \<longrightarrow>
        fv_from_table V b' off' = Some (DeliverPacketT (Some m) (Some p))) \<and>
     (\<forall>b b' off'. fv_fresh V b \<and> fb_create_end_simulation F b = (b', off') \<longrightarrow>
        fv_from_table V b' off' = Some EndSimulationT) \<and>
     (\<forall>b ty off t b' off'. fv_from_table V b off = Some t \<and> fb_create_from_tansiv_msg F b ty off = (b', off') \<longrightarrow>
        fv_from_msg V b' off' = Some \<lparr>from_content_type = ty, from_content = Some t\<rparr>) \<and>
     (\<forall>b off ty t. fv_to_msg V b off = Some \<lparr>to_content_type = ty, to_content = Some t\<rparr> \<and>
        to_payload_length t \<le> fb_payload_limit \<longrightarrow>
        (\<exists>body. fb_finished_data F (fb_finish_size_prefixed F b off) = Some (le32 (word_of_nat (length body)) @ body) \<and>
           length body < 2 ^ 32 \<and>
           fb_root_to_tansiv F body = Some \<lparr>to_content_type = ty, to_content = Some t\<rparr>)) \<and>
     (\<forall>b off ty t. fv_from_msg V b off = Some \<lparr>from_content_type = ty, from_content = Some t\<rparr> \<and>
        from_payload_length t \<le> fb_payload_limit \<longrightarrow>
        (\<exists>body. fb_finished_data F (fb_finish_size_prefixed F b off) = Some (le32 (word_of_nat (length body)) @ body) \<and>
           length body < 2 ^ 32 \<and>
           fb_root_from_tansiv F body = Some \<lparr>from_content_type = ty, from_content = Some t\<rparr>)) \<and>
     (\<forall>w. fb_read_u32 F (le32 w) = w)"

lemmas fb_lawsD = fb_laws_def [THEN iffD1]

lemmas fb_capacityD = fb_lawsD [THEN conjunct1, rule_format]
lemmas fb_resetD = fb_lawsD [THEN conjunct2, THEN conjunct1, rule_format]
lemmas fb_vectorD = fb_lawsD [THEN conjunct2, THEN conjunct2, THEN conjunct1, rule_format, OF _ conjI]
lemmas fb_tl3 = fb_lawsD [THEN conjunct2, THEN conjunct2, THEN conjunct2]
lemmas fb_send_packetD = fb_tl3 [THEN conjunct1, rule_format, OF _ conjI]
lemmas fb_at_deadlineD = fb_tl3 [THEN conjunct2, THEN conjunct1, rule_format, OF _ conjI]
lemmas fb_to_msgD = fb_tl3 [THEN conjunct2, THEN conjunct2, THEN conjunct1, rule_format, OF _ conjI]
lemmas fb_tl6 = fb_tl3 [THEN conjunct2, THEN conjunct2, THEN conjunct2]
lemmas fb_goto_deadlineD = fb_tl6 [THEN conjunct1, rule_format, OF _ conjI]
lemmas fb_deliver_packetD = fb_tl6 [THEN conjunct2, THEN conjunct1, rule_format, OF _ conjI]
lemmas fb_end_simulationD = fb_tl6 [THEN conjunct2, THEN conjunct2, THEN conjunct1, rule_format, OF _ conjI]
lemmas fb_tl9 = fb_tl6 [THEN conjunct2, THEN conjunct2, THEN conjunct2]
lemmas fb_from_msgD = fb_tl9 [THEN conjunct1, rule_format, OF _ conjI]
lemmas fb_finish_toD = fb_tl9 [THEN conjunct2, THEN conjunct1, rule_format, OF _ conjI]
lemmas fb_finish_fromD = fb_tl9 [THEN conjunct2, THEN conjunct2, THEN conjunct1, rule_format, OF _ conjI]
lemmas fb_read_u32D = fb_tl9 [THEN conjunct2, THEN conjunct2, THEN conjunct2, rule_format]

end
