(* ===== verification/Flatbuilder_Buffer.thy ===== *)
theory Flatbuilder_Buffer
  imports Buffer_Pool Flatbuffers
begin

text \<open>
  The builder buffers of \<open>flatbuilder_buffer.rs\<close>: a vector with one FlatBuffers builder per
  buffer. The Rust type \<open>FbBuilder<'fbb, I>\<close> carries no data, only the initializer \<open>I\<close>, which is
  the argument \<open>initializer\<close> here. The interpretation \<open>fb_ib\<close> discharges the contract of
  \<open>InnerBuffer\<close>.
\<close>

definition FbBuilder_calloc :: "(usize \<Rightarrow> 'b) \<Rightarrow> usize \<Rightarrow> usize \<Rightarrow> 'b list option" where
  "FbBuilder_calloc initializer sz num = Some (replicate num (initializer sz))"

definition FbBuilder_new :: "usize \<Rightarrow> usize \<Rightarrow> unit" where
  "FbBuilder_new idx sz = ()"

definition FbBuilder_get :: "unit \<Rightarrow> usize \<Rightarrow> 'b list \<Rightarrow> usize \<Rightarrow> 'b option" where
  "FbBuilder_get self pool_buffer_size inner index =
     (if index < length inner then Some (inner ! index) else None)"

definition FbBuilder_get_mut :: "unit \<Rightarrow> usize \<Rightarrow> 'b list \<Rightarrow> usize \<Rightarrow> 'b \<Rightarrow> 'b list option" where
  "FbBuilder_get_mut self pool_buffer_size inner index content =
     (if index < length inner then Some (inner[index := content]) else None)"

definition FbBuilder_reset ::
  "('b, 'o) flatbuffers \<Rightarrow> unit \<Rightarrow> usize \<Rightarrow> 'b list \<Rightarrow> usize \<Rightarrow> 'b list option" where
  "FbBuilder_reset F self pool_buffer_size inner index = do {
     b \<leftarrow> FbBuilder_get self pool_buffer_size inner index;
     FbBuilder_get_mut self pool_buffer_size inner index (fb_reset F b)
   }"

definition FbBuilder :: "('b, 'o) flatbuffers \<Rightarrow> (usize \<Rightarrow> 'b) \<Rightarrow> ('b list, unit, 'b) InnerBuffer" where
  "FbBuilder F initializer = \<lparr>
     ib_calloc = FbBuilder_calloc initializer,
     ib_new = FbBuilder_new,
     ib_get = FbBuilder_get,
     ib_put = FbBuilder_get_mut,
     ib_reset = FbBuilder_reset F\<rparr>"

type_synonym 'b fb_pool = "'b list buffer_pool"

definition fb_wf_arr :: "usize \<Rightarrow> usize \<Rightarrow> 'b list \<Rightarrow> bool" where
  "fb_wf_arr sz num a \<longleftrightarrow> length a = num"

lemmas FbBuilder_defs = FbBuilder_def FbBuilder_calloc_def FbBuilder_get_def FbBuilder_get_mut_def
  FbBuilder_reset_def fb_wf_arr_def

interpretation fb_ib: inner_buffer "FbBuilder F initializer" fb_wf_arr "\<lambda>_ _. True" "\<lambda>_ _. True"
  for F :: "('b, 'o) flatbuffers" and initializer :: "usize \<Rightarrow> 'b"
  by unfold_locales (auto simp: FbBuilder_defs split: if_splits)

text \<open>
  A builder just allocated from a pool has been reset: its previous user left nothing behind.
\<close>

lemma allocate_fb_reset:
  assumes wf: "fb_ib.wf_pool pool"
    and alloc: "BufferPool_allocate_buffer (FbBuilder F initializer) pool sz = Some (Ok b, pool')"
  shows "\<exists>b0. Buffer_deref (FbBuilder F initializer) pool' b = Some (fb_reset F b0)"
proof -
  from alloc obtain arr where a:
    "buf_index b < num_buffers_of pool"
    "ib_reset (FbBuilder F initializer) (buf_inner b) (buffer_size pool) (buffers pool) (buf_index b) = Some arr"
    "pool' = pool\<lparr>buffer_busy := (buffer_busy pool)[buf_index b := True], buffers := arr\<rparr>"
    by (rule allocate_buffer_Ok)
  with wf have "buf_index b < length (buffers pool)"
    by (simp add: fb_ib.wf_pool_def fb_wf_arr_def)
  with a show ?thesis by (auto simp: Buffer_deref_def FbBuilder_defs)
qed

end
