(* ===== verification/Rust_Time.thy ===== *)
theory Rust_Time
  imports Tansiv_Prelude
begin

text \<open>
  The two notions of time span the client uses.

  \<^item> \<open>std::time::Duration\<close> (standard library), here \<open>duration\<close>: a number of nanoseconds whose
    whole seconds fit a \<open>u64\<close>. The library stores a pair of whole seconds and subsecond
    nanoseconds; the pairs with subsecond part below one billion and the numbers below
    \<open>2 ^ 64 * 10 ^ 9\<close> are in bijection, and the derived order on the pairs is the order on the
    numbers. \<open>Duration::new\<close>, \<open>+\<close> and \<open>-\<close> panic on overflow and underflow.
  \<^item> \<open>chrono::Duration\<close> and \<open>chrono::NaiveDateTime\<close> (third-party crate), here the type parameters
    \<open>'d\<close> and \<open>'t\<close> with their operations in the record \<open>chrono\<close>, an argument of every
    definition that uses them. \<open>chrono_laws\<close> states their documented behaviour.
\<close>

section \<open>std::time::Duration\<close>

definition duration_bound :: nat where
  "duration_bound = 2 ^ 64 * 10 ^ 9"

typedef duration = "{n :: nat. n < duration_bound}"
  morphisms as_nanos Abs_duration
  by (rule exI [of _ 0]) (simp add: duration_bound_def)

setup_lifting type_definition_duration

instantiation duration :: linorder
begin

lift_definition less_eq_duration :: "duration \<Rightarrow> duration \<Rightarrow> bool" is "(\<le>)" .

lift_definition less_duration :: "duration \<Rightarrow> duration \<Rightarrow> bool" is "(<)" .

instance
  by standard (transfer; auto)+

end

instantiation duration :: equal
begin

lift_definition equal_duration :: "duration \<Rightarrow> duration \<Rightarrow> bool" is "(=)" .

instance
  by standard (transfer; simp)

end

text \<open>The duration of a number of nanoseconds; \<open>duration_checked\<close> panics where it does not fit.\<close>

lift_definition dur :: "nat \<Rightarrow> duration" is "\<lambda>n. if n < duration_bound then n else 0"
  by (simp add: duration_bound_def)

definition duration_checked :: "nat \<Rightarrow> duration option" where
  "duration_checked n = (if n < duration_bound then Some (dur n) else None)"

definition Duration_new :: "u64 \<Rightarrow> u32 \<Rightarrow> duration option" where
  "Duration_new secs nanos = duration_checked (unat secs * 10 ^ 9 + unat nanos)"

definition as_secs :: "duration \<Rightarrow> u64" where
  "as_secs d = word_of_nat (as_nanos d div 10 ^ 9)"

definition subsec_nanos :: "duration \<Rightarrow> u32" where
  "subsec_nanos d = word_of_nat (as_nanos d mod 10 ^ 9)"

definition Duration_add :: "duration \<Rightarrow> duration \<Rightarrow> duration option" where
  "Duration_add a b = duration_checked (as_nanos a + as_nanos b)"

definition Duration_sub :: "duration \<Rightarrow> duration \<Rightarrow> duration option" where
  "Duration_sub a b = (if b \<le> a then Some (dur (as_nanos a - as_nanos b)) else None)"

abbreviation Duration_ZERO :: duration where
  "Duration_ZERO \<equiv> dur 0"

named_theorems time_simps

lemma as_nanos_bound: "as_nanos d < duration_bound"
  using as_nanos by simp

lemma duration_le_iff [time_simps]: "a \<le> b \<longleftrightarrow> as_nanos a \<le> as_nanos b"
  by transfer simp

lemma duration_less_iff [time_simps]: "a < b \<longleftrightarrow> as_nanos a < as_nanos b"
  by transfer simp

lemma duration_eq_iff: "a = b \<longleftrightarrow> as_nanos a = as_nanos b"
  by (simp add: as_nanos_inject)

lemma as_nanos_dur: "as_nanos (dur n) = (if n < duration_bound then n else 0)"
  by transfer simp

lemma as_nanos_dur_small [simp, time_simps]: "n < duration_bound \<Longrightarrow> as_nanos (dur n) = n"
  by (simp add: as_nanos_dur)

lemma dur_as_nanos [simp]: "dur (as_nanos d) = d"
  using as_nanos_bound [of d] by (simp add: duration_eq_iff)

lemma Duration_sub_eq_Some:
  "Duration_sub a b = Some c \<longleftrightarrow> b \<le> a \<and> as_nanos c = as_nanos a - as_nanos b"
proof -
  have "as_nanos a - as_nanos b < duration_bound"
    using as_nanos_bound [of a] by linarith
  then show ?thesis by (auto simp: Duration_sub_def duration_eq_iff)
qed

lemma Duration_add_eq_Some:
  "Duration_add a b = Some c \<longleftrightarrow> as_nanos c = as_nanos a + as_nanos b"
  using as_nanos_bound [of c]
  by (auto simp: Duration_add_def duration_checked_def duration_eq_iff)

lemma unat_as_secs [time_simps]: "unat (as_secs d) = as_nanos d div 10 ^ 9"
proof -
  have "as_nanos d div 10 ^ 9 < 2 ^ 64"
    using as_nanos_bound [of d] by (simp add: duration_bound_def less_mult_imp_div_less)
  then show ?thesis by (simp add: as_secs_def unat_of_nat)
qed

lemma unat_subsec_nanos [time_simps]: "unat (subsec_nanos d) = as_nanos d mod 10 ^ 9"
proof -
  have "as_nanos d mod 10 ^ 9 < 10 ^ 9" by simp
  then have "as_nanos d mod 10 ^ 9 < 2 ^ 32" by (rule less_trans) simp
  then show ?thesis by (simp add: subsec_nanos_def unat_of_nat)
qed

text \<open>Taking a duration apart and building it again is the identity.\<close>

lemma Duration_new_parts [simp]: "Duration_new (as_secs d) (subsec_nanos d) = Some d"
proof -
  have "as_nanos d div 10 ^ 9 * 10 ^ 9 + as_nanos d mod 10 ^ 9 = as_nanos d"
    by (rule div_mult_mod_eq)
  then show ?thesis
    using as_nanos_bound [of d]
    by (simp add: Duration_new_def duration_checked_def unat_as_secs unat_subsec_nanos)
qed

lemma Duration_new_Some:
  assumes "Duration_new s n = Some d"
  shows "as_nanos d = unat s * 10 ^ 9 + unat n"
  using assms by (auto simp: Duration_new_def duration_checked_def split: if_splits)

lemma Duration_new_defined:
  assumes "unat n < 10 ^ 9"
  obtains d where "Duration_new s n = Some d"
proof -
  have "unat s < 2 ^ 64" by (rule unat_u64_less)
  then have "unat s * 10 ^ 9 + unat n < duration_bound"
    using assms by (simp add: duration_bound_def)
  then show ?thesis using that by (simp add: Duration_new_def duration_checked_def)
qed

section \<open>chrono::Duration and chrono::NaiveDateTime\<close>

text \<open>
  The operations of the crate the client calls. \<open>from_std\<close> and \<open>to_std\<close> return a \<open>Result\<close>
  whose error carries no information (\<open>None\<close>); in the other operations \<open>None\<close> is the overflow
  panic. \<open>num_nanoseconds\<close> returns an \<open>Option\<close>.
\<close>

record ('d, 't) chrono =
  ch_zero :: 'd
  ch_from_std :: "duration \<Rightarrow> 'd option"
  ch_to_std :: "'d \<Rightarrow> duration option"
  ch_add :: "'d \<Rightarrow> 'd \<Rightarrow> 'd option"
  ch_sub :: "'d \<Rightarrow> 'd \<Rightarrow> 'd option"
  ch_neg :: "'d \<Rightarrow> 'd"
  ch_seconds :: "i64 \<Rightarrow> 'd option"
  ch_nanoseconds :: "i64 \<Rightarrow> 'd"
  ch_num_seconds :: "'d \<Rightarrow> i64"
  ch_num_nanoseconds :: "'d \<Rightarrow> i64 option"
  nd_epoch :: 't
  nd_since :: "'t \<Rightarrow> 't \<Rightarrow> 'd"
  nd_add :: "'t \<Rightarrow> 'd \<Rightarrow> 't option"
  nd_timestamp :: "'t \<Rightarrow> i64"
  nd_subsec_micros :: "'t \<Rightarrow> u32"

text \<open>The greatest magnitude a \<open>chrono::Duration\<close> holds: \<open>i64::MAX\<close> milliseconds.\<close>

definition chrono_max :: int where
  "chrono_max = (2 ^ 63 - 1) * 10 ^ 6"

lemma chrono_max_i64: "x < 2 ^ 63 \<Longrightarrow> x \<le> chrono_max"
  by (simp add: chrono_max_def)

definition trunc_div :: "int \<Rightarrow> int \<Rightarrow> int" where
  "trunc_div a b = sgn a * sgn b * (\<bar>a\<bar> div \<bar>b\<bar>)"

text \<open>
  The documented behaviour of the crate, for the value \<open>ns\<close> of a span in nanoseconds and the
  value \<open>ts\<close> of a date and time in nanoseconds since the epoch: conversions keep the value, fail
  on negative or too large spans, and arithmetic is exact within the range.
\<close>

definition chrono_laws :: "('d, 't) chrono \<Rightarrow> ('d \<Rightarrow> int) \<Rightarrow> ('t \<Rightarrow> int) \<Rightarrow> bool" where
  "chrono_laws C ns ts \<longleftrightarrow>
     ns (ch_zero C) = 0 \<and>
     (\<forall>d. int (as_nanos d) \<le> chrono_max \<longrightarrow>
        (\<exists>x. ch_from_std C d = Some x \<and> ns x = int (as_nanos d))) \<and>
     (\<forall>x. ns x < 0 \<longrightarrow> ch_to_std C x = None) \<and>
     (\<forall>x. 0 \<le> ns x \<and> ns x \<le> chrono_max \<longrightarrow>
        (\<exists>d. ch_to_std C x = Some d \<and> int (as_nanos d) = ns x)) \<and>
     (\<forall>x y. \<bar>ns x + ns y\<bar> \<le> chrono_max \<longrightarrow>
        (\<exists>z. ch_add C x y = Some z \<and> ns z = ns x + ns y)) \<and>
     (\<forall>x y. \<bar>ns x - ns y\<bar> \<le> chrono_max \<longrightarrow>
        (\<exists>z. ch_sub C x y = Some z \<and> ns z = ns x - ns y)) \<and>
     (\<forall>x. \<bar>ns x\<bar> \<le> chrono_max \<longrightarrow> ns (ch_neg C x) = - ns x) \<and>
     (\<forall>w. \<bar>sint w * 10 ^ 9\<bar> \<le> chrono_max \<longrightarrow>
        (\<exists>x. ch_seconds C w = Some x \<and> ns x = sint w * 10 ^ 9)) \<and>
     (\<forall>w. ns (ch_nanoseconds C w) = sint w) \<and>
     (\<forall>x. \<bar>ns x\<bar> \<le> chrono_max \<longrightarrow> sint (ch_num_seconds C x) = trunc_div (ns x) (10 ^ 9)) \<and>
     (\<forall>x. - (2 ^ 63) \<le> ns x \<and> ns x < 2 ^ 63 \<longrightarrow>
        (\<exists>w. ch_num_nanoseconds C x = Some w \<and> sint w = ns x)) \<and>
     ts (nd_epoch C) = 0 \<and>
     (\<forall>a b. ns (nd_since C a b) = ts a - ts b) \<and>
     (\<forall>a x b. nd_add C a x = Some b \<longrightarrow> ts b = ts a + ns x) \<and>
     (\<forall>a. \<bar>ts a\<bar> \<le> chrono_max \<longrightarrow> sint (nd_timestamp C a) = ts a div 10 ^ 9) \<and>
     (\<forall>a. int (unat (nd_subsec_micros C a)) = ts a mod 10 ^ 9 div 10 ^ 3)"

text \<open>One rule per law.\<close>

lemmas chrono_lawsD = chrono_laws_def [THEN iffD1]

lemmas chrono_zeroD =
  chrono_lawsD [THEN conjunct1, rule_format]

lemmas chrono_from_stdD =
  chrono_lawsD [THEN conjunct2, THEN conjunct1, rule_format]

lemmas chrono_to_std_negD =
  chrono_lawsD [THEN conjunct2, THEN conjunct2, THEN conjunct1, rule_format]

lemmas chrono_to_stdD =
  chrono_lawsD [THEN conjunct2, THEN conjunct2, THEN conjunct2, THEN conjunct1, rule_format]

lemmas chrono_addD =
  chrono_lawsD [THEN conjunct2, THEN conjunct2, THEN conjunct2, THEN conjunct2, THEN conjunct1,
    rule_format]

lemmas chrono_subD =
  chrono_lawsD [THEN conjunct2, THEN conjunct2, THEN conjunct2, THEN conjunct2, THEN conjunct2, THEN
    conjunct1, rule_format]

lemmas chrono_negD =
  chrono_lawsD [THEN conjunct2, THEN conjunct2, THEN conjunct2, THEN conjunct2, THEN conjunct2, THEN
    conjunct2, THEN conjunct1, rule_format]

lemmas chrono_secondsD =
  chrono_lawsD [THEN conjunct2, THEN conjunct2, THEN conjunct2, THEN conjunct2, THEN conjunct2, THEN
    conjunct2, THEN conjunct2, THEN conjunct1, rule_format]

lemmas chrono_nanosecondsD =
  chrono_lawsD [THEN conjunct2, THEN conjunct2, THEN conjunct2, THEN conjunct2, THEN conjunct2, THEN
    conjunct2, THEN conjunct2, THEN conjunct2, THEN conjunct1, rule_format]

lemmas chrono_num_secondsD =
  chrono_lawsD [THEN conjunct2, THEN conjunct2, THEN conjunct2, THEN conjunct2, THEN conjunct2, THEN
    conjunct2, THEN conjunct2, THEN conjunct2, THEN conjunct2, THEN conjunct1, rule_format]

lemmas chrono_num_nanosecondsD =
  chrono_lawsD [THEN conjunct2, THEN conjunct2, THEN conjunct2, THEN conjunct2, THEN conjunct2, THEN
    conjunct2, THEN conjunct2, THEN conjunct2, THEN conjunct2, THEN conjunct2, THEN conjunct1,
    rule_format]

lemmas chrono_epochD =
  chrono_lawsD [THEN conjunct2, THEN conjunct2, THEN conjunct2, THEN conjunct2, THEN conjunct2, THEN
    conjunct2, THEN conjunct2, THEN conjunct2, THEN conjunct2, THEN conjunct2, THEN conjunct2,
    THEN conjunct1, rule_format]

lemmas chrono_sinceD =
  chrono_lawsD [THEN conjunct2, THEN conjunct2, THEN conjunct2, THEN conjunct2, THEN conjunct2, THEN
    conjunct2, THEN conjunct2, THEN conjunct2, THEN conjunct2, THEN conjunct2, THEN conjunct2,
    THEN conjunct2, THEN conjunct1, rule_format]

lemmas chrono_nd_addD =
  chrono_lawsD [THEN conjunct2, THEN conjunct2, THEN conjunct2, THEN conjunct2, THEN conjunct2, THEN
    conjunct2, THEN conjunct2, THEN conjunct2, THEN conjunct2, THEN conjunct2, THEN conjunct2,
    THEN conjunct2, THEN conjunct2, THEN conjunct1, rule_format]

lemmas chrono_timestampD =
  chrono_lawsD [THEN conjunct2, THEN conjunct2, THEN conjunct2, THEN conjunct2, THEN conjunct2, THEN
    conjunct2, THEN conjunct2, THEN conjunct2, THEN conjunct2, THEN conjunct2, THEN conjunct2,
    THEN conjunct2, THEN conjunct2, THEN conjunct2, THEN conjunct1, rule_format]

lemmas chrono_subsec_microsD =
  chrono_lawsD [THEN conjunct2, THEN conjunct2, THEN conjunct2, THEN conjunct2, THEN conjunct2, THEN
    conjunct2, THEN conjunct2, THEN conjunct2, THEN conjunct2, THEN conjunct2, THEN conjunct2,
    THEN conjunct2, THEN conjunct2, THEN conjunct2, THEN conjunct2, rule_format]

end
