(* ===== verification/Connector.thy ===== *)
theory Connector
  imports Bytes_Buffer Flatbuilder_Buffer Rust_Time
begin

text \<open>
  The protocol messages of \<open>connector/mod.rs\<close>: building and sending the client's messages,
  receiving and checking the actor's.

  A \<open>unix_stream\<close> is the client's end of the socket. \<open>rx\<close> holds the bytes the peer sends until
  it closes its end (reading past them is the end-of-file error), \<open>tx\<close> the bytes written so far.
  \<open>wr_faults\<close> is the schedule of write failures: \<open>None\<close> lets the next \<open>write_all\<close> succeed,
  \<open>Some k\<close> fails it after \<open>k\<close> bytes, and past the end of the schedule writes succeed.

  Rust drops a buffer when its owner goes out of scope; the model calls \<open>Buffer_drop\<close> at those
  points, so that which buffers a message holds is explicit.
\<close>

section \<open>The socket\<close>

record unix_stream =
  rx :: bytes
  tx :: bytes
  wr_faults :: "nat option list"

text \<open>
  \<open>Read::read_exact\<close> into a buffer of length \<open>n\<close>: the bytes stored, the result, the stream.
\<close>

definition read_exact :: "unix_stream \<Rightarrow> nat \<Rightarrow> bytes \<times> (unit, io_error) result \<times> unix_stream" where
  "read_exact s n =
     (if n \<le> length (rx s) then (take n (rx s), Ok (), s\<lparr>rx := drop n (rx s)\<rparr>)
      else (rx s, Err (IoErr UnexpectedEof ''failed to fill whole buffer''), s\<lparr>rx := []\<rparr>))"

definition write_all :: "unix_stream \<Rightarrow> bytes \<Rightarrow> (unit, io_error) result \<times> unix_stream" where
  "write_all s bs =
     (case wr_faults s of
        [] \<Rightarrow> (Ok (), s\<lparr>tx := tx s @ bs\<rparr>)
      | None # fs \<Rightarrow> (Ok (), s\<lparr>tx := tx s @ bs, wr_faults := fs\<rparr>)
      | Some k # fs \<Rightarrow> (Err (IoErr BrokenPipe ''write failed''), s\<lparr>tx := tx s @ take k bs, wr_faults := fs\<rparr>))"

section \<open>Building messages\<close>

definition fb_time_of :: "duration \<Rightarrow> fb_time" where
  "fb_time_of d = \<lparr>tm_seconds = as_secs d, tm_nseconds = ucast (subsec_nanos d)\<rparr>"

definition create_end_simulation :: "('b, 'o) flatbuffers \<Rightarrow> 'b \<Rightarrow> 'b" where
  "create_end_simulation F builder =
     (let (b1, end_simulation) = fb_create_end_simulation F builder;
          (b2, msg) = fb_create_from_tansiv_msg F b1 FromEndSimulation end_simulation
      in fb_finish_size_prefixed F b2 msg)"

definition create_goto_deadline :: "('b, 'o) flatbuffers \<Rightarrow> 'b \<Rightarrow> duration \<Rightarrow> 'b" where
  "create_goto_deadline F builder deadline =
     (let time = fb_time_of deadline;
          (b1, goto_deadline) = fb_create_goto_deadline F builder time;
          (b2, msg) = fb_create_from_tansiv_msg F b1 FromGotoDeadline goto_deadline
      in fb_finish_size_prefixed F b2 msg)"

definition create_at_deadline :: "('b, 'o) flatbuffers \<Rightarrow> 'b \<Rightarrow> 'b" where
  "create_at_deadline F builder =
     (let (b1, at_deadline) = fb_create_at_deadline F builder;
          (b2, msg) = fb_create_to_tansiv_msg F b1 ToAtDeadline at_deadline
      in fb_finish_size_prefixed F b2 msg)"

definition prepare_deliver_packet :: "('b, 'o) flatbuffers \<Rightarrow> 'b \<Rightarrow> u32 \<Rightarrow> u32 \<Rightarrow> bytes \<Rightarrow> 'b \<times> 'o" where
  "prepare_deliver_packet F builder src dst payload =
     (let fb_packet_meta = \<lparr>pm_src = src, pm_dst = dst\<rparr>;
          (b1, fb_payload) = fb_create_vector F builder payload;
          (b2, deliver_packet) = fb_create_deliver_packet F b1 fb_packet_meta fb_payload
      in fb_create_from_tansiv_msg F b2 FromDeliverPacket deliver_packet)"

definition create_deliver_packet :: "('b, 'o) flatbuffers \<Rightarrow> 'b \<Rightarrow> u32 \<Rightarrow> u32 \<Rightarrow> bytes \<Rightarrow> 'b" where
  "create_deliver_packet F builder src dst payload =
     (let (b, msg) = prepare_deliver_packet F builder src dst payload
      in fb_finish_size_prefixed F b msg)"

definition create_deliver_packet_unprefixed ::
  "('b, 'o) flatbuffers \<Rightarrow> 'b \<Rightarrow> u32 \<Rightarrow> u32 \<Rightarrow> bytes \<Rightarrow> 'b" where
  "create_deliver_packet_unprefixed F builder src dst payload =
     (let (b, msg) = prepare_deliver_packet F builder src dst payload
      in fb_finish F b msg)"

definition create_send_packet_from_payload ::
  "('b, 'o) flatbuffers \<Rightarrow> 'b \<Rightarrow> duration \<Rightarrow> u32 \<Rightarrow> u32 \<Rightarrow> bytes \<Rightarrow> 'b" where
  "create_send_packet_from_payload F builder send_time src dst payload =
     (let time = fb_time_of send_time;
          packet_meta = \<lparr>pm_src = src, pm_dst = dst\<rparr>;
          (b1, fb_payload) = fb_create_vector F builder payload;
          (b2, send_packet) = fb_create_send_packet F b1 packet_meta time fb_payload;
          (b3, msg) = fb_create_to_tansiv_msg F b2 ToSendPacket send_packet
      in fb_finish_size_prefixed F b3 msg)"

text \<open>
  The initializer warms a builder up with the largest messages and resets it. The sample send
  time \<open>Duration::new(1, 1)\<close> is in range.
\<close>

definition MsgFbInitializer_init :: "('b, 'o) flatbuffers \<Rightarrow> usize \<Rightarrow> 'b" where
  "MsgFbInitializer_init F max_packet_size =
     (let builder = fb_with_capacity F max_packet_size;
          payload = replicate max_packet_size 1;
          send_time = dur (10 ^ 9 + 1);
          builder = create_send_packet_from_payload F builder send_time 1 1 payload;
          builder = fb_reset F builder;
          builder = create_at_deadline F builder
      in fb_reset F builder)"

definition FbBuffer :: "('b, 'o) flatbuffers \<Rightarrow> ('b list, unit, 'b) InnerBuffer" where
  "FbBuffer F = FbBuilder F (MsgFbInitializer_init F)"

section \<open>Receiving from the actor\<close>

definition new_format_error :: io_error where
  "new_format_error = IoErr InvalidData ''Message format error''"

definition connector_allocate_buffer ::
  "bytes_pool \<Rightarrow> usize \<Rightarrow> ((bytes_buffer buffer, io_error) result \<times> bytes_pool) option" where
  "connector_allocate_buffer pool sz = do {
     (r, pool) \<leftarrow> BufferPool_allocate_buffer BytesBuffer pool sz;
     Some (case r of
         Inr b \<Rightarrow> Ok b
       | Inl BufferSizeTooBig \<Rightarrow> Err (IoErr InvalidData ''Packet size too big'')
       | Inl e \<Rightarrow> Err (IoErr OtherKind (buffer_pool_error_fmt e)), pool)
   }"

definition read_prefixed_size ::
  "('b, 'o) flatbuffers \<Rightarrow> unix_stream \<Rightarrow> (usize, io_error) result \<times> unix_stream" where
  "read_prefixed_size F reader =
     (case read_exact reader 4 of
        (_, Inl e, reader) \<Rightarrow> (Err e, reader)
      | (scratch, Inr _, reader) \<Rightarrow> (Ok (unat (fb_read_u32 F scratch)), reader))"

record deliver_packet =
  dp_inner :: "bytes_buffer buffer"

definition DeliverPacket_deserialize ::
  "('b, 'o) flatbuffers \<Rightarrow> bytes_pool \<Rightarrow> deliver_packet \<Rightarrow> (packet_meta option \<times> bytes option) option" where
  "DeliverPacket_deserialize F pool d = do {
     bs \<leftarrow> Buffer_deref BytesBuffer pool (dp_inner d);
     msg \<leftarrow> fb_root_from_tansiv F bs;
     content_as_deliver_packet msg
   }"

definition DeliverPacket_src :: "('b, 'o) flatbuffers \<Rightarrow> bytes_pool \<Rightarrow> deliver_packet \<Rightarrow> u32 option" where
  "DeliverPacket_src F pool d = do {
     (metadata, payload) \<leftarrow> DeliverPacket_deserialize F pool d;
     m \<leftarrow> metadata;
     Some (pm_src m)
   }"

definition DeliverPacket_dst :: "('b, 'o) flatbuffers \<Rightarrow> bytes_pool \<Rightarrow> deliver_packet \<Rightarrow> u32 option" where
  "DeliverPacket_dst F pool d = do {
     (metadata, payload) \<leftarrow> DeliverPacket_deserialize F pool d;
     m \<leftarrow> metadata;
     Some (pm_dst m)
   }"

definition DeliverPacket_payload :: "('b, 'o) flatbuffers \<Rightarrow> bytes_pool \<Rightarrow> deliver_packet \<Rightarrow> bytes option" where
  "DeliverPacket_payload F pool d = do {
     (metadata, payload) \<leftarrow> DeliverPacket_deserialize F pool d;
     payload
   }"

datatype msg_in = DeliverPacket deliver_packet | GoToDeadline duration | EndSimulation

definition MsgIn_new_deliver_packet ::
  "('b, 'o) flatbuffers \<Rightarrow> bytes_pool \<Rightarrow> bytes_buffer buffer \<Rightarrow>
     ((msg_in, io_error) result \<times> bytes_pool) option" where
  "MsgIn_new_deliver_packet F pool buffer = do {
     bs \<leftarrow> Buffer_deref BytesBuffer pool buffer;
     msg \<leftarrow> fb_root_from_tansiv F bs;
     case content_as_deliver_packet msg of
       None \<Rightarrow> do {
         pool \<leftarrow> Buffer_drop pool buffer;
         Some (Err new_format_error, pool)
       }
     | Some (metadata, payload) \<Rightarrow>
         (if metadata = None \<or> payload = None then do {
            pool \<leftarrow> Buffer_drop pool buffer;
            Some (Err new_format_error, pool)
          } else Some (Ok (DeliverPacket \<lparr>dp_inner = buffer\<rparr>), pool))
   }"

text \<open>The bounds check of the seconds and nanoseconds of a wire time.\<close>

definition duration_of_fb_time :: "fb_time \<Rightarrow> (duration, io_error) result option" where
  "duration_of_fb_time time =
     (if unat (tm_nseconds time) < 2 ^ 32 \<and> unat (tm_nseconds time) < 1000000000 then
        map_option Ok (Duration_new (tm_seconds time) (ucast (tm_nseconds time)))
      else Some (Err (IoErr InvalidData ''Time out of bounds'')))"

text \<open>
  What \<open>MsgIn::recv\<close> makes of a checked message in \<open>buffer\<close>: a delivered packet keeps the buffer,
  every other outcome drops it.
\<close>

definition MsgIn_dispatch ::
  "('b, 'o) flatbuffers \<Rightarrow> bytes_pool \<Rightarrow> bytes_buffer buffer \<Rightarrow> from_tansiv_msg \<Rightarrow>
     ((msg_in, io_error) result \<times> bytes_pool) option" where
  "MsgIn_dispatch F pool buffer msg =
     (if from_content_type msg = FromDeliverPacket then MsgIn_new_deliver_packet F pool buffer
      else do {
        r \<leftarrow> (case from_content_type msg of
             FromGotoDeadline \<Rightarrow>
               (case content_as_goto_deadline msg of
                  None \<Rightarrow> Some (Err new_format_error)
                | Some None \<Rightarrow> Some (Err new_format_error)
                | Some (Some time) \<Rightarrow> map_option (map_sum id GoToDeadline) (duration_of_fb_time time))
           | FromEndSimulation \<Rightarrow> Some (Ok EndSimulation)
           | _ \<Rightarrow> Some (Err (IoErr InvalidData ''Message content is missing'')));
        pool \<leftarrow> Buffer_drop pool buffer;
        Some (r, pool)
      })"

text \<open>\<open>MsgIn::recv\<close> from the point where the buffer is allocated.\<close>

definition MsgIn_recv_body ::
  "('b, 'o) flatbuffers \<Rightarrow> unix_stream \<Rightarrow> bytes_pool \<Rightarrow> bytes_buffer buffer \<Rightarrow>
     ((msg_in, io_error) result \<times> unix_stream \<times> bytes_pool) option" where
  "MsgIn_recv_body F reader pool buffer =
     (case read_exact reader (bb_size (buf_inner buffer)) of
        (got, Inl e, reader) \<Rightarrow> do {
          old \<leftarrow> Buffer_deref BytesBuffer pool buffer;
          pool \<leftarrow> Buffer_deref_mut BytesBuffer pool buffer (got @ drop (length got) old);
          pool \<leftarrow> Buffer_drop pool buffer;
          Some (Err e, reader, pool)
        }
      | (got, Inr _, reader) \<Rightarrow> do {
          pool \<leftarrow> Buffer_deref_mut BytesBuffer pool buffer got;
          bs \<leftarrow> Buffer_deref BytesBuffer pool buffer;
          case fb_root_from_tansiv F bs of
            None \<Rightarrow> do {
              pool \<leftarrow> Buffer_drop pool buffer;
              Some (Err new_format_error, reader, pool)
            }
          | Some msg \<Rightarrow> do {
              (r, pool) \<leftarrow> MsgIn_dispatch F pool buffer msg;
              Some (r, reader, pool)
            }
        })"

definition MsgIn_recv ::
  "('b, 'o) flatbuffers \<Rightarrow> unix_stream \<Rightarrow> bytes_pool \<Rightarrow>
     ((msg_in, io_error) result \<times> unix_stream \<times> bytes_pool) option" where
  "MsgIn_recv F reader pool =
     (case read_prefixed_size F reader of
        (Inl e, reader) \<Rightarrow> Some (Err e, reader, pool)
      | (Inr sz, reader) \<Rightarrow> do {
          (b, pool) \<leftarrow> connector_allocate_buffer pool sz;
          case b of
            Inl e \<Rightarrow> Some (Err e, reader, pool)
          | Inr buffer \<Rightarrow> MsgIn_recv_body F reader pool buffer
        })"

section \<open>Sending to the actor\<close>

record 'o send_packet_builder =
  spb_src :: in_addr_t
  spb_dst :: in_addr_t
  spb_send_time :: duration
  spb_payload :: "unit buffer"
  spb_payload_offset :: 'o

definition SendPacketBuilder_new ::
  "('b, 'o) flatbuffers \<Rightarrow> 'b fb_pool \<Rightarrow> in_addr_t \<Rightarrow> in_addr_t \<Rightarrow> duration \<Rightarrow> bytes \<Rightarrow> unit buffer \<Rightarrow>
     ('o send_packet_builder \<times> 'b fb_pool) option" where
  "SendPacketBuilder_new F pool src dst send_time payload buffer = do {
     b \<leftarrow> Buffer_deref (FbBuffer F) pool buffer;
     (b, payload_offset) \<leftarrow> Some (fb_create_vector F b payload);
     pool \<leftarrow> Buffer_deref_mut (FbBuffer F) pool buffer b;
     Some (\<lparr>spb_src = src, spb_dst = dst, spb_send_time = send_time,
            spb_payload = buffer, spb_payload_offset = payload_offset\<rparr>, pool)
   }"

record send_packet =
  sp_inner :: "unit buffer"

definition SendPacketBuilder_finish ::
  "('b, 'o) flatbuffers \<Rightarrow> 'b fb_pool \<Rightarrow> 'o send_packet_builder \<Rightarrow> duration \<Rightarrow>
     (send_packet \<times> 'b fb_pool) option" where
  "SendPacketBuilder_finish F pool self send_time = do {
     p \<leftarrow> Buffer_deref (FbBuffer F) pool (spb_payload self);
     p \<leftarrow> Some (
       let time = fb_time_of send_time;
           packet_meta = \<lparr>pm_src = spb_src self, pm_dst = spb_dst self\<rparr>;
           (p, send_packet) = fb_create_send_packet F p packet_meta time (spb_payload_offset self);
           (p, msg) = fb_create_to_tansiv_msg F p ToSendPacket send_packet
       in fb_finish_size_prefixed F p msg);
     pool \<leftarrow> Buffer_deref_mut (FbBuffer F) pool (spb_payload self) p;
     Some (\<lparr>sp_inner = spb_payload self\<rparr>, pool)
   }"

datatype ordering = Less | Equal | Greater

definition SendPacketBuilder_cmp :: "'o send_packet_builder \<Rightarrow> 'o send_packet_builder \<Rightarrow> ordering" where
  "SendPacketBuilder_cmp a b =
     (if spb_send_time a < spb_send_time b then Less
      else if spb_send_time a = spb_send_time b then Equal else Greater)"

definition SendPacketBuilder_eq :: "'o send_packet_builder \<Rightarrow> 'o send_packet_builder \<Rightarrow> bool" where
  "SendPacketBuilder_eq a b \<longleftrightarrow> spb_send_time a = spb_send_time b"

datatype msg_out = AtDeadline | SendPacket send_packet

definition MsgOut_send ::
  "('b, 'o) flatbuffers \<Rightarrow> 'b fb_pool \<Rightarrow> msg_out \<Rightarrow> unix_stream \<Rightarrow> 'b \<Rightarrow>
     ((unit, io_error) result \<times> unix_stream \<times> 'b \<times> 'b fb_pool) option" where
  "MsgOut_send F pool self writer scratch_builder =
     (case self of
        AtDeadline \<Rightarrow>
          let scratch_builder = create_at_deadline F scratch_builder in do {
            data \<leftarrow> fb_finished_data F scratch_builder;
            (r, writer) \<leftarrow> Some (write_all writer data);
            Some (r, writer, scratch_builder, pool)
          }
      | SendPacket sp \<Rightarrow> do {
          fbb \<leftarrow> Buffer_deref (FbBuffer F) pool (sp_inner sp);
          data \<leftarrow> fb_finished_data F fbb;
          (r, writer) \<leftarrow> Some (write_all writer data);
          pool \<leftarrow> Buffer_drop pool (sp_inner sp);
          Some (r, writer, scratch_builder, pool)
        })"

section \<open>The peer's side of the protocol\<close>

text \<open>
  \<open>MsgIn::send\<close> and \<open>MsgOut::recv\<close>, which the source compiles for its tests: the same messages,
  sent by the actor and received by it.
\<close>

definition MsgIn_send ::
  "('b, 'o) flatbuffers \<Rightarrow> bytes_pool \<Rightarrow> msg_in \<Rightarrow> unix_stream \<Rightarrow> 'b fb_pool \<Rightarrow>
     ((unit, io_error) result \<times> unix_stream \<times> bytes_pool \<times> 'b fb_pool) option" where
  "MsgIn_send F bpool self writer fb_buffer_pool = do {
     (a, fpool) \<leftarrow> BufferPool_allocate_buffer (FbBuffer F) fb_buffer_pool 1;
     fb_buffer \<leftarrow> unwrap a;
     b \<leftarrow> Buffer_deref (FbBuffer F) fpool fb_buffer;
     (b, bpool) \<leftarrow> (case self of
         GoToDeadline deadline \<Rightarrow> Some (create_goto_deadline F b deadline, bpool)
       | EndSimulation \<Rightarrow> Some (create_end_simulation F b, bpool)
       | DeliverPacket d \<Rightarrow> do {
           src \<leftarrow> DeliverPacket_src F bpool d;
           dst \<leftarrow> DeliverPacket_dst F bpool d;
           payload \<leftarrow> DeliverPacket_payload F bpool d;
           bpool \<leftarrow> Buffer_drop bpool (dp_inner d);
           Some (create_deliver_packet F b src dst payload, bpool)
         });
     fpool \<leftarrow> Buffer_deref_mut (FbBuffer F) fpool fb_buffer b;
     data \<leftarrow> fb_finished_data F b;
     (r, writer) \<leftarrow> Some (write_all writer data);
     fpool \<leftarrow> Buffer_drop fpool fb_buffer;
     Some (r, writer, bpool, fpool)
   }"

text \<open>The \<open>match\<close> of \<open>MsgOut::recv\<close> on the content, \<open>fb_buffer\<close> being the builder it rebuilds a packet in.\<close>

definition MsgOut_dispatch ::
  "('b, 'o) flatbuffers \<Rightarrow> 'b fb_pool \<Rightarrow> unit buffer \<Rightarrow> to_tansiv_msg \<Rightarrow>
     ((msg_out, io_error) result \<times> 'b fb_pool) option" where
  "MsgOut_dispatch F fpool fb_buffer msg =
     (case to_content_type msg of
        ToAtDeadline \<Rightarrow> do {
          fpool \<leftarrow> Buffer_drop fpool fb_buffer;
          Some (Ok AtDeadline, fpool)
        }
      | ToSendPacket \<Rightarrow>
          (case content_as_send_packet msg of
             Some (Some metadata, Some time, payload) \<Rightarrow> do {
               t \<leftarrow> duration_of_fb_time time;
               case t of
                 Inl e \<Rightarrow> do {
                   fpool \<leftarrow> Buffer_drop fpool fb_buffer;
                   Some (Err e, fpool)
                 }
               | Inr send_time \<Rightarrow> do {
                   p \<leftarrow> payload;
                   (spb, fpool) \<leftarrow> SendPacketBuilder_new F fpool (pm_src metadata) (pm_dst metadata)
                      send_time p fb_buffer;
                   (sp, fpool) \<leftarrow> SendPacketBuilder_finish F fpool spb send_time;
                   Some (Ok (SendPacket sp), fpool)
                 }
             }
           | _ \<Rightarrow> do {
               fpool \<leftarrow> Buffer_drop fpool fb_buffer;
               Some (Err new_format_error, fpool)
             })
      | _ \<Rightarrow> do {
          fpool \<leftarrow> Buffer_drop fpool fb_buffer;
          Some (Err (IoErr InvalidData ''Message content is missing''), fpool)
        })"

definition MsgOut_recv ::
  "('b, 'o) flatbuffers \<Rightarrow> unix_stream \<Rightarrow> bytes_pool \<Rightarrow> 'b fb_pool \<Rightarrow>
     ((msg_out, io_error) result \<times> unix_stream \<times> bytes_pool \<times> 'b fb_pool) option" where
  "MsgOut_recv F reader bpool fpool =
     (case read_prefixed_size F reader of
        (Inl e, reader) \<Rightarrow> Some (Err e, reader, bpool, fpool)
      | (Inr sz, reader) \<Rightarrow> do {
          (b, bpool) \<leftarrow> connector_allocate_buffer bpool sz;
          case b of
            Inl e \<Rightarrow> Some (Err e, reader, bpool, fpool)
          | Inr buffer \<Rightarrow>
              (case read_exact reader (bb_size (buf_inner buffer)) of
                 (got, Inl e, reader) \<Rightarrow> do {
                   old \<leftarrow> Buffer_deref BytesBuffer bpool buffer;
                   bpool \<leftarrow> Buffer_deref_mut BytesBuffer bpool buffer (got @ drop (length got) old);
                   bpool \<leftarrow> Buffer_drop bpool buffer;
                   Some (Err e, reader, bpool, fpool)
                 }
               | (got, Inr _, reader) \<Rightarrow> do {
                   bpool \<leftarrow> Buffer_deref_mut BytesBuffer bpool buffer got;
                   bs \<leftarrow> Buffer_deref BytesBuffer bpool buffer;
                   msg \<leftarrow> fb_root_to_tansiv F bs;
                   (a, fpool) \<leftarrow> BufferPool_allocate_buffer (FbBuffer F) fpool 0;
                   fb_buffer \<leftarrow> unwrap a;
                   (r, fpool) \<leftarrow> MsgOut_dispatch F fpool fb_buffer msg;
                   bpool \<leftarrow> Buffer_drop bpool buffer;
                   Some (r, reader, bpool, fpool)
                 })
        })"

section \<open>The stream\<close>

lemma read_exact_cases:
  obtains (full) "n \<le> length (rx s)" "read_exact s n = (take n (rx s), Ok (), s\<lparr>rx := drop n (rx s)\<rparr>)"
  | (eof) "length (rx s) < n"
      "read_exact s n = (rx s, Err (IoErr UnexpectedEof ''failed to fill whole buffer''), s\<lparr>rx := []\<rparr>)"
  by (cases "n \<le> length (rx s)") (simp_all add: read_exact_def)

lemma write_all_ok: "wr_faults s = [] \<Longrightarrow> write_all s bs = (Ok (), s\<lparr>tx := tx s @ bs\<rparr>)"
  by (simp add: write_all_def)

lemma write_all_Ok_tx:
  assumes "write_all s bs = (Ok (), s')"
  shows "tx s' = tx s @ bs" "rx s' = rx s"
  using assms by (auto simp: write_all_def split: list.splits option.splits)

section \<open>Receiving\<close>

text \<open>
  Buffers live before an operation stay live after it, with the same content.
\<close>

definition keeps_live :: "bytes_pool \<Rightarrow> bytes_pool \<Rightarrow> bool" where
  "keeps_live pool pool' \<longleftrightarrow> (\<forall>b. bytes_ib.live_buffer pool b \<longrightarrow>
     bytes_ib.live_buffer pool' b \<and> Buffer_deref BytesBuffer pool' b = Buffer_deref BytesBuffer pool b)"

text \<open>A received packet: its buffer is live and all three accessors are defined.\<close>

definition packet_ok :: "('b, 'o) flatbuffers \<Rightarrow> bytes_pool \<Rightarrow> deliver_packet \<Rightarrow> bool" where
  "packet_ok F pool d \<longleftrightarrow> bytes_ib.live_buffer pool (dp_inner d) \<and>
     (\<exists>m p. DeliverPacket_deserialize F pool d = Some (Some m, Some p))"

text \<open>
  What a receive leaves behind: the pool is well formed and keeps what was live, only a delivered
  packet holds a new buffer, and a success has consumed at least the length prefix.
\<close>

definition recv_post ::
  "('b, 'o) flatbuffers \<Rightarrow> unix_stream \<Rightarrow> bytes_pool \<Rightarrow>
     (msg_in, io_error) result \<Rightarrow> unix_stream \<Rightarrow> bytes_pool \<Rightarrow> bool" where
  "recv_post F s pool r s' pool' \<longleftrightarrow>
     bytes_ib.wf_pool pool' \<and> keeps_live pool pool' \<and>
     num_buffers_of pool' = num_buffers_of pool \<and> buffer_size pool' = buffer_size pool \<and>
     tx s' = tx s \<and> wr_faults s' = wr_faults s \<and>
     (case r of
        Inl _ \<Rightarrow> length (rx s') \<le> length (rx s) \<and> pool_busy pool' = pool_busy pool
      | Inr m \<Rightarrow> length (rx s') + 4 \<le> length (rx s) \<and>
          (case m of
             DeliverPacket d \<Rightarrow> buf_index (dp_inner d) \<notin> pool_busy pool \<and>
               pool_busy pool' = insert (buf_index (dp_inner d)) (pool_busy pool) \<and> packet_ok F pool' d
           | _ \<Rightarrow> pool_busy pool' = pool_busy pool))"

lemma keeps_live_refl [simp]: "keeps_live pool pool"
  by (simp add: keeps_live_def)

lemma keeps_live_trans: "keeps_live p q \<Longrightarrow> keeps_live q r \<Longrightarrow> keeps_live p r"
  by (simp add: keeps_live_def)

lemma duration_of_fb_time_defined: "\<exists>r. duration_of_fb_time time = Some r"
proof (cases "unat (tm_nseconds time) < 2 ^ 32 \<and> unat (tm_nseconds time) < 1000000000")
  case True
  then have "unat (ucast (tm_nseconds time) :: u32) < 10 ^ 9"
    by simp
  then obtain d where "Duration_new (tm_seconds time) (ucast (tm_nseconds time)) = Some d"
    using Duration_new_defined by blast
  with True show ?thesis by (simp add: duration_of_fb_time_def)
next
  case False
  then show ?thesis by (auto simp: duration_of_fb_time_def)
qed

lemma connector_allocate_cases:
  assumes "bytes_ib.wf_pool pool"
  obtains (ok) b pool' where "connector_allocate_buffer pool sz = Some (Ok b, pool')"
      "BufferPool_allocate_buffer BytesBuffer pool sz = Some (Ok b, pool')" "bb_size (buf_inner b) = sz"
  | (err) e where "connector_allocate_buffer pool sz = Some (Err e, pool)"
proof -
  obtain r pool' where r: "BufferPool_allocate_buffer BytesBuffer pool sz = Some (r, pool')"
    using bytes_ib.allocate_defined [OF assms] by blast
  show ?thesis
  proof (cases r)
    case (Inl e)
    then have "pool' = pool" using r
      by (cases e) (simp_all add: allocate_buffer_none allocate_buffer_too_big)
    with r Inl err show ?thesis
      by (cases e) (simp_all add: connector_allocate_buffer_def)
  next
    case (Inr b)
    with r have ok': "BufferPool_allocate_buffer BytesBuffer pool sz = Some (Ok b, pool')" by simp
    then obtain "buf_inner b = ib_new BytesBuffer (buf_index b) sz" by (rule allocate_buffer_Ok)
    then have "bb_size (buf_inner b) = sz" by (simp add: BytesBuffer_def BytesBuffer_new_def)
    with ok' ok show ?thesis by (simp add: connector_allocate_buffer_def)
  qed
qed

text \<open>The dispatch never panics; it keeps the buffer for a checked packet and drops it otherwise.\<close>

lemma dispatch_cases:
  assumes live: "bytes_ib.live_buffer pool buffer"
    and root: "Buffer_deref BytesBuffer pool buffer = Some bs" "fb_root_from_tansiv F bs = Some m"
  obtains (packet) mt p where
      "MsgIn_dispatch F pool buffer m = Some (Ok (DeliverPacket \<lparr>dp_inner = buffer\<rparr>), pool)"
      "content_as_deliver_packet m = Some (Some mt, Some p)"
  | (dropped) r pool' where "MsgIn_dispatch F pool buffer m = Some (r, pool')"
      "\<And>d. r \<noteq> Ok (DeliverPacket d)" "Buffer_drop pool buffer = Some pool'"
proof -
  obtain pool' where d: "Buffer_drop pool buffer = Some pool'"
    using Buffer_drop_Some [OF bytes_ib.live_buffer_bound [OF live]] by blast
  show ?thesis
  proof (cases "from_content_type m = FromDeliverPacket")
    case True
    then have e: "MsgIn_dispatch F pool buffer m = MsgIn_new_deliver_packet F pool buffer"
      by (simp add: MsgIn_dispatch_def)
    show ?thesis
    proof (cases "\<exists>mt p. content_as_deliver_packet m = Some (Some mt, Some p)")
      case True
      with packet e root show ?thesis by (auto simp: MsgIn_new_deliver_packet_def)
    next
      case False
      then have "MsgIn_new_deliver_packet F pool buffer = Some (Err new_format_error, pool')"
        using root d by (auto simp: MsgIn_new_deliver_packet_def split: option.split)
      with dropped [of "Err new_format_error" pool'] e d show ?thesis by simp
    qed
  next
    case False
    have "\<exists>r. MsgIn_dispatch F pool buffer m = Some (r, pool') \<and> (\<forall>d. r \<noteq> Ok (DeliverPacket d))"
    proof (cases "from_content_type m")
      case FromGotoDeadline
      show ?thesis
      proof (cases "\<exists>time. content_as_goto_deadline m = Some (Some time)")
        case True
        then obtain time r where "content_as_goto_deadline m = Some (Some time)"
          "duration_of_fb_time time = Some r" using duration_of_fb_time_defined by blast
        with FromGotoDeadline d show ?thesis
          by (cases r) (simp_all add: MsgIn_dispatch_def)
      next
        case False
        with FromGotoDeadline d show ?thesis
          by (auto simp: MsgIn_dispatch_def split: option.split)
      qed
    qed (use False d in \<open>simp_all add: MsgIn_dispatch_def\<close>)
    with dropped d show ?thesis by blast
  qed
qed

lemma alloc_drop_keeps:
  assumes wf: "bytes_ib.wf_pool pool"
    and alloc: "BufferPool_allocate_buffer BytesBuffer pool sz = Some (Ok b, pool1)"
    and wrt: "Buffer_deref_mut BytesBuffer pool1 b c = Some pool2" "bb_size (buf_inner b) = length c"
  shows "bytes_ib.wf_pool pool2" "keeps_live pool pool2" "bytes_ib.live_buffer pool2 b"
    "num_buffers_of pool2 = num_buffers_of pool" "buffer_size pool2 = buffer_size pool"
    "buf_index b \<notin> pool_busy pool" "pool_busy pool2 = insert (buf_index b) (pool_busy pool)"
    "Buffer_deref BytesBuffer pool2 b = Some c"
    and "Buffer_drop pool2 b = Some pool3 \<Longrightarrow> bytes_ib.wf_pool pool3 \<and> keeps_live pool pool3 \<and>
      pool_busy pool3 = pool_busy pool \<and> num_buffers_of pool3 = num_buffers_of pool \<and>
      buffer_size pool3 = buffer_size pool"
proof -
  note a = bytes_ib.allocate_safe [OF wf alloc]
  obtain p where p: "Buffer_deref_mut BytesBuffer pool1 b c = Some p" "bytes_ib.wf_pool p"
    "Buffer_deref BytesBuffer p b = Some c" "buffer_busy p = buffer_busy pool1"
    "buffer_size p = buffer_size pool1"
    "\<And>b'. bytes_ib.live_buffer pool1 b' \<Longrightarrow> buf_index b' \<noteq> buf_index b \<Longrightarrow>
       Buffer_deref BytesBuffer p b' = Buffer_deref BytesBuffer pool1 b'"
    using bytes_ib.write_safe [OF a(1,2), of c] wrt(2) by (auto simp: bytes_wf_content_def)
  have eq: "p = pool2" using p(1) wrt(1) by simp
  show "bytes_ib.wf_pool pool2" "num_buffers_of pool2 = num_buffers_of pool"
    "buffer_size pool2 = buffer_size pool" "Buffer_deref BytesBuffer pool2 b = Some c"
    using p a eq by simp_all
  show live2: "bytes_ib.live_buffer pool2 b"
    using a(2) p(4,5) eq by (simp add: bytes_ib.live_buffer_def)
  show fresh: "buf_index b \<notin> pool_busy pool" and busy2: "pool_busy pool2 = insert (buf_index b) (pool_busy pool)"
    using a p(4) eq by simp_all
  have ne: "buf_index b' \<noteq> buf_index b" if "bytes_ib.live_buffer pool b'" for b'
    using that fresh by (auto simp: bytes_ib.live_buffer_def)
  show keep: "keeps_live pool pool2"
    using a(7) p(4,5,6) ne eq by (simp add: keeps_live_def bytes_ib.live_buffer_def)
  assume d: "Buffer_drop pool2 b = Some pool3"
  then show "bytes_ib.wf_pool pool3 \<and> keeps_live pool pool3 \<and>
      pool_busy pool3 = pool_busy pool \<and> num_buffers_of pool3 = num_buffers_of pool \<and>
      buffer_size pool3 = buffer_size pool"
    using Buffer_dropD [OF d] Buffer_deref_drop [OF d, of BytesBuffer] busy2 fresh keep ne p(2,4,5) a(5,6) eq
    by (auto simp: keeps_live_def bytes_ib.live_buffer_def bytes_ib.wf_pool_def)
qed

lemma deref_mut_allocated:
  assumes wf: "bytes_ib.wf_pool pool"
    and alloc: "BufferPool_allocate_buffer BytesBuffer pool sz = Some (Ok b, pool1)"
    and len: "bb_size (buf_inner b) = length c"
  obtains pool2 where "Buffer_deref_mut BytesBuffer pool1 b c = Some pool2"
  using bytes_ib.write_safe [OF bytes_ib.allocate_safe(1,2) [OF wf alloc], of c] len
  by (auto simp: bytes_wf_content_def)

lemma drop_live:
  assumes "bytes_ib.live_buffer pool b"
  obtains pool' where "Buffer_drop pool b = Some pool'"
  using Buffer_drop_Some [OF bytes_ib.live_buffer_bound [OF assms]] by blast

text \<open>
  Receiving the body into an allocated buffer: the part of \<open>MsgIn::recv\<close> after the allocation,
  when the whole body is there.
\<close>

lemma recv_body:
  assumes wf: "bytes_ib.wf_pool pool"
    and alloc: "BufferPool_allocate_buffer BytesBuffer pool sz = Some (Ok b, pool1)" "bb_size (buf_inner b) = sz"
    and sz: "length got = sz" and s: "length (rx s') + 4 \<le> length (rx s)" "tx s' = tx s" "wr_faults s' = wr_faults s"
    and w: "Buffer_deref_mut BytesBuffer pool1 b got = Some pool2"
  shows "\<exists>r pool'. (case fb_root_from_tansiv F got of
      None \<Rightarrow> do { pool \<leftarrow> Buffer_drop pool2 b; Some (Err new_format_error, s', pool) }
    | Some msg \<Rightarrow> do { (r, pool) \<leftarrow> MsgIn_dispatch F pool2 b msg; Some (r, s', pool) }) = Some (r, s', pool') \<and>
      recv_post F s pool r s' pool'"
proof -
  note k = alloc_drop_keeps [OF wf alloc(1) w]
  have len: "bb_size (buf_inner b) = length got" using alloc(2) sz by simp
  obtain pool3 where d: "Buffer_drop pool2 b = Some pool3" by (rule drop_live [OF k(3) [OF len]])
  show ?thesis
  proof (cases "fb_root_from_tansiv F got")
    case None
    then show ?thesis using d k(9) [OF len d] s by (simp add: recv_post_def)
  next
    case (Some m)
    show ?thesis
    proof (cases rule: dispatch_cases [OF k(3) [OF len] k(8) [OF len] Some, case_names packet dropped])
      case (packet mt p)
      then have "packet_ok F pool2 \<lparr>dp_inner = b\<rparr>"
        using k(3,8) len Some by (simp add: packet_ok_def DeliverPacket_deserialize_def)
      with packet Some k len s show ?thesis by (simp add: recv_post_def)
    next
      case (dropped r pool')
      then have "pool' = pool3" using d by simp
      then have "recv_post F s pool r s' pool'"
        using k(9) [OF len d] dropped(2) s
        by (cases r) (auto simp: recv_post_def split: msg_in.split)
      with dropped Some show ?thesis by simp
    qed
  qed
qed

text \<open>
  \<open>MsgIn::recv\<close> never panics, whatever bytes the actor sends, and always leaves the pool as
  \<open>recv_post\<close> says.
\<close>

lemma MsgIn_recv_total:
  assumes wf: "bytes_ib.wf_pool pool"
  shows "\<exists>r s' pool'. MsgIn_recv F s pool = Some (r, s', pool') \<and> recv_post F s pool r s' pool'"
proof (cases rule: read_exact_cases [of 4 s, case_names full eof])
  case eof
  with wf show ?thesis by (simp add: MsgIn_recv_def MsgIn_recv_body_def read_prefixed_size_def recv_post_def)
next
  case full
  let ?sz = "unat (fb_read_u32 F (take 4 (rx s)))" and ?s1 = "s\<lparr>rx := drop 4 (rx s)\<rparr>"
  have sz: "read_prefixed_size F s = (Ok ?sz, ?s1)"
    using full by (simp add: read_prefixed_size_def)
  show ?thesis
  proof (cases rule: connector_allocate_cases [OF wf, of ?sz, case_names ok err])
    case (err e)
    with sz wf show ?thesis by (simp add: MsgIn_recv_def MsgIn_recv_body_def recv_post_def)
  next
    case (ok b pool1)
    note alloc = ok(2)
    show ?thesis
    proof (cases rule: read_exact_cases [of ?sz ?s1, case_names full eof])
      case (full)
      let ?got = "take ?sz (rx ?s1)" and ?s2 = "?s1\<lparr>rx := drop ?sz (rx ?s1)\<rparr>"
      obtain pool2 where w: "Buffer_deref_mut BytesBuffer pool1 b ?got = Some pool2"
        using deref_mut_allocated [OF wf alloc, of ?got] ok(3) full by auto
      have "bb_size (buf_inner b) = length ?got" using ok(3) full by simp
      note k = alloc_drop_keeps(8) [OF wf alloc w this]
      have "length ?got = ?sz" using full by simp
      then obtain r pool' where rp: "(case fb_root_from_tansiv F ?got of
          None \<Rightarrow> do { pool \<leftarrow> Buffer_drop pool2 b; Some (Err new_format_error, ?s2, pool) }
        | Some msg \<Rightarrow> do { (r, pool) \<leftarrow> MsgIn_dispatch F pool2 b msg; Some (r, ?s2, pool) }) = Some (r, ?s2, pool')"
          "recv_post F s pool r ?s2 pool'"
        using recv_body [OF wf alloc ok(3) _ _ _ _ w, of ?s2 s F] \<open>4 \<le> length (rx s)\<close> by auto
      have "MsgIn_recv F s pool = Some (r, ?s2, pool')"
        using sz ok full w k rp(1) by (cases "fb_root_from_tansiv F ?got") (simp_all add: MsgIn_recv_def MsgIn_recv_body_def)
      with rp(2) show ?thesis by blast
    next
      case eof
      let ?got = "rx ?s1"
      obtain old where old: "Buffer_deref BytesBuffer pool1 b = Some old" "length old = bb_size (buf_inner b)"
        using bytes_ib.deref_live [OF bytes_ib.allocate_safe(1,2) [OF wf alloc]]
        by (auto simp: bytes_wf_content_def)
      let ?c = "?got @ drop (length ?got) old"
      have len: "bb_size (buf_inner b) = length ?c" using old(2) eof ok(3) by simp
      obtain pool2 where w: "Buffer_deref_mut BytesBuffer pool1 b ?c = Some pool2"
        by (rule deref_mut_allocated [OF wf alloc len])
      note k = alloc_drop_keeps [OF wf alloc w len]
      obtain pool3 where d: "Buffer_drop pool2 b = Some pool3" by (rule drop_live [OF k(3)])
      show ?thesis using sz ok eof old w d k(9) [OF d] by (auto simp: MsgIn_recv_def MsgIn_recv_body_def recv_post_def)
    qed
  qed
qed

section \<open>Frames\<close>

text \<open>
  A frame is a body with its length before it in four little-endian bytes; \<open>to_frame\<close> and
  \<open>from_frame\<close> say which message of either direction the body decodes to.
\<close>

definition frame :: "bytes \<Rightarrow> bytes" where
  "frame body = le32 (word_of_nat (length body)) @ body"

definition to_frame :: "('b, 'o) flatbuffers \<Rightarrow> bytes \<Rightarrow> to_tansiv_msg \<Rightarrow> bool" where
  "to_frame F data m \<longleftrightarrow>
     (\<exists>body. data = frame body \<and> length body < 2 ^ 32 \<and> fb_root_to_tansiv F body = Some m)"

definition from_frame :: "('b, 'o) flatbuffers \<Rightarrow> bytes \<Rightarrow> from_tansiv_msg \<Rightarrow> bool" where
  "from_frame F data m \<longleftrightarrow>
     (\<exists>body. data = frame body \<and> length body < 2 ^ 32 \<and> fb_root_from_tansiv F body = Some m)"

definition at_deadline_msg :: to_tansiv_msg where
  "at_deadline_msg = \<lparr>to_content_type = ToAtDeadline, to_content = Some AtDeadlineT\<rparr>"

definition send_packet_msg :: "u32 \<Rightarrow> u32 \<Rightarrow> duration \<Rightarrow> bytes \<Rightarrow> to_tansiv_msg" where
  "send_packet_msg src dst t p = \<lparr>to_content_type = ToSendPacket,
     to_content = Some (SendPacketT (Some \<lparr>pm_src = src, pm_dst = dst\<rparr>) (Some (fb_time_of t)) (Some p))\<rparr>"

definition goto_deadline_msg :: "duration \<Rightarrow> from_tansiv_msg" where
  "goto_deadline_msg t = \<lparr>from_content_type = FromGotoDeadline,
     from_content = Some (GotoDeadlineT (Some (fb_time_of t)))\<rparr>"

definition end_simulation_msg :: from_tansiv_msg where
  "end_simulation_msg = \<lparr>from_content_type = FromEndSimulation, from_content = Some EndSimulationT\<rparr>"

definition deliver_packet_msg :: "u32 \<Rightarrow> u32 \<Rightarrow> bytes \<Rightarrow> from_tansiv_msg" where
  "deliver_packet_msg src dst p = \<lparr>from_content_type = FromDeliverPacket,
     from_content = Some (DeliverPacketT (Some \<lparr>pm_src = src, pm_dst = dst\<rparr>) (Some p))\<rparr>"

lemmas msg_defs = at_deadline_msg_def send_packet_msg_def goto_deadline_msg_def end_simulation_msg_def
  deliver_packet_msg_def

lemma to_frameI:
  assumes "fb_laws F V"
    and "fv_to_msg V b off = Some \<lparr>to_content_type = ty, to_content = Some t\<rparr>"
    and "to_payload_length t \<le> fb_payload_limit"
  shows "\<exists>data. fb_finished_data F (fb_finish_size_prefixed F b off) = Some data \<and>
    to_frame F data \<lparr>to_content_type = ty, to_content = Some t\<rparr>"
  using fb_finish_toD [OF assms] by (auto simp: to_frame_def frame_def)

lemma from_frameI:
  assumes "fb_laws F V"
    and "fv_from_msg V b off = Some \<lparr>from_content_type = ty, from_content = Some t\<rparr>"
    and "from_payload_length t \<le> fb_payload_limit"
  shows "\<exists>data. fb_finished_data F (fb_finish_size_prefixed F b off) = Some data \<and>
    from_frame F data \<lparr>from_content_type = ty, from_content = Some t\<rparr>"
  using fb_finish_fromD [OF assms] by (auto simp: from_frame_def frame_def)

lemma create_at_deadline_frame:
  assumes F: "fb_laws F V" and "fv_fresh V b"
  shows "\<exists>data. fb_finished_data F (create_at_deadline F b) = Some data \<and> to_frame F data at_deadline_msg"
proof -
  obtain b1 o1 where c1: "fb_create_at_deadline F b = (b1, o1)" by fastforce
  obtain b2 o2 where c2: "fb_create_to_tansiv_msg F b1 ToAtDeadline o1 = (b2, o2)" by fastforce
  note t = fb_at_deadlineD [OF F assms(2) c1]
  show ?thesis
    using to_frameI [OF F fb_to_msgD [OF F t c2]] c1 c2
    by (simp add: create_at_deadline_def at_deadline_msg_def)
qed

lemma create_goto_deadline_frame:
  assumes F: "fb_laws F V" and "fv_fresh V b"
  shows "\<exists>data. fb_finished_data F (create_goto_deadline F b d) = Some data \<and>
    from_frame F data (goto_deadline_msg d)"
proof -
  obtain b1 o1 where c1: "fb_create_goto_deadline F b (fb_time_of d) = (b1, o1)" by fastforce
  obtain b2 o2 where c2: "fb_create_from_tansiv_msg F b1 FromGotoDeadline o1 = (b2, o2)" by fastforce
  note t = fb_goto_deadlineD [OF F assms(2) c1]
  show ?thesis
    using from_frameI [OF F fb_from_msgD [OF F t c2]] c1 c2
    by (simp add: create_goto_deadline_def goto_deadline_msg_def)
qed

lemma create_end_simulation_frame:
  assumes F: "fb_laws F V" and "fv_fresh V b"
  shows "\<exists>data. fb_finished_data F (create_end_simulation F b) = Some data \<and>
    from_frame F data end_simulation_msg"
proof -
  obtain b1 o1 where c1: "fb_create_end_simulation F b = (b1, o1)" by fastforce
  obtain b2 o2 where c2: "fb_create_from_tansiv_msg F b1 FromEndSimulation o1 = (b2, o2)" by fastforce
  note t = fb_end_simulationD [OF F assms(2) c1]
  show ?thesis
    using from_frameI [OF F fb_from_msgD [OF F t c2]] c1 c2
    by (simp add: create_end_simulation_def end_simulation_msg_def)
qed

lemma create_deliver_packet_frame:
  assumes F: "fb_laws F V" and "fv_fresh V b" "length p \<le> fb_payload_limit"
  shows "\<exists>data. fb_finished_data F (create_deliver_packet F b src dst p) = Some data \<and>
    from_frame F data (deliver_packet_msg src dst p)"
proof -
  obtain b1 o1 where c1: "fb_create_vector F b p = (b1, o1)" by fastforce
  obtain b2 o2 where c2: "fb_create_deliver_packet F b1 \<lparr>pm_src = src, pm_dst = dst\<rparr> o1 = (b2, o2)"
    by fastforce
  obtain b3 o3 where c3: "fb_create_from_tansiv_msg F b2 FromDeliverPacket o2 = (b3, o3)" by fastforce
  note t = fb_deliver_packetD [OF F fb_vectorD [OF F assms(2) c1] c2]
  show ?thesis
    using from_frameI [OF F fb_from_msgD [OF F t c3]] c1 c2 c3 assms(3)
    by (simp add: create_deliver_packet_def prepare_deliver_packet_def deliver_packet_msg_def)
qed

section \<open>Sending a packet\<close>

text \<open>
  A partially built message: its builder is live and holds the payload at the recorded offset.
\<close>

definition builder_ok ::
  "('b, 'o) flatbuffers \<Rightarrow> ('b, 'o) fb_view \<Rightarrow> 'b fb_pool \<Rightarrow> 'o send_packet_builder \<Rightarrow> bytes \<Rightarrow> bool" where
  "builder_ok F V pool spb p \<longleftrightarrow>
     fb_ib.live_buffer pool (spb_payload spb) \<and> length p \<le> fb_payload_limit \<and>
     (\<exists>b. Buffer_deref (FbBuffer F) pool (spb_payload spb) = Some b \<and>
        fv_vector V b (spb_payload_offset spb) = Some p)"

text \<open>Builders live in both pools and different from \<open>b\<close> are untouched.\<close>

definition same_except :: "('b, 'o) flatbuffers \<Rightarrow> nat \<Rightarrow> 'b fb_pool \<Rightarrow> 'b fb_pool \<Rightarrow> bool" where
  "same_except F i pool pool' \<longleftrightarrow>
     fb_ib.wf_pool pool' \<and> num_buffers_of pool' = num_buffers_of pool \<and> buffer_size pool' = buffer_size pool \<and>
     (\<forall>b. buf_index b \<in> pool_busy pool \<and> buf_index b \<noteq> i \<longrightarrow>
        Buffer_deref (FbBuffer F) pool' b = Buffer_deref (FbBuffer F) pool b)"

lemma fb_write:
  assumes "fb_ib.wf_pool pool" "buf_index b \<in> pool_busy pool"
  obtains pool' where "Buffer_deref_mut (FbBuffer F) pool b c = Some pool'"
    "Buffer_deref (FbBuffer F) pool' b = Some c" "buffer_busy pool' = buffer_busy pool"
    "same_except F (buf_index b) pool pool'"
proof -
  have "fb_ib.live_buffer pool b" using assms(2) by (simp add: fb_ib.live_buffer_def)
  then obtain pool' where "Buffer_deref_mut (FbBuffer F) pool b c = Some pool'" "fb_ib.wf_pool pool'"
    "Buffer_deref (FbBuffer F) pool' b = Some c" "buffer_busy pool' = buffer_busy pool"
    "buffer_size pool' = buffer_size pool"
    "\<And>b'. fb_ib.live_buffer pool b' \<Longrightarrow> buf_index b' \<noteq> buf_index b \<Longrightarrow>
       Buffer_deref (FbBuffer F) pool' b' = Buffer_deref (FbBuffer F) pool b'"
    unfolding FbBuffer_def
    using fb_ib.write_safe [OF assms(1), where b = b and c = c and F = F and initializer = "MsgFbInitializer_init F"]
    by blast
  with that show ?thesis by (simp add: same_except_def fb_ib.live_buffer_def)
qed

lemma same_except_trans:
  assumes "same_except F i p q" "same_except F i q r" "pool_busy p \<subseteq> insert i (pool_busy q)"
  shows "same_except F i p r"
  using assms by (auto simp: same_except_def)

lemma same_except_drop:
  assumes "fb_ib.wf_pool pool" "Buffer_drop pool b = Some pool'"
  shows "same_except F (buf_index b) pool pool'"
  using assms Buffer_dropD [OF assms(2)]
  by (simp add: same_except_def fb_ib.wf_pool_def Buffer_deref_drop [OF assms(2)])

lemma fb_allocate:
  assumes wf: "fb_ib.wf_pool pool"
    and alloc: "BufferPool_allocate_buffer (FbBuffer F) pool sz = Some (Ok b, pool')"
  shows "fb_ib.wf_pool pool'" "buf_index b \<notin> pool_busy pool"
    "pool_busy pool' = insert (buf_index b) (pool_busy pool)"
    "same_except F (buf_index b) pool pool'"
    "fb_laws F V \<Longrightarrow> \<exists>c. Buffer_deref (FbBuffer F) pool' b = Some c \<and> fv_fresh V c"
proof -
  note a = fb_ib.allocate_safe [OF wf alloc [unfolded FbBuffer_def], folded FbBuffer_def]
  show "fb_ib.wf_pool pool'" "buf_index b \<notin> pool_busy pool"
    "pool_busy pool' = insert (buf_index b) (pool_busy pool)" by (fact a)+
  show "same_except F (buf_index b) pool pool'"
    using a by (auto simp: same_except_def fb_ib.live_buffer_def)
  show "\<exists>c. Buffer_deref (FbBuffer F) pool' b = Some c \<and> fv_fresh V c" if "fb_laws F V"
    using allocate_fb_reset [OF wf alloc [unfolded FbBuffer_def], folded FbBuffer_def] fb_resetD [OF that]
    by auto
qed

lemma SendPacketBuilder_new_ok:
  assumes F: "fb_laws F V" and wf: "fb_ib.wf_pool pool" and busy: "buf_index buf \<in> pool_busy pool"
    and b: "Buffer_deref (FbBuffer F) pool buf = Some b" "fv_fresh V b" and p: "length p \<le> fb_payload_limit"
  obtains off pool' where
    "SendPacketBuilder_new F pool src dst t p buf = Some (\<lparr>spb_src = src, spb_dst = dst,
       spb_send_time = t, spb_payload = buf, spb_payload_offset = off\<rparr>, pool')"
    "buffer_busy pool' = buffer_busy pool" "same_except F (buf_index buf) pool pool'"
    "builder_ok F V pool' \<lparr>spb_src = src, spb_dst = dst,
       spb_send_time = t, spb_payload = buf, spb_payload_offset = off\<rparr> p"
proof -
  obtain b' off where v: "fb_create_vector F b p = (b', off)" by fastforce
  obtain pool' where "Buffer_deref_mut (FbBuffer F) pool buf b' = Some pool'"
    "Buffer_deref (FbBuffer F) pool' buf = Some b'" "buffer_busy pool' = buffer_busy pool"
    "same_except F (buf_index buf) pool pool'"
    by (rule fb_write [OF wf busy])
  then show ?thesis
    using b(1) v fb_vectorD [OF F b(2) v] p busy
    by (intro that [of off pool']) (simp_all add: SendPacketBuilder_new_def builder_ok_def fb_ib.live_buffer_def)
qed

text \<open>
  Finishing a partially built message makes it a frame that decodes to exactly the packet: source,
  destination, payload and the send time given to \<open>finish\<close>.
\<close>

lemma SendPacketBuilder_finish_ok:
  assumes F: "fb_laws F V" and wf: "fb_ib.wf_pool pool" and ok: "builder_ok F V pool spb p"
  obtains pool' b data where
    "SendPacketBuilder_finish F pool spb t = Some (\<lparr>sp_inner = spb_payload spb\<rparr>, pool')"
    "buffer_busy pool' = buffer_busy pool" "same_except F (buf_index (spb_payload spb)) pool pool'"
    "Buffer_deref (FbBuffer F) pool' (spb_payload spb) = Some b" "fb_finished_data F b = Some data"
    "to_frame F data (send_packet_msg (spb_src spb) (spb_dst spb) t p)"
proof -
  from ok obtain b0 where b0: "Buffer_deref (FbBuffer F) pool (spb_payload spb) = Some b0"
    "fv_vector V b0 (spb_payload_offset spb) = Some p" and p: "length p \<le> fb_payload_limit"
    and busy: "buf_index (spb_payload spb) \<in> pool_busy pool"
    by (auto simp: builder_ok_def fb_ib.live_buffer_def)
  let ?m = "\<lparr>pm_src = spb_src spb, pm_dst = spb_dst spb\<rparr>"
  obtain b1 o1 where c1: "fb_create_send_packet F b0 ?m (fb_time_of t) (spb_payload_offset spb) = (b1, o1)"
    by fastforce
  obtain b2 o2 where c2: "fb_create_to_tansiv_msg F b1 ToSendPacket o1 = (b2, o2)" by fastforce
  let ?b = "fb_finish_size_prefixed F b2 o2"
  note t = fb_send_packetD [OF F b0(2) c1]
  obtain data where data: "fb_finished_data F ?b = Some data"
    "to_frame F data (send_packet_msg (spb_src spb) (spb_dst spb) t p)"
    using to_frameI [OF F fb_to_msgD [OF F t c2]] p by (auto simp: send_packet_msg_def)
  obtain pool' where "Buffer_deref_mut (FbBuffer F) pool (spb_payload spb) ?b = Some pool'"
    "Buffer_deref (FbBuffer F) pool' (spb_payload spb) = Some ?b" "buffer_busy pool' = buffer_busy pool"
    "same_except F (buf_index (spb_payload spb)) pool pool'"
    by (rule fb_write [OF wf busy])
  then show ?thesis
    using data b0 c1 c2 by (intro that [of pool' ?b data]) (simp_all add: SendPacketBuilder_finish_def)
qed

lemma MsgOut_send_packet:
  assumes "Buffer_deref (FbBuffer F) pool (sp_inner sp) = Some b" "fb_finished_data F b = Some data"
    and "buf_index (sp_inner sp) \<in> pool_busy pool" and "write_all w data = (r, w')"
  obtains pool' where "MsgOut_send F pool (SendPacket sp) w scr = Some (r, w', scr, pool')"
    "Buffer_drop pool (sp_inner sp) = Some pool'"
  using assms Buffer_drop_Some [OF busy_set_bound [OF assms(3)]] that
  by (simp add: MsgOut_send_def)

section \<open>Round trips\<close>

lemma duration_of_fb_time_of [simp]: "duration_of_fb_time (fb_time_of d) = Some (Ok d)"
proof -
  have n: "unat (subsec_nanos d) < 10 ^ 9" by (simp add: unat_subsec_nanos)
  have "(ucast (ucast (subsec_nanos d) :: u64) :: u32) = subsec_nanos d"
    by (rule word_unat_eq_iff [THEN iffD2]) (use n in simp)
  then show ?thesis using n by (simp add: duration_of_fb_time_def fb_time_of_def Duration_new_parts)
qed

text \<open>A frame at the head of the stream is received as its body, in a buffer of exactly its length.\<close>

lemma MsgIn_recv_frame:
  assumes F: "fb_laws F V" and wf: "bytes_ib.wf_pool pool" and room: "card (pool_busy pool) < num_buffers_of pool"
    and fr: "from_frame F data m" "length data \<le> buffer_size pool + 4" and s: "rx s = data @ rest"
  obtains b body pool1 pool2 where
    "BufferPool_allocate_buffer BytesBuffer pool (length body) = Some (Ok b, pool1)"
    "Buffer_deref_mut BytesBuffer pool1 b body = Some pool2" "bb_size (buf_inner b) = length body"
    "fb_root_from_tansiv F body = Some m"
    "MsgIn_recv F s pool = do { (r, pool) \<leftarrow> MsgIn_dispatch F pool2 b m; Some (r, s\<lparr>rx := rest\<rparr>, pool) }"
proof -
  obtain body where body: "data = frame body" "length body < 2 ^ 32" "fb_root_from_tansiv F body = Some m"
    using fr(1) by (auto simp: from_frame_def)
  have pre: "read_prefixed_size F s = (Ok (length body), s\<lparr>rx := body @ rest\<rparr>)"
    using s body fb_read_u32D [OF F]
    by (simp add: read_prefixed_size_def read_exact_def frame_def unat_of_nat)
  have "\<exists>b p. BufferPool_allocate_buffer BytesBuffer pool (length body) = Some (Ok b, p)"
    using bytes_ib.allocate_Ok_iff [OF wf] room fr(2) body(1) by (simp add: frame_def)
  then obtain b pool1 where alloc: "BufferPool_allocate_buffer BytesBuffer pool (length body) = Some (Ok b, pool1)"
    and sz: "bb_size (buf_inner b) = length body"
    and ca: "connector_allocate_buffer pool (length body) = Some (Ok b, pool1)"
    by (cases rule: connector_allocate_cases [OF wf, of "length body"]) (auto simp: connector_allocate_buffer_def)
  obtain pool2 where w: "Buffer_deref_mut BytesBuffer pool1 b body = Some pool2"
    by (rule deref_mut_allocated [OF wf alloc sz])
  have "MsgIn_recv F s pool = do { (r, pool) \<leftarrow> MsgIn_dispatch F pool2 b m; Some (r, s\<lparr>rx := rest\<rparr>, pool) }"
    using pre ca sz w body(3) alloc_drop_keeps(8) [OF wf alloc w sz]
    by (simp add: MsgIn_recv_def MsgIn_recv_body_def read_exact_def)
  with alloc w sz body(3) show ?thesis by (rule that)
qed

lemma dispatch_deliver:
  assumes "Buffer_deref BytesBuffer pool b = Some bs" "fb_root_from_tansiv F bs = Some (deliver_packet_msg src dst p)"
  shows "MsgIn_dispatch F pool b (deliver_packet_msg src dst p) = Some (Ok (DeliverPacket \<lparr>dp_inner = b\<rparr>), pool)"
    and "DeliverPacket_deserialize F pool \<lparr>dp_inner = b\<rparr> = Some (Some \<lparr>pm_src = src, pm_dst = dst\<rparr>, Some p)"
  using assms
  by (simp_all add: MsgIn_dispatch_def MsgIn_new_deliver_packet_def DeliverPacket_deserialize_def
      deliver_packet_msg_def content_as_deliver_packet_def)

lemma recv_deliver_packet:
  assumes "fb_laws F V" "bytes_ib.wf_pool pool" "card (pool_busy pool) < num_buffers_of pool"
    and "from_frame F data (deliver_packet_msg src dst p)" "length data \<le> buffer_size pool + 4" "rx s = data @ rest"
  obtains b pool' where "MsgIn_recv F s pool = Some (Ok (DeliverPacket \<lparr>dp_inner = b\<rparr>), s\<lparr>rx := rest\<rparr>, pool')"
    "DeliverPacket_deserialize F pool' \<lparr>dp_inner = b\<rparr> = Some (Some \<lparr>pm_src = src, pm_dst = dst\<rparr>, Some p)"
proof (rule MsgIn_recv_frame [OF assms])
  fix b body pool1 pool2
  assume r: "BufferPool_allocate_buffer BytesBuffer pool (length body) = Some (Ok b, pool1)"
    "Buffer_deref_mut BytesBuffer pool1 b body = Some pool2" "bb_size (buf_inner b) = length body"
    "fb_root_from_tansiv F body = Some (deliver_packet_msg src dst p)"
    "MsgIn_recv F s pool = do { (r, pool) \<leftarrow> MsgIn_dispatch F pool2 b (deliver_packet_msg src dst p);
       Some (r, s\<lparr>rx := rest\<rparr>, pool) }"
  note d = dispatch_deliver [OF alloc_drop_keeps(8) [OF assms(2) r(1,2,3)] r(4)]
  show ?thesis using r(5) d by (intro that [of b pool2]) simp_all
qed

lemma recv_control:
  assumes "fb_laws F V" "bytes_ib.wf_pool pool" "card (pool_busy pool) < num_buffers_of pool"
    and "from_frame F data m" "length data \<le> buffer_size pool + 4" "rx s = data @ rest"
    and m: "m = goto_deadline_msg d \<and> x = GoToDeadline d \<or> m = end_simulation_msg \<and> x = EndSimulation"
  obtains pool' where "MsgIn_recv F s pool = Some (Ok x, s\<lparr>rx := rest\<rparr>, pool')"
proof (rule MsgIn_recv_frame [OF assms(1-6)])
  fix b body pool1 pool2
  assume r: "BufferPool_allocate_buffer BytesBuffer pool (length body) = Some (Ok b, pool1)"
    "Buffer_deref_mut BytesBuffer pool1 b body = Some pool2" "bb_size (buf_inner b) = length body"
    "fb_root_from_tansiv F body = Some m"
    "MsgIn_recv F s pool = do { (r, pool) \<leftarrow> MsgIn_dispatch F pool2 b m; Some (r, s\<lparr>rx := rest\<rparr>, pool) }"
  obtain pool3 where "Buffer_drop pool2 b = Some pool3"
    by (rule drop_live [OF alloc_drop_keeps(3) [OF assms(2) r(1,2,3)]])
  with m have "MsgIn_dispatch F pool2 b m = Some (Ok x, pool3)"
    by (auto simp: MsgIn_dispatch_def goto_deadline_msg_def end_simulation_msg_def content_as_goto_deadline_def)
  with r(5) that show ?thesis by simp
qed

text \<open>With every buffer in use not even a control message can be received.\<close>

lemma recv_no_buffer:
  assumes "fb_laws F V" "pool_busy pool = {..<num_buffers_of pool}"
    and "from_frame F data m" "length data \<le> buffer_size pool + 4" "rx s = data @ rest"
  obtains s' where "MsgIn_recv F s pool = Some (Err (IoErr OtherKind ''No buffer available''), s', pool)"
proof -
  obtain body where body: "data = frame body" "length body < 2 ^ 32" using assms(3) by (auto simp: from_frame_def)
  have pre: "read_prefixed_size F s = (Ok (length body), s\<lparr>rx := body @ rest\<rparr>)"
    using assms(5) body fb_read_u32D [OF assms(1)]
    by (simp add: read_prefixed_size_def read_exact_def frame_def unat_of_nat)
  have "length body \<le> buffer_size pool" using assms(4) body by (simp add: frame_def)
  then have "BufferPool_allocate_buffer BytesBuffer pool (length body) = Some (Err NoBufferAvailable, pool)"
    using assms(2) by (simp add: allocate_buffer_none)
  then have "connector_allocate_buffer pool (length body) = Some (Err (IoErr OtherKind ''No buffer available''), pool)"
    by (simp add: connector_allocate_buffer_def)
  with pre that show ?thesis by (simp add: MsgIn_recv_def)
qed

text \<open>Nor can a message that is longer than a buffer.\<close>

lemma recv_oversized:
  assumes "fb_laws F V" "from_frame F data m" "buffer_size pool + 4 < length data" "rx s = data @ rest"
  obtains s' where "MsgIn_recv F s pool = Some (Err (IoErr InvalidData ''Packet size too big''), s', pool)"
proof -
  obtain body where body: "data = frame body" "length body < 2 ^ 32" using assms(2) by (auto simp: from_frame_def)
  have pre: "read_prefixed_size F s = (Ok (length body), s\<lparr>rx := body @ rest\<rparr>)"
    using assms(4) body fb_read_u32D [OF assms(1)]
    by (simp add: read_prefixed_size_def read_exact_def frame_def unat_of_nat)
  have "buffer_size pool < length body" using assms(3) body by (simp add: frame_def)
  then have "BufferPool_allocate_buffer BytesBuffer pool (length body) = Some (Err BufferSizeTooBig, pool)"
    by (simp add: allocate_buffer_too_big)
  then have "connector_allocate_buffer pool (length body) = Some (Err (IoErr InvalidData ''Packet size too big''), pool)"
    by (simp add: connector_allocate_buffer_def)
  with pre that show ?thesis by (simp add: MsgIn_recv_def)
qed

end
