(* ===== verification/Unix_Connector.thy ===== *)
theory Unix_Connector
  imports Connector
begin

text \<open>
  The connector of \<open>connector/unix.rs\<close>: the socket to the actor, the pool received messages are
  stored in, and the builder \<open>AtDeadline\<close> is written with. \<open>UnixStream::connect\<close> is the
  operating system's; its result is an argument of \<open>UnixConnector_new\<close>.

  The locale \<open>actor_connection\<close> is what the client context relies on of the trait \<open>Connector\<close>;
  the interpretation \<open>unix\<close> discharges it for \<open>UnixConnector\<close>.
\<close>

definition MAX_PACKET_SIZE :: usize where
  "MAX_PACKET_SIZE = 2048"

text \<open>The parsed command line of \<open>config.rs\<close>; \<open>num_buffers\<close> is a \<open>NonZeroUsize\<close>.\<close>

record 't config =
  actor_socket :: string
  cfg_address :: in_addr_t
  cfg_time_offset :: 't
  num_buffers :: usize

record 'b unix_connector =
  actor :: unix_stream
  input_buffer_pool :: bytes_pool
  scratch_builder :: 'b

definition UnixConnector_new ::
  "('b, 'o) flatbuffers \<Rightarrow> (string \<Rightarrow> (unix_stream, io_error) result) \<Rightarrow> 't config \<Rightarrow>
     ('b unix_connector, io_error) result option" where
  "UnixConnector_new F connect cfg =
     (case connect (actor_socket cfg) of
        Inl e \<Rightarrow> Some (Err e)
      | Inr actor_stream \<Rightarrow> do {
          pool \<leftarrow> BufferPool_new BytesBuffer MAX_PACKET_SIZE (num_buffers cfg);
          Some (Ok \<lparr>actor = actor_stream, input_buffer_pool = pool,
                    scratch_builder = MsgFbInitializer_init F MAX_PACKET_SIZE\<rparr>)
        })"

definition UnixConnector_recv ::
  "('b, 'o) flatbuffers \<Rightarrow> 'b unix_connector \<Rightarrow> ((msg_in, io_error) result \<times> 'b unix_connector) option" where
  "UnixConnector_recv F self = do {
     (r, stream, pool) \<leftarrow> MsgIn_recv F (actor self) (input_buffer_pool self);
     Some (r, self\<lparr>actor := stream, input_buffer_pool := pool\<rparr>)
   }"

definition UnixConnector_send ::
  "('b, 'o) flatbuffers \<Rightarrow> 'b fb_pool \<Rightarrow> 'b unix_connector \<Rightarrow> msg_out \<Rightarrow>
     ((unit, io_error) result \<times> 'b unix_connector \<times> 'b fb_pool) option" where
  "UnixConnector_send F pool self m = do {
     (r, stream, builder, pool) \<leftarrow> MsgOut_send F pool m (actor self) (fb_reset F (scratch_builder self));
     Some (r, self\<lparr>actor := stream, scratch_builder := builder\<rparr>, pool)
   }"

section \<open>Progress\<close>

text \<open>Every message received takes bytes off the stream, whatever the state of the pool.\<close>

lemma read_exact_rx:
  assumes "read_exact s n = (got, r, s')"
  shows "length (rx s') = length (rx s) - n" "r = Ok () \<Longrightarrow> n \<le> length (rx s)"
  using assms by (auto simp: read_exact_def split: if_splits)

lemma MsgIn_recv_progress:
  assumes "MsgIn_recv F s pool = Some (Ok m, s', pool')"
  shows "length (rx s') < length (rx s)"
proof -
  obtain got r s1 where r1: "read_exact s 4 = (got, r, s1)" by (metis surj_pair)
  from assms r1 have ok: "r = Ok ()" by (cases r) (simp_all add: MsgIn_recv_def read_prefixed_size_def)
  have lt: "length (rx s1) < length (rx s)" using read_exact_rx [OF r1] ok by simp
  have recv: "MsgIn_recv F s pool = do {
      (x, p1) \<leftarrow> connector_allocate_buffer pool (unat (fb_read_u32 F got));
      case x of Inl e \<Rightarrow> Some (Err e, s1, p1) | Inr b \<Rightarrow>
        MsgIn_recv_body F s1 p1 b }"
    using r1 ok by (simp add: MsgIn_recv_def read_prefixed_size_def)
  obtain x p1 where a: "connector_allocate_buffer pool (unat (fb_read_u32 F got)) = Some (x, p1)"
    using assms recv by (cases "connector_allocate_buffer pool (unat (fb_read_u32 F got))") auto
  obtain b where b: "x = Ok b" using recv assms a by (cases x) simp_all
  have t: "MsgIn_recv_body F s1 p1 b = Some (Ok m, s', pool')" using recv assms a b by simp
  obtain got2 r2 s2 where r2: "read_exact s1 (bb_size (buf_inner b)) = (got2, r2, s2)" by (metis surj_pair)
  have "s' = s2"
    using t r2
    by (cases r2) (auto simp: MsgIn_recv_body_def bind_eq_Some_conv split: option.splits)
  then show ?thesis using lt read_exact_rx(1) [OF r2] by simp
qed

lemma UnixConnector_recv_progress:
  assumes "UnixConnector_recv F c = Some (Ok m, c')"
  shows "length (rx (actor c')) < length (rx (actor c))"
  using assms by (auto simp: UnixConnector_recv_def bind_eq_Some_conv dest: MsgIn_recv_progress)

section \<open>The interface of the trait Connector\<close>

text \<open>
  \<open>held\<close> are the input buffers owned by packets handed out, \<open>remaining\<close> bounds the messages still
  to come, and \<open>packet\<close> says that a packet's accessors are defined on the connection's buffers.
\<close>

locale actor_connection =
  fixes recv :: "'c \<Rightarrow> ((msg_in, io_error) result \<times> 'c) option"
    and ok :: "'c \<Rightarrow> bool"
    and remaining :: "'c \<Rightarrow> nat"
    and held :: "'c \<Rightarrow> nat set"
    and packet :: "'c \<Rightarrow> deliver_packet \<Rightarrow> bool"
  assumes recv_defined: "ok c \<Longrightarrow> \<exists>r c'. recv c = Some (r, c') \<and> ok c'"
    and recv_progress: "recv c = Some (Ok m, c') \<Longrightarrow> remaining c' < remaining c"
    and recv_packet: "ok c \<Longrightarrow> recv c = Some (Ok (DeliverPacket d), c') \<Longrightarrow>
      buf_index (dp_inner d) \<notin> held c \<and> held c' = insert (buf_index (dp_inner d)) (held c) \<and> packet c' d"
    and recv_other: "ok c \<Longrightarrow> recv c = Some (r, c') \<Longrightarrow> (\<forall>d. r \<noteq> Ok (DeliverPacket d)) \<Longrightarrow> held c' = held c"
    and recv_keeps: "ok c \<Longrightarrow> recv c = Some (r, c') \<Longrightarrow> packet c d \<Longrightarrow> packet c' d"
begin

text \<open>The packets received before the first message of another kind or error, at most \<open>k\<close>.\<close>

fun recv_packets :: "nat \<Rightarrow> 'c \<Rightarrow> (deliver_packet list \<times> 'c) option" where
  "recv_packets 0 c = Some ([], c)"
| "recv_packets (Suc k) c =
     (case recv c of
        None \<Rightarrow> None
      | Some (Inr (DeliverPacket d), c') \<Rightarrow> map_option (\<lambda>(ds, c''). (d # ds, c'')) (recv_packets k c')
      | Some (_, c') \<Rightarrow> Some ([], c'))"

text \<open>
  A burst of packets is received without panic, in buffers of their own, all of them readable at
  the end, and nothing else is held.
\<close>

lemma recv_packets_own:
  assumes "ok c" "\<forall>d \<in> D. packet c d"
  shows "\<exists>ds c'. recv_packets k c = Some (ds, c') \<and> ok c' \<and> distinct (map (buf_index \<circ> dp_inner) ds) \<and>
    (buf_index \<circ> dp_inner) ` set ds \<inter> held c = {} \<and> held c' = held c \<union> (buf_index \<circ> dp_inner) ` set ds \<and>
    (\<forall>d \<in> D \<union> set ds. packet c' d)"
  using assms
proof (induction k arbitrary: c D)
  case 0
  then show ?case by simp
next
  case (Suc k)
  obtain r c1 where r: "recv c = Some (r, c1)" "ok c1" using recv_defined [OF Suc.prems(1)] by blast
  show ?case
  proof (cases "\<exists>d. r = Ok (DeliverPacket d)")
    case True
    then obtain d where d: "recv c = Some (Ok (DeliverPacket d), c1)" using r by blast
    note p = recv_packet [OF Suc.prems(1) d]
    have "\<forall>x \<in> insert d D. packet c1 x"
      using p recv_keeps [OF Suc.prems(1) d] Suc.prems(2) by auto
    from Suc.IH [OF r(2) this] obtain ds c' where ih: "recv_packets k c1 = Some (ds, c') \<and> ok c' \<and>
      distinct (map (buf_index \<circ> dp_inner) ds) \<and> (buf_index \<circ> dp_inner) ` set ds \<inter> held c1 = {} \<and>
      held c' = held c1 \<union> (buf_index \<circ> dp_inner) ` set ds \<and> (\<forall>x \<in> insert d D \<union> set ds. packet c' x)"
      by (elim exE) (rule that)
    have "recv_packets (Suc k) c = Some (d # ds, c')" using d ih by simp
    moreover have "distinct (map (buf_index \<circ> dp_inner) (d # ds))"
      "(buf_index \<circ> dp_inner) ` set (d # ds) \<inter> held c = {}"
      using ih p by auto
    moreover have "held c' = held c \<union> (buf_index \<circ> dp_inner) ` set (d # ds)" using ih p by simp
    moreover have "\<forall>x \<in> D \<union> set (d # ds). packet c' x" using ih by simp
    ultimately show ?thesis using ih by blast
  next
    case False
    then have "recv_packets (Suc k) c = Some ([], c1)"
      using r(1) by (auto split: sum.split msg_in.split)
    with False r recv_other [OF Suc.prems(1) r(1)] recv_keeps [OF Suc.prems(1) r(1)] Suc.prems(2)
    show ?thesis by auto
  qed
qed

end

definition connector_ok :: "'b unix_connector \<Rightarrow> bool" where
  "connector_ok c \<longleftrightarrow> bytes_ib.wf_pool (input_buffer_pool c)"

abbreviation held_buffers :: "'b unix_connector \<Rightarrow> nat set" where
  "held_buffers c \<equiv> pool_busy (input_buffer_pool c)"

abbreviation stream_remaining :: "'b unix_connector \<Rightarrow> nat" where
  "stream_remaining c \<equiv> length (rx (actor c))"

abbreviation packet_held :: "('b, 'o) flatbuffers \<Rightarrow> 'b unix_connector \<Rightarrow> deliver_packet \<Rightarrow> bool" where
  "packet_held F c d \<equiv> packet_ok F (input_buffer_pool c) d"

lemma packet_ok_keeps:
  assumes "keeps_live pool pool'" "packet_ok F pool d"
  shows "packet_ok F pool' d"
  using assms by (simp add: packet_ok_def keeps_live_def DeliverPacket_deserialize_def)

lemma UnixConnector_recv_post:
  assumes "connector_ok c"
  obtains r s' pool' where
    "UnixConnector_recv F c = Some (r, c\<lparr>actor := s', input_buffer_pool := pool'\<rparr>)"
    "recv_post F (actor c) (input_buffer_pool c) r s' pool'"
  using MsgIn_recv_total [of "input_buffer_pool c" F "actor c"] assms that
  by (auto simp: connector_ok_def UnixConnector_recv_def)

lemma UnixConnector_recvD:
  assumes "connector_ok c" "UnixConnector_recv F c = Some (r, c')"
  shows "recv_post F (actor c) (input_buffer_pool c) r (actor c') (input_buffer_pool c')"
proof -
  obtain r1 s1 p1 where p: "UnixConnector_recv F c = Some (r1, c\<lparr>actor := s1, input_buffer_pool := p1\<rparr>)"
    "recv_post F (actor c) (input_buffer_pool c) r1 s1 p1"
    by (rule UnixConnector_recv_post [OF assms(1)])
  then have "r = r1" "c' = c\<lparr>actor := s1, input_buffer_pool := p1\<rparr>" using assms(2) by simp_all
  with p(2) show ?thesis by simp
qed

interpretation unix: actor_connection "UnixConnector_recv F" connector_ok stream_remaining held_buffers
  "packet_held F" for F :: "('b, 'o) flatbuffers"
proof unfold_locales
  fix c :: "'b unix_connector" and r c' m d
  show "UnixConnector_recv F c = Some (Ok m, c') \<Longrightarrow> stream_remaining c' < stream_remaining c"
    by (rule UnixConnector_recv_progress)
  assume ok: "connector_ok c"
  then show "\<exists>r c'. UnixConnector_recv F c = Some (r, c') \<and> connector_ok c'"
    by (rule UnixConnector_recv_post [of _ F]) (simp add: connector_ok_def recv_post_def)
  show "UnixConnector_recv F c = Some (Ok (DeliverPacket d), c') \<Longrightarrow>
      buf_index (dp_inner d) \<notin> held_buffers c \<and> held_buffers c' = insert (buf_index (dp_inner d)) (held_buffers c) \<and>
      packet_held F c' d"
    by (drule UnixConnector_recvD [OF ok]) (simp add: recv_post_def)
  show "UnixConnector_recv F c = Some (r, c') \<Longrightarrow> (\<forall>d. r \<noteq> Ok (DeliverPacket d)) \<Longrightarrow> held_buffers c' = held_buffers c"
    by (drule UnixConnector_recvD [OF ok]) (simp add: recv_post_def split: sum.splits msg_in.splits)
  show "UnixConnector_recv F c = Some (r, c') \<Longrightarrow> packet_held F c d \<Longrightarrow> packet_held F c' d"
    by (drule UnixConnector_recvD [OF ok]) (simp add: recv_post_def packet_ok_keeps [of "input_buffer_pool c"])
qed

end
