(* ===== verification/Timer.thy ===== *)
theory Timer
  imports Connector
begin

text \<open>
  What the client context uses of the timer module selected at build time (\<open>timer/mod.rs\<close>:
  process, Qemu or Qemu/KVM). The record \<open>timer_ops\<close> holds the operations; the type \<open>'now\<close> is
  what the operating system or the emulator answers at the moment of a call (clock readings and
  the like), so that time is an input of every operation that reads it.

  The locale \<open>timer_impl\<close> is the contract; each timer theory interprets it.
\<close>

lemma sorted_last_le:
  fixes f :: "'a \<Rightarrow> 'b :: linorder"
  assumes "sorted (map f xs)" "x \<in> set xs"
  shows "f x \<le> f (last xs)"
  using assms by (induction xs) auto

lemma sorted_map_dropWhile:
  fixes f :: "'a \<Rightarrow> 'b :: linorder"
  assumes "sorted (map f xs)"
  shows "sorted (map f (dropWhile P xs))"
  using assms by (induction xs) auto

record ('tm, 'now, 'd, 't, 'o) timer_ops =
  t_simulation_now :: "'tm \<Rightarrow> 'now \<Rightarrow> duration option"
  t_previous_deadline :: "'tm \<Rightarrow> duration option"
  t_next_deadline :: "'tm \<Rightarrow> duration option"
  t_check_overrun :: "'tm \<Rightarrow> duration \<Rightarrow> 'o send_packet_builder list \<Rightarrow> duration option"
  t_start :: "'tm \<Rightarrow> 'now \<Rightarrow> duration \<Rightarrow> (('d, io_error) result \<times> 'tm) option"
  t_application_now :: "'tm \<Rightarrow> 'now \<Rightarrow> 't option"
  t_stop :: "'tm \<Rightarrow> 'tm option"
  t_drop :: "'tm \<Rightarrow> 'tm"

text \<open>
  \<open>prev_dl\<close> and \<open>next_dl\<close> bound the slice a timer is in. A message is set aside for a later slice only
  if it is stamped after the end of the current one, and then it keeps the order of those already set
  aside. Starting enters the slice that ends at the deadline given.
\<close>

locale timer_impl =
  fixes T :: "('tm, 'now, 'd, 't, 'o) timer_ops"
    and prev_dl :: "'tm \<Rightarrow> duration"
    and next_dl :: "'tm \<Rightarrow> duration"
  assumes previous_deadline: "t_previous_deadline T tm = Some d \<Longrightarrow> d = prev_dl tm"
    and next_deadline: "t_next_deadline T tm = Some d \<Longrightarrow> d = next_dl tm"
    and overrun_late: "t_check_overrun T tm send_time ups = Some t \<Longrightarrow> next_dl tm < t"
    and overrun_keeps: "t_check_overrun T tm send_time ups = Some t \<Longrightarrow> send_time \<le> t"
    and overrun_order: "t_check_overrun T tm send_time ups = Some t \<Longrightarrow> ups \<noteq> [] \<Longrightarrow>
      spb_send_time (last ups) \<le> t"
    and start_slice: "t_start T tm now d = Some (Ok off, tm') \<Longrightarrow> prev_dl tm' = next_dl tm \<and> next_dl tm' = d"
begin

text \<open>The messages set aside: in the order of their send times, all of them after the slice began.\<close>

definition upcoming_ok :: "'tm \<Rightarrow> 'o send_packet_builder list \<Rightarrow> bool" where
  "upcoming_ok tm ups \<longleftrightarrow> sorted (map spb_send_time ups) \<and> (\<forall>m \<in> set ups. prev_dl tm < spb_send_time m)"

lemma upcoming_Nil [simp]: "upcoming_ok tm []"
  by (simp add: upcoming_ok_def)

lemma upcoming_push:
  assumes "upcoming_ok tm ups" "prev_dl tm \<le> next_dl tm" "t_check_overrun T tm send_time ups = Some (spb_send_time m)"
  shows "upcoming_ok tm (ups @ [m])"
proof -
  have "spb_send_time x \<le> spb_send_time m" if x: "x \<in> set ups" for x
  proof -
    have ne: "ups \<noteq> []" using x by auto
    have "spb_send_time x \<le> spb_send_time (last ups)"
      using assms(1) x by (intro sorted_last_le) (simp_all add: upcoming_ok_def)
    also have "\<dots> \<le> spb_send_time m" by (rule overrun_order [OF assms(3) ne])
    finally show ?thesis .
  qed
  then show ?thesis
    using assms overrun_late [OF assms(3)] by (auto simp: upcoming_ok_def sorted_append)
qed

text \<open>
  What a deadline sends of them falls in the slice it ends, and what it keeps is as required for the
  next slice.
\<close>

lemma upcoming_due:
  assumes "upcoming_ok tm ups" "m \<in> set (takeWhile (\<lambda>m. spb_send_time m \<le> next_dl tm) ups)"
  shows "prev_dl tm < spb_send_time m" "spb_send_time m \<le> next_dl tm"
  using assms by (auto simp: upcoming_ok_def dest: set_takeWhileD)

lemma upcoming_advance:
  assumes "upcoming_ok tm ups" "prev_dl tm' = next_dl tm"
  shows "upcoming_ok tm' (dropWhile (\<lambda>m. spb_send_time m \<le> next_dl tm) ups)"
proof -
  let ?P = "\<lambda>m. spb_send_time m \<le> next_dl tm"
  have s: "sorted (map spb_send_time (dropWhile ?P ups))"
    using assms(1) by (intro sorted_map_dropWhile) (simp add: upcoming_ok_def)
  have "next_dl tm < spb_send_time m" if m: "m \<in> set (dropWhile ?P ups)" for m
  proof -
    obtain x xs where x: "dropWhile ?P ups = x # xs" using m by (cases "dropWhile ?P ups") auto
    then have "\<not> spb_send_time x \<le> next_dl tm" by (metis hd_dropWhile list.sel(1) list.simps(3))
    moreover have "spb_send_time x \<le> spb_send_time m" using s m x by auto
    ultimately show ?thesis by simp
  qed
  with s assms(2) show ?thesis by (simp add: upcoming_ok_def)
qed

end

end
