(* ===== verification/Output_Msg_Set.thy ===== *)
theory Output_Msg_Set
  imports Tansiv_Prelude "HOL-Library.Multiset"
begin

text \<open>
  The set of messages waiting for the next deadline, \<open>output_msg_set.rs\<close>: a fixed number of
  slots, each with a busy flag (claimed by an inserter) and a valid flag (its message can be
  taken). The set is generic in the message type \<open>'m\<close>; the client instantiates it with
  \<open>OutputMsg = SendPacketBuilder\<close>.

  Between two operations of one thread the flags mirror the slots (\<open>wf_set\<close>). The locale
  \<open>message_set\<close> is what the deadline handler relies on: an inserted message is pending, and
  draining yields every pending message once, in slot order.
\<close>

datatype output_msg_set_error = NoSlotAvailable

fun output_msg_set_error_fmt :: "output_msg_set_error \<Rightarrow> string" where
  "output_msg_set_error_fmt NoSlotAvailable = ''No slot available''"

record 'm output_msg_set =
  slots :: "'m option list"
  slot_busy :: "bool list"
  slot_valid :: "bool list"

definition OutputMsgSet_new :: "usize \<Rightarrow> 'm output_msg_set" where
  "OutputMsgSet_new num_slots =
     \<lparr>slots = replicate num_slots None,
      slot_busy = replicate num_slots False,
      slot_valid = replicate num_slots False\<rparr>"

definition OutputMsgSet_insert ::
  "'m output_msg_set \<Rightarrow> 'm \<Rightarrow> ((unit, output_msg_set_error) result \<times> 'm output_msg_set) option" where
  "OutputMsgSet_insert self output_msg =
     (case claim_slot (slot_busy self) of
        (Some idx, busy) \<Rightarrow> do {
          assert_that (idx < length (slots self));
          assert_that (idx < length (slot_valid self));
          Some (Ok (), self\<lparr>slot_busy := busy,
                            slots := (slots self)[idx := Some output_msg],
                            slot_valid := (slot_valid self)[idx := True]\<rparr>)
        }
      | (None, busy) \<Rightarrow> Some (Err NoSlotAvailable, self\<lparr>slot_busy := busy\<rparr>))"

definition OutputMsgSet_take_slot ::
  "'m output_msg_set \<Rightarrow> usize \<Rightarrow> ('m option \<times> 'm output_msg_set) option" where
  "OutputMsgSet_take_slot self index =
     (if index < length (slot_valid self) \<and> slot_valid self ! index then do {
        assert_that (index < length (slots self));
        assert_that (index < length (slot_busy self));
        Some (slots self ! index,
              self\<lparr>slots := (slots self)[index := None],
                   slot_valid := (slot_valid self)[index := False],
                   slot_busy := (slot_busy self)[index := False]\<rparr>)
      } else Some (None, self))"

text \<open>
  \<open>OutputMsgDrain\<close> is the set and the index of the next slot to look at; \<open>next\<close> scans from
  there, and leaves the index alone when no message is left.
\<close>

definition OutputMsgSet_drain :: usize where
  "OutputMsgSet_drain = 0"

function OutputMsgDrain_scan ::
  "'m output_msg_set \<Rightarrow> usize \<Rightarrow> usize \<Rightarrow> usize \<Rightarrow> ('m option \<times> usize \<times> 'm output_msg_set) option" where
  "OutputMsgDrain_scan msg_set next_index index num_slots =
     (if index < num_slots then
        (case OutputMsgSet_take_slot msg_set index of
           None \<Rightarrow> None
         | Some (Some val, msg_set') \<Rightarrow> Some (Some val, index + 1, msg_set')
         | Some (None, msg_set') \<Rightarrow> OutputMsgDrain_scan msg_set' next_index (index + 1) num_slots)
      else Some (None, next_index, msg_set))"
  by pat_completeness auto
termination
  by (relation "measure (\<lambda>(_, _, index, num_slots). num_slots - index)") auto

definition OutputMsgDrain_next ::
  "'m output_msg_set \<Rightarrow> usize \<Rightarrow> ('m option \<times> usize \<times> 'm output_msg_set) option" where
  "OutputMsgDrain_next msg_set index =
     OutputMsgDrain_scan msg_set index index (length (slots msg_set))"

declare OutputMsgDrain_scan.simps [simp del]

section \<open>The flags mirror the slots\<close>

definition wf_set :: "'m output_msg_set \<Rightarrow> bool" where
  "wf_set s \<longleftrightarrow> slot_busy s = map (\<lambda>x. x \<noteq> None) (slots s) \<and> slot_valid s = map (\<lambda>x. x \<noteq> None) (slots s)"

definition pending :: "'m output_msg_set \<Rightarrow> usize \<Rightarrow> 'm list" where
  "pending s i = List.map_filter id (drop i (slots s))"

lemma wf_set_new [simp]: "wf_set (OutputMsgSet_new n)"
  by (simp add: wf_set_def OutputMsgSet_new_def)

lemma slots_new [simp]: "length (slots (OutputMsgSet_new n)) = n"
  by (simp add: OutputMsgSet_new_def)

lemma map_filter_Nil [simp]: "List.map_filter f [] = []"
  by (simp add: List.map_filter_def)

lemma map_filter_Cons:
  "List.map_filter f (x # xs) = (case f x of None \<Rightarrow> List.map_filter f xs | Some y \<Rightarrow> y # List.map_filter f xs)"
  by (simp add: List.map_filter_def split: option.splits)

lemma map_filter_append:
  "List.map_filter f (xs @ ys) = List.map_filter f xs @ List.map_filter f ys"
  by (simp add: List.map_filter_def)

lemma pending_new [simp]: "pending (OutputMsgSet_new n) i = []"
  by (simp add: pending_def OutputMsgSet_new_def List.map_filter_def)

lemma pending_past [simp]: "length (slots s) \<le> i \<Longrightarrow> pending s i = []"
  by (simp add: pending_def)

lemma pending_step:
  assumes "i < length (slots s)"
  shows "pending s i = (case slots s ! i of None \<Rightarrow> pending s (Suc i) | Some m \<Rightarrow> m # pending s (Suc i))"
  using assms by (simp add: pending_def Cons_nth_drop_Suc [symmetric] map_filter_Cons split: option.split)

lemma map_filter_update_None:
  assumes "i < length xs" "xs ! i = None"
  shows "mset (List.map_filter id (xs[i := Some m])) = add_mset m (mset (List.map_filter id xs))"
proof -
  have "List.map_filter id xs = List.map_filter id (take i xs @ None # drop (Suc i) xs)"
    using assms by (metis id_take_nth_drop)
  then show ?thesis
    using assms(1) by (simp add: upd_conv_take_nth_drop map_filter_append map_filter_Cons)
qed

lemma wf_set_update:
  assumes "wf_set s"
  shows "wf_set (s\<lparr>slot_busy := (slot_busy s)[i := (x \<noteq> None)], slots := (slots s)[i := x],
    slot_valid := (slot_valid s)[i := (x \<noteq> None)]\<rparr>)"
  using assms by (simp add: wf_set_def map_update)

lemma busy_set_wf:
  assumes "wf_set s"
  shows "busy_set (slot_busy s) = {i. i < length (slots s) \<and> slots s ! i \<noteq> None}"
  using assms by (auto simp: wf_set_def busy_set_def)

lemma card_busy_wf:
  assumes "wf_set s"
  shows "card (busy_set (slot_busy s)) = length (pending s 0)"
proof -
  have "card {i. i < length xs \<and> xs ! i \<noteq> None} = length (List.map_filter id xs)"
    for xs :: "'a option list"
  proof -
    have "length (List.map_filter id xs) = length (filter (\<lambda>x. x \<noteq> None) xs)"
      by (simp add: List.map_filter_def)
    then show ?thesis by (simp add: length_filter_conv_card)
  qed
  then show ?thesis by (simp add: busy_set_wf [OF assms] pending_def)
qed

section \<open>Operations\<close>

lemma insert_room:
  assumes wf: "wf_set s" and room: "length (pending s 0) < length (slots s)"
  obtains s' where "OutputMsgSet_insert s m = Some (Ok (), s')" "wf_set s'"
    "mset (pending s' 0) = add_mset m (mset (pending s 0))" "length (slots s') = length (slots s)"
proof -
  have len: "length (slot_busy s) = length (slots s)" "length (slot_valid s) = length (slots s)"
    using wf by (simp_all add: wf_set_def)
  obtain i where c: "claim_slot (slot_busy s) = (Some i, (slot_busy s)[i := True])"
    and i: "i < length (slots s)" "i \<notin> busy_set (slot_busy s)"
    using claim_slot_room [of "slot_busy s"] room len by (auto simp: card_busy_wf [OF wf])
  have none: "slots s ! i = None"
    using i by (simp add: busy_set_wf [OF wf])
  show ?thesis
  proof (rule that)
    let ?s' = "s\<lparr>slot_busy := (slot_busy s)[i := True], slots := (slots s)[i := Some m],
      slot_valid := (slot_valid s)[i := True]\<rparr>"
    show "OutputMsgSet_insert s m = Some (Ok (), ?s')"
      using c i len by (simp add: OutputMsgSet_insert_def)
    show "wf_set ?s'" using wf_set_update [OF wf, of i "Some m"] by simp
    show "mset (pending ?s' 0) = add_mset m (mset (pending s 0))"
      using i none by (simp add: pending_def map_filter_update_None)
  qed simp
qed

lemma insert_full:
  assumes wf: "wf_set s" and full: "length (pending s 0) = length (slots s)"
  shows "OutputMsgSet_insert s m = Some (Err NoSlotAvailable, s)"
proof -
  have "busy_set (slot_busy s) = {..<length (slot_busy s)}"
    using full wf by (simp add: busy_set_full_iff card_busy_wf) (simp add: wf_set_def)
  then have "claim_slot (slot_busy s) = (None, slot_busy s)"
    by (simp add: claim_slot_None)
  then show ?thesis by (simp add: OutputMsgSet_insert_def)
qed

text \<open>The set with slot \<open>j\<close> emptied.\<close>

abbreviation clear_slot :: "'m output_msg_set \<Rightarrow> usize \<Rightarrow> 'm output_msg_set" where
  "clear_slot s j \<equiv> s\<lparr>slot_busy := (slot_busy s)[j := False], slots := (slots s)[j := None],
     slot_valid := (slot_valid s)[j := False]\<rparr>"

lemma take_slot_Some:
  assumes "wf_set s" "i < length (slots s)" "slots s ! i = Some m"
  shows "OutputMsgSet_take_slot s i = Some (Some m, clear_slot s i)"
  using assms by (simp add: OutputMsgSet_take_slot_def wf_set_def)

lemma take_slot_None:
  assumes "wf_set s" "i < length (slots s)" "slots s ! i = None"
  shows "OutputMsgSet_take_slot s i = Some (None, s)"
  using assms by (simp add: OutputMsgSet_take_slot_def wf_set_def)

lemma drain_scan_None:
  assumes "wf_set s" "pending s i = []"
  shows "OutputMsgDrain_scan s k i (length (slots s)) = Some (None, k, s)"
  using assms(2)
proof (induction "length (slots s) - i" arbitrary: i)
  case 0
  then show ?case by (simp add: OutputMsgDrain_scan.simps)
next
  case (Suc d)
  then have i: "i < length (slots s)" by simp
  have none: "slots s ! i = None" "pending s (Suc i) = []"
    using Suc.prems by (auto simp: pending_step [OF i] split: option.splits)
  have "OutputMsgDrain_scan s k (Suc i) (length (slots s)) = Some (None, k, s)"
    using Suc.hyps none by simp
  then show ?case
    using take_slot_None [OF assms(1) i none(1)] i by (simp add: OutputMsgDrain_scan.simps [of s k i])
qed

lemma drain_scan_Some:
  assumes "wf_set s" "pending s i = m # ms"
  shows "\<exists>j. i \<le> j \<and> j < length (slots s) \<and> slots s ! j = Some m \<and> pending s (Suc j) = ms \<and>
    OutputMsgDrain_scan s k i (length (slots s)) = Some (Some m, Suc j, clear_slot s j)"
  using assms(2)
proof (induction "length (slots s) - i" arbitrary: i)
  case 0
  then show ?case by simp
next
  case (Suc d)
  then have i: "i < length (slots s)" by simp
  show ?case
  proof (cases "slots s ! i")
    case (Some m')
    then have "m' = m" "pending s (Suc i) = ms" using Suc.prems by (simp_all add: pending_step [OF i])
    then show ?thesis
      using i Some take_slot_Some [OF assms(1) i Some]
      by (intro exI [of _ i]) (simp add: OutputMsgDrain_scan.simps [of s k i])
  next
    case None
    then have p: "pending s (Suc i) = m # ms" using Suc.prems by (simp add: pending_step [OF i])
    have d: "d = length (slots s) - Suc i" using Suc.hyps(2) by simp
    obtain j where "Suc i \<le> j" "j < length (slots s)" "slots s ! j = Some m" "pending s (Suc j) = ms"
      "OutputMsgDrain_scan s k (Suc i) (length (slots s)) = Some (Some m, Suc j, clear_slot s j)"
      using Suc.hyps(1) [OF d p] by blast
    then show ?thesis
      using i take_slot_None [OF assms(1) i None]
      by (intro exI [of _ j]) (simp add: OutputMsgDrain_scan.simps [of s k i])
  qed
qed

lemma drain_next_None:
  assumes "wf_set s" "pending s i = []"
  shows "OutputMsgDrain_next s i = Some (None, i, s)"
  using drain_scan_None [OF assms] by (simp add: OutputMsgDrain_next_def)

lemma drain_next_Some:
  assumes wf: "wf_set s" and p: "pending s i = m # ms"
  obtains j s' where "OutputMsgDrain_next s i = Some (Some m, Suc j, s')" "i \<le> j" "j < length (slots s)" "wf_set s'" "pending s' (Suc j) = ms"
    "mset (pending s 0) = add_mset m (mset (pending s' 0))" "length (slots s') = length (slots s)"
proof -
  obtain j where j: "i \<le> j" "j < length (slots s)" "slots s ! j = Some m" "pending s (Suc j) = ms"
    and n: "OutputMsgDrain_next s i = Some (Some m, Suc j, clear_slot s j)"
    using drain_scan_Some [OF wf p, of i] by (auto simp: OutputMsgDrain_next_def)
  have put_back: "(slots s)[j := None, j := Some m] = slots s"
    using j(2,3) by (simp add: list_update_same_conv)
  show ?thesis
  proof (rule that [OF n j(1,2)])
    show "wf_set (clear_slot s j)" using wf_set_update [OF wf, of j None] by simp
    show "pending (clear_slot s j) (Suc j) = ms" using j(4) by (simp add: pending_def)
    show "mset (pending s 0) = add_mset m (mset (pending (clear_slot s j) 0))"
      using map_filter_update_None [of j "(slots s)[j := None]" m] j(2) put_back by (simp add: pending_def)
  qed simp
qed

section \<open>The interface the deadline handler relies on\<close>

text \<open>
  \<open>waiting s i\<close> are the messages a drain positioned at \<open>i\<close> has still to yield, in order;
  \<open>capacity\<close> is how many messages fit.
\<close>

locale message_set =
  fixes ins :: "'s \<Rightarrow> 'm \<Rightarrow> ((unit, output_msg_set_error) result \<times> 's) option"
    and nxt :: "'s \<Rightarrow> usize \<Rightarrow> ('m option \<times> usize \<times> 's) option"
    and invar :: "'s \<Rightarrow> bool"
    and waiting :: "'s \<Rightarrow> usize \<Rightarrow> 'm list"
    and capacity :: "'s \<Rightarrow> usize"
  assumes ins_room: "invar s \<Longrightarrow> length (waiting s 0) < capacity s \<Longrightarrow>
      \<exists>s'. ins s m = Some (Ok (), s') \<and> invar s' \<and> capacity s' = capacity s \<and>
        mset (waiting s' 0) = add_mset m (mset (waiting s 0))"
    and ins_full: "invar s \<Longrightarrow> length (waiting s 0) = capacity s \<Longrightarrow> ins s m = Some (Err NoSlotAvailable, s)"
    and waiting_capacity: "invar s \<Longrightarrow> length (waiting s 0) \<le> capacity s"
    and nxt_None: "invar s \<Longrightarrow> waiting s i = [] \<Longrightarrow> nxt s i = Some (None, i, s)"
    and nxt_Some: "invar s \<Longrightarrow> waiting s i = m # ms \<Longrightarrow>
      \<exists>j s'. nxt s i = Some (Some m, Suc j, s') \<and> i \<le> j \<and> invar s' \<and> waiting s' (Suc j) = ms \<and>
        capacity s' = capacity s \<and> mset (waiting s 0) = add_mset m (mset (waiting s' 0))"
begin

text \<open>\<open>k\<close> calls of \<open>next\<close> on one drain.\<close>

fun drain_steps :: "nat \<Rightarrow> 's \<Rightarrow> usize \<Rightarrow> ('m list \<times> usize \<times> 's) option" where
  "drain_steps 0 s i = Some ([], i, s)"
| "drain_steps (Suc k) s i =
     (case nxt s i of
        None \<Rightarrow> None
      | Some (None, i', s') \<Rightarrow> Some ([], i', s')
      | Some (Some m, i', s') \<Rightarrow> map_option (\<lambda>(ms, r). (m # ms, r)) (drain_steps k s' i'))"

text \<open>
  A drain yields the waiting messages in order, each once, and takes exactly those out of the
  set.
\<close>

lemma drain_steps_all:
  assumes "invar s"
  shows "\<exists>i' s'. drain_steps k s i = Some (take k (waiting s i), i', s') \<and> invar s' \<and>
    capacity s' = capacity s \<and> mset (waiting s 0) = mset (take k (waiting s i)) + mset (waiting s' 0)"
  using assms
proof (induction k arbitrary: s i)
  case 0
  then show ?case by simp
next
  case (Suc k)
  show ?case
  proof (cases "waiting s i")
    case Nil
    then show ?thesis using Suc.prems nxt_None by auto
  next
    case (Cons m ms)
    then obtain j s' where n: "nxt s i = Some (Some m, Suc j, s')" "invar s'" "waiting s' (Suc j) = ms"
      "capacity s' = capacity s" "mset (waiting s 0) = add_mset m (mset (waiting s' 0))"
      using nxt_Some [OF Suc.prems Cons] by blast
    obtain i'' s'' where "drain_steps k s' (Suc j) = Some (take k ms, i'', s'')" "invar s''"
      "capacity s'' = capacity s'" "mset (waiting s' 0) = mset (take k ms) + mset (waiting s'' 0)"
      using Suc.IH [OF n(2), of "Suc j"] n(3) by auto
    with n Cons show ?thesis by auto
  qed
qed

end

interpretation outgoing: message_set OutputMsgSet_insert OutputMsgDrain_next wf_set pending
  "\<lambda>s. length (slots s)"
proof unfold_locales
  fix s :: "'m output_msg_set" and m
  assume "wf_set s"
  then show "length (pending s 0) < length (slots s) \<Longrightarrow> \<exists>s'. OutputMsgSet_insert s m = Some (Ok (), s') \<and>
    wf_set s' \<and> length (slots s') = length (slots s) \<and> mset (pending s' 0) = add_mset m (mset (pending s 0))"
    by (rule insert_room) auto
next
  fix s :: "'m output_msg_set" and i m ms
  assume "wf_set s" "pending s i = m # ms"
  then show "\<exists>j s'. OutputMsgDrain_next s i = Some (Some m, Suc j, s') \<and> i \<le> j \<and> wf_set s' \<and>
    pending s' (Suc j) = ms \<and> length (slots s') = length (slots s) \<and>
    mset (pending s 0) = add_mset m (mset (pending s' 0))"
    by (rule drain_next_Some) auto
next
  fix s :: "'m output_msg_set"
  assume "wf_set s"
  have "length (List.map_filter id (slots s)) \<le> length (slots s)"
    by (simp add: List.map_filter_def)
  then show "length (pending s 0) \<le> length (slots s)" by (simp add: pending_def)
qed (auto simp: insert_full drain_next_None)

end
