(* ===== verification/Client_Error.thy ===== *)
theory Client_Error
  imports Buffer_Pool Output_Msg_Set
begin

text \<open>
  The error type of \<open>error.rs\<close>, the conversions into it of \<open>lib.rs\<close>, and how it is displayed. The
  conversion from \<open>io::Error\<close> is the constructor \<open>IoError\<close>.
\<close>

datatype error =
    AlreadyStarted | NoMemoryAvailable | NoMessageAvailable | ProtocolViolation | SizeTooBig
  | IoError io_error

fun Error_from_buffer_pool :: "buffer_pool_error \<Rightarrow> error" where
  "Error_from_buffer_pool NoBufferAvailable = NoMemoryAvailable"
| "Error_from_buffer_pool BufferSizeTooBig = SizeTooBig"

fun Error_from_output_msg_set :: "output_msg_set_error \<Rightarrow> error" where
  "Error_from_output_msg_set NoSlotAvailable = NoMemoryAvailable"

fun Error_fmt :: "error \<Rightarrow> string" where
  "Error_fmt AlreadyStarted = ''Already Started''"
| "Error_fmt NoMemoryAvailable = ''No memory available''"
| "Error_fmt NoMessageAvailable = ''No message available''"
| "Error_fmt ProtocolViolation = ''Protocol violation''"
| "Error_fmt SizeTooBig = ''Size too big''"
| "Error_fmt (IoError e) = io_msg e"

end
