(* ===== verification/Waitfree_Queue.thy ===== *)
theory Waitfree_Queue
  imports Tansiv_Prelude
begin

text \<open>
  The bounded FIFO queue of \<open>waitfree_array_queue.rs\<close>, a wrapper around crossbeam's
  \<open>ArrayQueue\<close>. The crate is a git submodule that is not part of the repository, so its queue is
  a value of the type parameter \<open>'q\<close> and the record \<open>array_queue\<close> holds the methods the wrapper
  calls. \<open>array_queue_laws\<close> states their documented behaviour in terms of the list of queued
  items, first out first, and the capacity.
\<close>

record ('q, 'i) array_queue =
  aq_new :: "usize \<Rightarrow> 'q option"
  aq_push :: "'q \<Rightarrow> 'i \<Rightarrow> (unit, 'i) result \<times> 'q"
  aq_pop :: "'q \<Rightarrow> ('i, unit) result \<times> 'q"
  aq_is_empty :: "'q \<Rightarrow> bool"

definition array_queue_laws ::
  "('q, 'i) array_queue \<Rightarrow> ('q \<Rightarrow> 'i list) \<Rightarrow> ('q \<Rightarrow> nat) \<Rightarrow> bool" where
  "array_queue_laws A items cap \<longleftrightarrow>
     (\<forall>n. 0 < n \<longrightarrow> (\<exists>q. aq_new A n = Some q \<and> items q = [] \<and> cap q = n)) \<and>
     (\<forall>q x. length (items q) < cap q \<longrightarrow>
        (\<exists>q'. aq_push A q x = (Ok (), q') \<and> items q' = items q @ [x] \<and> cap q' = cap q)) \<and>
     (\<forall>q x. \<not> length (items q) < cap q \<longrightarrow> aq_push A q x = (Err x, q)) \<and>
     (\<forall>q x xs. items q = x # xs \<longrightarrow>
        (\<exists>q'. aq_pop A q = (Ok x, q') \<and> items q' = xs \<and> cap q' = cap q)) \<and>
     (\<forall>q. items q = [] \<longrightarrow> aq_pop A q = (Err (), q)) \<and>
     (\<forall>q. aq_is_empty A q \<longleftrightarrow> items q = [])"

datatype 'i queue_error = QueueNoSlotAvailable 'i

fun queue_error_fmt :: "'i queue_error \<Rightarrow> string" where
  "queue_error_fmt (QueueNoSlotAvailable _) = ''No slot available''"

definition WaitfreeArrayQueue_new :: "('q, 'i) array_queue \<Rightarrow> usize \<Rightarrow> 'q option" where
  "WaitfreeArrayQueue_new A num_slots = aq_new A num_slots"

definition WaitfreeArrayQueue_push ::
  "('q, 'i) array_queue \<Rightarrow> 'q \<Rightarrow> 'i \<Rightarrow> (unit, 'i queue_error) result \<times> 'q" where
  "WaitfreeArrayQueue_push A q x =
     (case aq_push A q x of
        (Inr _, q') \<Rightarrow> (Ok (), q')
      | (Inl y, q') \<Rightarrow> (Err (QueueNoSlotAvailable y), q'))"

definition WaitfreeArrayQueue_pop :: "('q, 'i) array_queue \<Rightarrow> 'q \<Rightarrow> 'i option \<times> 'q" where
  "WaitfreeArrayQueue_pop A q =
     (case aq_pop A q of
        (Inr x, q') \<Rightarrow> (Some x, q')
      | (Inl _, q') \<Rightarrow> (None, q'))"

definition WaitfreeArrayQueue_is_empty :: "('q, 'i) array_queue \<Rightarrow> 'q \<Rightarrow> bool" where
  "WaitfreeArrayQueue_is_empty A q = aq_is_empty A q"

text \<open>\<open>WaitfreeArrayQueueIter::next\<close> pops from the queue it borrows.\<close>

definition WaitfreeArrayQueueIter_next :: "('q, 'i) array_queue \<Rightarrow> 'q \<Rightarrow> 'i option \<times> 'q" where
  "WaitfreeArrayQueueIter_next A q = WaitfreeArrayQueue_pop A q"

text \<open>Iterating \<open>k\<close> times: \<open>iter().take(k).collect()\<close>.\<close>

fun WaitfreeArrayQueue_iter_take :: "('q, 'i) array_queue \<Rightarrow> nat \<Rightarrow> 'q \<Rightarrow> 'i list \<times> 'q" where
  "WaitfreeArrayQueue_iter_take A 0 q = ([], q)"
| "WaitfreeArrayQueue_iter_take A (Suc k) q =
     (case WaitfreeArrayQueueIter_next A q of
        (None, q') \<Rightarrow> ([], q')
      | (Some x, q') \<Rightarrow> (let (xs, q'') = WaitfreeArrayQueue_iter_take A k q' in (x # xs, q'')))"

lemmas array_queue_lawsD = array_queue_laws_def [THEN iffD1]

lemma queue_new:
  assumes "array_queue_laws A items cap" "0 < n"
  obtains q where "WaitfreeArrayQueue_new A n = Some q" "items q = []" "cap q = n"
  using array_queue_lawsD [OF assms(1), THEN conjunct1] assms(2) that
  by (auto simp: WaitfreeArrayQueue_new_def)

lemma queue_push_room:
  assumes "array_queue_laws A items cap" "length (items q) < cap q"
  obtains q' where "WaitfreeArrayQueue_push A q x = (Ok (), q')" "items q' = items q @ [x]" "cap q' = cap q"
  using array_queue_lawsD [OF assms(1), THEN conjunct2, THEN conjunct1, rule_format, OF assms(2), of x] that
  by (auto simp: WaitfreeArrayQueue_push_def)

lemma queue_push_full:
  assumes "array_queue_laws A items cap" "\<not> length (items q) < cap q"
  shows "WaitfreeArrayQueue_push A q x = (Err (QueueNoSlotAvailable x), q)"
  using array_queue_lawsD [OF assms(1), THEN conjunct2, THEN conjunct2, THEN conjunct1, rule_format, OF assms(2)]
  by (simp add: WaitfreeArrayQueue_push_def)

lemmas array_queue_tl = array_queue_lawsD [THEN conjunct2, THEN conjunct2, THEN conjunct2]

lemma queue_pop_Cons:
  assumes "array_queue_laws A items cap" "items q = x # xs"
  obtains q' where "WaitfreeArrayQueue_pop A q = (Some x, q')" "items q' = xs" "cap q' = cap q"
  using array_queue_tl [OF assms(1), THEN conjunct1, rule_format, OF assms(2)] that
  by (auto simp: WaitfreeArrayQueue_pop_def)

lemma queue_pop_Nil:
  assumes "array_queue_laws A items cap" "items q = []"
  shows "WaitfreeArrayQueue_pop A q = (None, q)"
  using array_queue_tl [OF assms(1), THEN conjunct2, THEN conjunct1, rule_format, OF assms(2)]
  by (simp add: WaitfreeArrayQueue_pop_def)

lemma queue_is_empty:
  "array_queue_laws A items cap \<Longrightarrow> WaitfreeArrayQueue_is_empty A q \<longleftrightarrow> items q = []"
  using array_queue_tl [THEN conjunct2, THEN conjunct2, rule_format]
  by (simp add: WaitfreeArrayQueue_is_empty_def)

lemma queue_iter_take:
  assumes "array_queue_laws A items cap"
  shows "\<exists>q'. WaitfreeArrayQueue_iter_take A k q = (take k (items q), q') \<and> items q' = drop k (items q)"
proof (induction k arbitrary: q)
  case 0
  then show ?case by simp
next
  case (Suc k)
  show ?case
  proof (cases "items q")
    case Nil
    then show ?thesis
      using queue_pop_Nil [OF assms Nil] by (simp add: WaitfreeArrayQueueIter_next_def)
  next
    case (Cons x xs)
    then obtain q' where "WaitfreeArrayQueue_pop A q = (Some x, q')" "items q' = xs"
      using queue_pop_Cons [OF assms Cons] by blast
    with Cons Suc.IH [of q'] show ?thesis
      by (auto simp: WaitfreeArrayQueueIter_next_def)
  qed
qed

end
