(* ===== verification/Client_Context.thy ===== *)
theory Client_Context
  imports Unix_Connector Timer Client_Error Waitfree_Queue
begin

text \<open>
  The client context of \<open>tansiv-client/src/lib.rs\<close>: the state an application or an emulator works
  with, and the handling of a deadline.

  The operations take the timer module as the record \<open>T\<close> of its operations, FlatBuffers as \<open>F\<close> and
  crossbeam's queue as \<open>A\<close>. The fields of the Rust structure behind a \<open>Mutex\<close> are plain fields. The
  two callbacks are the application's; each call of one is recorded in \<open>callbacks\<close>, in order.
  Log messages are left out.
\<close>

section \<open>Data\<close>

datatype after_deadline = NextDeadline duration | AfterEndSimulation

datatype callback = RecvCallback | DeadlineCallback duration

record ('b, 'o, 'q, 'tm) client_context =
  address :: in_addr_t
  connector :: "'b unix_connector"
  input_queue :: 'q
  timer_context :: 'tm
  output_buffer_pool :: "'b fb_pool"
  outgoing_messages :: "'o send_packet_builder output_msg_set"
  upcoming_messages :: "'o send_packet_builder list"
  start_once :: bool
  callbacks :: "callback list"

abbreviation in_pool :: "('b, 'o, 'q, 'tm) client_context \<Rightarrow> bytes_pool" where
  "in_pool ctx \<equiv> input_buffer_pool (connector ctx)"

definition set_in_pool :: "('b, 'o, 'q, 'tm) client_context \<Rightarrow> bytes_pool \<Rightarrow> ('b, 'o, 'q, 'tm) client_context" where
  "set_in_pool ctx p = ctx\<lparr>connector := (connector ctx)\<lparr>input_buffer_pool := p\<rparr>\<rparr>"

section \<open>Creation, start and stop\<close>

text \<open>
  \<open>timer_new\<close> is the result of \<open>TimerContext::new\<close> and \<open>register\<close> that of \<open>timer::register\<close>.
\<close>

definition Context_new ::
  "('b, 'o) flatbuffers \<Rightarrow> ('q, deliver_packet) array_queue \<Rightarrow> (string \<Rightarrow> (unix_stream, io_error) result) \<Rightarrow>
     ('tm, io_error) result \<Rightarrow> (unit, io_error) result \<Rightarrow> 't config \<Rightarrow>
     (('b, 'o, 'q, 'tm) client_context, error) result option" where
  "Context_new F A connect timer_new register cfg = do {
     c \<leftarrow> UnixConnector_new F connect cfg;
     case c of
       Inl e \<Rightarrow> Some (Err (IoError e))
     | Inr conn \<Rightarrow> do {
         queue \<leftarrow> WaitfreeArrayQueue_new A (num_buffers cfg);
         case timer_new of
           Inl e \<Rightarrow> Some (Err (IoError e))
         | Inr timer \<Rightarrow> do {
             pool \<leftarrow> BufferPool_new (FbBuffer F) MAX_PACKET_SIZE (num_buffers cfg);
             context \<leftarrow> Some \<lparr>
               address = cfg_address cfg,
               connector = conn,
               input_queue = queue,
               timer_context = timer,
               output_buffer_pool = pool,
               outgoing_messages = OutputMsgSet_new (num_buffers cfg),
               upcoming_messages = [],
               start_once = False,
               callbacks = []\<rparr>;
             Some (case register of
                 Inl e \<Rightarrow> Err (IoError e)
               | Inr _ \<Rightarrow> Ok context)
           }
       }
   }"

text \<open>\<open>init\<close>: the parsed arguments (\<open>Config::from_iter_safe\<close>, a third-party parser) and \<open>Context_new\<close>.\<close>

definition client_init ::
  "('b, 'o) flatbuffers \<Rightarrow> ('q, deliver_packet) array_queue \<Rightarrow> (string \<Rightarrow> (unix_stream, io_error) result) \<Rightarrow>
     ('tm, io_error) result \<Rightarrow> (unit, io_error) result \<Rightarrow> (string list \<Rightarrow> ('t config, string) result) \<Rightarrow>
     string list \<Rightarrow> (('b, 'o, 'q, 'tm) client_context, error) result option" where
  "client_init F A connect timer_new register from_iter_safe args =
     (case from_iter_safe args of
        Inl e \<Rightarrow> Some (Err (IoError (IoErr OtherKind e)))
      | Inr cfg \<Rightarrow> Context_new F A connect timer_new register cfg)"

definition Context_start ::
  "('tm, 'now, 'd, 't, 'o) timer_ops \<Rightarrow> ('b, 'o) flatbuffers \<Rightarrow> ('b, 'o, 'q, 'tm) client_context \<Rightarrow> 'now \<Rightarrow>
     (('d, error) result \<times> ('b, 'o, 'q, 'tm) client_context) option" where
  "Context_start T F self now =
     (if start_once self then Some (Err AlreadyStarted, self)
      else do {
        self \<leftarrow> Some (self\<lparr>start_once := True\<rparr>);
        (m, conn) \<leftarrow> UnixConnector_recv F (connector self);
        self \<leftarrow> Some (self\<lparr>connector := conn\<rparr>);
        case m of
          Inl e \<Rightarrow> Some (Err (IoError e), self)
        | Inr (GoToDeadline deadline) \<Rightarrow> do {
            self \<leftarrow> Some (self\<lparr>callbacks := callbacks self @ [DeadlineCallback deadline]\<rparr>);
            (r, timer) \<leftarrow> t_start T (timer_context self) now deadline;
            Some (map_sum IoError id r, self\<lparr>timer_context := timer\<rparr>)
          }
        | Inr (DeliverPacket d) \<Rightarrow> do {
            pool \<leftarrow> Buffer_drop (in_pool self) (dp_inner d);
            Some (Err ProtocolViolation, set_in_pool self pool)
          }
        | Inr EndSimulation \<Rightarrow> Some (Err ProtocolViolation, self)
      })"

definition Context_stop ::
  "('tm, 'now, 'd, 't, 'o) timer_ops \<Rightarrow> ('b, 'o, 'q, 'tm) client_context \<Rightarrow>
     ('b, 'o, 'q, 'tm) client_context option" where
  "Context_stop T self = do {
     timer \<leftarrow> t_stop T (timer_context self);
     Some (self\<lparr>timer_context := timer\<rparr>)
   }"

section \<open>The deadline\<close>

text \<open>
  The send time a message is sent with: not before the previous deadline, and \<open>None\<close> when it is
  beyond the current one.
\<close>

definition clamp_send_time :: "duration \<Rightarrow> duration \<Rightarrow> duration \<Rightarrow> duration option" where
  "clamp_send_time previous_deadline current_deadline send_time =
     (if send_time < previous_deadline then Some previous_deadline
      else if send_time > current_deadline then None
      else Some send_time)"

text \<open>\<open>connector.send(MsgOut::SendPacket(message.finish(send_time)))\<close>\<close>

definition send_message ::
  "('b, 'o) flatbuffers \<Rightarrow> 'b fb_pool \<Rightarrow> 'b unix_connector \<Rightarrow> 'o send_packet_builder \<Rightarrow> duration \<Rightarrow>
     ((unit, io_error) result \<times> 'b unix_connector \<times> 'b fb_pool) option" where
  "send_message F pool conn m send_time = do {
     (sp, pool) \<leftarrow> SendPacketBuilder_finish F pool m send_time;
     UnixConnector_send F pool conn (SendPacket sp)
   }"

text \<open>The drain moves forward, so the loop over it ends.\<close>

lemma take_slot_length:
  "OutputMsgSet_take_slot s i = Some (r, s') \<Longrightarrow> length (slots s') = length (slots s)"
  by (auto simp: OutputMsgSet_take_slot_def bind_eq_Some_conv split: if_splits)

lemma drain_scan_forward:
  assumes "OutputMsgDrain_scan s k i n = Some (Some m, j, s')"
  shows "i < j" "j \<le> n" "length (slots s') = length (slots s)"
  using assms
proof (induction s k i n rule: OutputMsgDrain_scan.induct)
  case (1 s k i n)
  note ih = "1.IH"
  {
    case 1
    then show ?case using ih(1)
      by (fastforce simp: OutputMsgDrain_scan.simps [of s k i n] split: if_splits option.splits)
  next
    case 2
    then show ?case using ih(2)
      by (fastforce simp: OutputMsgDrain_scan.simps [of s k i n] split: if_splits option.splits)
  next
    case 3
    then show ?case using ih(3)
      by (fastforce simp: OutputMsgDrain_scan.simps [of s k i n] dest: take_slot_length split: if_splits option.splits)
  }
qed

lemma drain_next_forward:
  assumes "OutputMsgDrain_next s i = Some (Some m, j, s')"
  shows "length (slots s') - j < length (slots s) - i"
  using drain_scan_forward [OF assms [unfolded OutputMsgDrain_next_def]] by simp

text \<open>
  First loop of \<open>at_deadline\<close>: drain the outgoing messages and send them. The flag is false when
  the loop returned early; the message in hand is then dropped.
\<close>

function send_outgoing ::
  "('b, 'o) flatbuffers \<Rightarrow> duration \<Rightarrow> duration \<Rightarrow> 'o send_packet_builder output_msg_set \<Rightarrow> usize \<Rightarrow>
     'b fb_pool \<Rightarrow> 'b unix_connector \<Rightarrow>
     (bool \<times> 'o send_packet_builder output_msg_set \<times> 'b fb_pool \<times> 'b unix_connector) option" where
  "send_outgoing F previous_deadline current_deadline msg_set index pool conn =
     (case OutputMsgDrain_next msg_set index of
        None \<Rightarrow> None
      | Some (None, _, msg_set') \<Rightarrow> Some (True, msg_set', pool, conn)
      | Some (Some m, index', msg_set') \<Rightarrow>
          (case clamp_send_time previous_deadline current_deadline (spb_send_time m) of
             None \<Rightarrow> do {
               pool \<leftarrow> Buffer_drop pool (spb_payload m);
               Some (False, msg_set', pool, conn)
             }
           | Some send_time \<Rightarrow>
               (case send_message F pool conn m send_time of
                  None \<Rightarrow> None
                | Some (Inl _, conn', pool') \<Rightarrow> Some (False, msg_set', pool', conn')
                | Some (Inr _, conn', pool') \<Rightarrow>
                    send_outgoing F previous_deadline current_deadline msg_set' index' pool' conn')))"
  by pat_completeness auto
termination
  by (relation "measure (\<lambda>(_, _, _, s, i, _, _). length (slots s) - i)") (auto dest: drain_next_forward)

declare send_outgoing.simps [simp del]

text \<open>Second loop: the messages set aside whose time has come.\<close>

fun send_upcoming ::
  "('b, 'o) flatbuffers \<Rightarrow> duration \<Rightarrow> 'o send_packet_builder list \<Rightarrow> 'b fb_pool \<Rightarrow> 'b unix_connector \<Rightarrow>
     (bool \<times> 'o send_packet_builder list \<times> 'b fb_pool \<times> 'b unix_connector) option" where
  "send_upcoming F current_deadline [] pool conn = Some (True, [], pool, conn)"
| "send_upcoming F current_deadline (m # ms) pool conn =
     (if spb_send_time m \<le> current_deadline then
        (case send_message F pool conn m (spb_send_time m) of
           None \<Rightarrow> None
         | Some (Inl _, conn', pool') \<Rightarrow> Some (False, ms, pool', conn')
         | Some (Inr _, conn', pool') \<Rightarrow> send_upcoming F current_deadline ms pool' conn')
      else Some (True, m # ms, pool, conn))"

definition Context_handle_actor_msg ::
  "('b, 'o) flatbuffers \<Rightarrow> ('q, deliver_packet) array_queue \<Rightarrow> ('b, 'o, 'q, 'tm) client_context \<Rightarrow> msg_in \<Rightarrow>
     (after_deadline option \<times> ('b, 'o, 'q, 'tm) client_context) option" where
  "Context_handle_actor_msg F A self m =
     (case m of
        DeliverPacket d \<Rightarrow> do {
          src \<leftarrow> DeliverPacket_src F (in_pool self) d;
          payload \<leftarrow> DeliverPacket_payload F (in_pool self) d;
          (case WaitfreeArrayQueue_push A (input_queue self) d of
             (Inr _, q) \<Rightarrow> Some (None, self\<lparr>input_queue := q\<rparr>)
           | (Inl (QueueNoSlotAvailable d'), q) \<Rightarrow> do {
               pool \<leftarrow> Buffer_drop (in_pool self) (dp_inner d');
               Some (None, set_in_pool (self\<lparr>input_queue := q\<rparr>) pool)
             })
        }
      | GoToDeadline deadline \<Rightarrow> Some (Some (NextDeadline deadline), self)
      | EndSimulation \<Rightarrow> Some (Some AfterEndSimulation, self))"

lemma handle_actor_msg_actor:
  assumes "Context_handle_actor_msg F A ctx m = Some (r, ctx')"
  shows "actor (connector ctx') = actor (connector ctx)"
  using assms
  by (auto simp: Context_handle_actor_msg_def set_in_pool_def bind_eq_Some_conv
      split: msg_in.splits sum.splits prod.splits queue_error.splits)

text \<open>Third loop: receive until a deadline, the end of the simulation or an error.\<close>

function receive_messages ::
  "('b, 'o) flatbuffers \<Rightarrow> ('q, deliver_packet) array_queue \<Rightarrow> ('b, 'o, 'q, 'tm) client_context \<Rightarrow>
     (after_deadline \<times> ('b, 'o, 'q, 'tm) client_context) option" where
  "receive_messages F A self =
     (case UnixConnector_recv F (connector self) of
        None \<Rightarrow> None
      | Some (Inl _, conn) \<Rightarrow> Some (AfterEndSimulation, self\<lparr>connector := conn\<rparr>)
      | Some (Inr m, conn) \<Rightarrow>
          (case Context_handle_actor_msg F A (self\<lparr>connector := conn\<rparr>) m of
             None \<Rightarrow> None
           | Some (Some after, self') \<Rightarrow> Some (after, self')
           | Some (None, self') \<Rightarrow> receive_messages F A self'))"
  by pat_completeness auto
termination
  by (relation "measure (\<lambda>(_, _, ctx). length (rx (actor (connector ctx))))")
     (auto dest!: handle_actor_msg_actor UnixConnector_recv_progress)

declare receive_messages.simps [simp del]

definition Context_at_deadline ::
  "('tm, 'now, 'd, 't, 'o) timer_ops \<Rightarrow> ('b, 'o) flatbuffers \<Rightarrow> ('q, deliver_packet) array_queue \<Rightarrow>
     ('b, 'o, 'q, 'tm) client_context \<Rightarrow> (after_deadline \<times> ('b, 'o, 'q, 'tm) client_context) option" where
  "Context_at_deadline T F A self = do {
     previous_deadline \<leftarrow> t_previous_deadline T (timer_context self);
     current_deadline \<leftarrow> t_next_deadline T (timer_context self);
     (go, msg_set, pool, conn) \<leftarrow> send_outgoing F previous_deadline current_deadline
        (outgoing_messages self) OutputMsgSet_drain (output_buffer_pool self) (connector self);
     self \<leftarrow> Some (self\<lparr>outgoing_messages := msg_set, output_buffer_pool := pool, connector := conn\<rparr>);
     if \<not> go then Some (AfterEndSimulation, self) else do {
       (go, ups, pool, conn) \<leftarrow> send_upcoming F current_deadline
          (upcoming_messages self) (output_buffer_pool self) (connector self);
       self \<leftarrow> Some (self\<lparr>upcoming_messages := ups, output_buffer_pool := pool, connector := conn\<rparr>);
       if \<not> go then Some (AfterEndSimulation, self) else do {
         (r, conn, pool) \<leftarrow> UnixConnector_send F (output_buffer_pool self) (connector self) AtDeadline;
         self \<leftarrow> Some (self\<lparr>output_buffer_pool := pool, connector := conn\<rparr>);
         case r of
           Inl _ \<Rightarrow> Some (AfterEndSimulation, self)
         | Inr _ \<Rightarrow> do {
             may_notify \<leftarrow> Some (WaitfreeArrayQueue_is_empty A (input_queue self));
             (after, self) \<leftarrow> receive_messages F A self;
             self \<leftarrow> Some (if may_notify \<and> \<not> WaitfreeArrayQueue_is_empty A (input_queue self)
                       then self\<lparr>callbacks := callbacks self @ [RecvCallback]\<rparr> else self);
             self \<leftarrow> Some (case after of
                 NextDeadline deadline \<Rightarrow> self\<lparr>callbacks := callbacks self @ [DeadlineCallback deadline]\<rparr>
               | AfterEndSimulation \<Rightarrow> self);
             Some (after, self)
           }
       }
     }
   }"

section \<open>The application's operations\<close>

record timeval =
  tvl_sec :: i64
  tvl_usec :: i64

definition Context_gettimeofday ::
  "('d, 't) chrono \<Rightarrow> ('tm, 'now, 'd, 't, 'o) timer_ops \<Rightarrow> ('b, 'o, 'q, 'tm) client_context \<Rightarrow> 'now \<Rightarrow>
     timeval option" where
  "Context_gettimeofday C T self now = do {
     adjusted_time \<leftarrow> t_application_now T (timer_context self) now;
     Some \<lparr>tvl_sec = nd_timestamp C adjusted_time, tvl_usec = ucast (nd_subsec_micros C adjusted_time)\<rparr>
   }"

definition Context_send ::
  "('tm, 'now, 'd, 't, 'o) timer_ops \<Rightarrow> ('b, 'o) flatbuffers \<Rightarrow> ('b, 'o, 'q, 'tm) client_context \<Rightarrow> 'now \<Rightarrow>
     in_addr_t \<Rightarrow> bytes \<Rightarrow> ((unit, error) result \<times> ('b, 'o, 'q, 'tm) client_context) option" where
  "Context_send T F self now dst msg = do {
     send_time \<leftarrow> t_simulation_now T (timer_context self) now;
     (b, pool) \<leftarrow> BufferPool_allocate_buffer (FbBuffer F) (output_buffer_pool self) (length msg);
     case b of
       Inl e \<Rightarrow> Some (Err (Error_from_buffer_pool e), self\<lparr>output_buffer_pool := pool\<rparr>)
     | Inr buffer \<Rightarrow>
         (case t_check_overrun T (timer_context self) send_time (upcoming_messages self) of
            Some send_time_overrun \<Rightarrow> do {
              (m, pool) \<leftarrow> SendPacketBuilder_new F pool (address self) dst send_time_overrun msg buffer;
              Some (Ok (), self\<lparr>output_buffer_pool := pool, upcoming_messages := upcoming_messages self @ [m]\<rparr>)
            }
          | None \<Rightarrow> do {
              (m, pool) \<leftarrow> SendPacketBuilder_new F pool (address self) dst send_time msg buffer;
              (r, msg_set) \<leftarrow> OutputMsgSet_insert (outgoing_messages self) m;
              case r of
                Inr _ \<Rightarrow> Some (Ok (), self\<lparr>output_buffer_pool := pool, outgoing_messages := msg_set\<rparr>)
              | Inl e \<Rightarrow> do {
                  pool \<leftarrow> Buffer_drop pool (spb_payload m);
                  Some (Err (Error_from_output_msg_set e),
                        self\<lparr>output_buffer_pool := pool, outgoing_messages := msg_set\<rparr>)
                }
            })
   }"

text \<open>
  \<open>recv\<close>: the addresses and the slice of the caller's buffer the payload is in; the buffer's new
  content is returned too.
\<close>

definition Context_recv ::
  "('b, 'o) flatbuffers \<Rightarrow> ('q, deliver_packet) array_queue \<Rightarrow> ('b, 'o, 'q, 'tm) client_context \<Rightarrow> bytes \<Rightarrow>
     ((in_addr_t \<times> in_addr_t \<times> bytes, error) result \<times> bytes \<times> ('b, 'o, 'q, 'tm) client_context) option" where
  "Context_recv F A self msg =
     (case WaitfreeArrayQueue_pop A (input_queue self) of
        (None, q) \<Rightarrow> Some (Err NoMessageAvailable, msg, self\<lparr>input_queue := q\<rparr>)
      | (Some msg_in, q) \<Rightarrow> do {
          payload \<leftarrow> DeliverPacket_payload F (in_pool self) msg_in;
          if length payload \<le> length msg then do {
            src \<leftarrow> DeliverPacket_src F (in_pool self) msg_in;
            dst \<leftarrow> DeliverPacket_dst F (in_pool self) msg_in;
            pool \<leftarrow> Buffer_drop (in_pool self) (dp_inner msg_in);
            Some (Ok (src, dst, payload), payload @ drop (length payload) msg,
                  set_in_pool (self\<lparr>input_queue := q\<rparr>) pool)
          } else do {
            pool \<leftarrow> Buffer_drop (in_pool self) (dp_inner msg_in);
            Some (Err SizeTooBig, msg, set_in_pool (self\<lparr>input_queue := q\<rparr>) pool)
          }
        })"

definition Context_poll ::
  "('q, deliver_packet) array_queue \<Rightarrow> ('b, 'o, 'q, 'tm) client_context \<Rightarrow> unit option" where
  "Context_poll A self = (if WaitfreeArrayQueue_is_empty A (input_queue self) then None else Some ())"

end
