(* ===== verification/Context_Output.thy ===== *)
theory Context_Output
  imports Client_Context
begin

text \<open>
  The sending side of the context. Its invariant, \<open>out_inv\<close>, is about ownership: the busy buffers of
  the output pool are exactly those of the messages waiting in the set of outgoing messages and in
  the queue of upcoming ones, no two messages share a buffer, and every one of them holds its
  payload. So no buffer leaks and none is freed twice.

  The lemmas on the two sending loops of \<open>at_deadline\<close> give the bytes written: one frame per
  message, in order, which decodes to the message with its corrected send time.
\<close>

section \<open>Ownership\<close>

abbreviation msg_index :: "'o send_packet_builder \<Rightarrow> nat" where
  "msg_index m \<equiv> buf_index (spb_payload m)"

definition owned_ok ::
  "('b, 'o) flatbuffers \<Rightarrow> ('b, 'o) fb_view \<Rightarrow> 'b fb_pool \<Rightarrow> 'o send_packet_builder list \<Rightarrow> bool" where
  "owned_ok F V pool ms \<longleftrightarrow> fb_ib.wf_pool pool \<and> buffer_size pool = MAX_PACKET_SIZE \<and> (\<forall>m \<in> set ms. \<exists>p. builder_ok F V pool m p) \<and>
     distinct (map msg_index ms) \<and> pool_busy pool = msg_index ` set ms"

definition out_inv ::
  "('b, 'o) flatbuffers \<Rightarrow> ('b, 'o) fb_view \<Rightarrow> 'o send_packet_builder output_msg_set \<Rightarrow>
     'o send_packet_builder list \<Rightarrow> 'b fb_pool \<Rightarrow> bool" where
  "out_inv F V msg_set ups pool \<longleftrightarrow> wf_set msg_set \<and> length (slots msg_set) = num_buffers_of pool \<and>
     owned_ok F V pool (pending msg_set 0 @ ups)"

lemma owned_ok_perm:
  assumes "mset ms = mset ms'"
  shows "owned_ok F V pool ms \<longleftrightarrow> owned_ok F V pool ms'"
proof -
  have "set ms = set ms'" using assms by (rule mset_eq_setD)
  moreover have "mset (map msg_index ms) = mset (map msg_index ms')" using assms by simp
  then have "distinct (map msg_index ms) = distinct (map msg_index ms')"
    by (rule mset_eq_imp_distinct_iff)
  ultimately show ?thesis by (simp add: owned_ok_def)
qed

lemma builder_ok_same:
  assumes "same_except F i pool pool'" "msg_index m \<in> pool_busy pool" "msg_index m \<in> pool_busy pool'" "msg_index m \<noteq> i"
  shows "builder_ok F V pool' m p \<longleftrightarrow> builder_ok F V pool m p"
  using assms by (simp add: builder_ok_def same_except_def fb_ib.live_buffer_def)

lemma owned_ok_remove:
  assumes own: "owned_ok F V pool (m # ms)" and same: "same_except F (msg_index m) pool pool'"
    and busy: "pool_busy pool' = pool_busy pool - {msg_index m}"
  shows "owned_ok F V pool' ms"
    and "\<And>x p. x \<in> set ms \<Longrightarrow> builder_ok F V pool' x p \<longleftrightarrow> builder_ok F V pool x p"
proof -
  have notin: "msg_index m \<notin> msg_index ` set ms" using own by (simp add: owned_ok_def)
  have busy': "pool_busy pool' = msg_index ` set ms"
    using own busy notin by (auto simp: owned_ok_def)
  show iff: "builder_ok F V pool' x p \<longleftrightarrow> builder_ok F V pool x p" if "x \<in> set ms" for x p
  proof (rule builder_ok_same [OF same])
    show "msg_index x \<in> pool_busy pool'" using that busy' by simp
    then show "msg_index x \<in> pool_busy pool" using busy by simp
    have "msg_index x \<in> msg_index ` set ms" using that by (rule imageI)
    with notin show "msg_index x \<noteq> msg_index m" by metis
  qed
  have "\<forall>x \<in> set ms. \<exists>p. builder_ok F V pool' x p"
    using own iff by (simp add: owned_ok_def)
  then show "owned_ok F V pool' ms"
    using own same busy' by (simp add: owned_ok_def same_except_def)
qed

text \<open>
  A message built in a buffer just allocated joins the others.
\<close>

lemma owned_ok_add:
  assumes F: "fb_laws F V" and own: "owned_ok F V pool ms"
    and alloc: "BufferPool_allocate_buffer (FbBuffer F) pool sz = Some (Ok b, pool1)"
    and len: "length p \<le> fb_payload_limit"
  obtains m pool2 where "SendPacketBuilder_new F pool1 src dst t p b = Some (m, pool2)"
    "spb_src m = src" "spb_dst m = dst" "spb_send_time m = t" "spb_payload m = b"
    "builder_ok F V pool2 m p" "owned_ok F V pool2 (m # ms)" "num_buffers_of pool2 = num_buffers_of pool"
    "\<And>x q. x \<in> set ms \<Longrightarrow> builder_ok F V pool2 x q \<longleftrightarrow> builder_ok F V pool x q"
    "buffer_size pool2 = buffer_size pool"
proof -
  have wf: "fb_ib.wf_pool pool" using own by (simp add: owned_ok_def)
  note a = fb_allocate [OF wf alloc]
  obtain c where c: "Buffer_deref (FbBuffer F) pool1 b = Some c" "fv_fresh V c" using a(5) [OF F] by blast
  have busy1: "buf_index b \<in> pool_busy pool1" using a(3) by simp
  obtain off pool2 where n: "SendPacketBuilder_new F pool1 src dst t p b = Some (\<lparr>spb_src = src, spb_dst = dst,
       spb_send_time = t, spb_payload = b, spb_payload_offset = off\<rparr>, pool2)"
    "buffer_busy pool2 = buffer_busy pool1" "same_except F (buf_index b) pool1 pool2"
    "builder_ok F V pool2 \<lparr>spb_src = src, spb_dst = dst,
       spb_send_time = t, spb_payload = b, spb_payload_offset = off\<rparr> p"
    by (rule SendPacketBuilder_new_ok [OF F a(1) busy1 c len])
  have same: "same_except F (buf_index b) pool pool2"
    by (rule same_except_trans [OF a(4) n(3)]) (use a(3) in auto)
  have iff: "builder_ok F V pool2 x q \<longleftrightarrow> builder_ok F V pool x q" if "x \<in> set ms" for x q
  proof (rule builder_ok_same [OF same])
    show "msg_index x \<in> pool_busy pool" using own that by (simp add: owned_ok_def)
    then show "msg_index x \<in> pool_busy pool2" "msg_index x \<noteq> buf_index b" using a(2,3) n(2) by auto
  qed
  let ?m = "\<lparr>spb_src = src, spb_dst = dst, spb_send_time = t, spb_payload = b, spb_payload_offset = off\<rparr>"
  have "\<exists>q. builder_ok F V pool2 x q" if "x \<in> set ms" for x
    using own that iff [OF that] by (simp add: owned_ok_def)
  then have "\<forall>x \<in> set (?m # ms). \<exists>q. builder_ok F V pool2 x q"
    using n(4) by (simp only: set_simps ball_simps) blast
  moreover have "distinct (map msg_index (?m # ms))" "pool_busy pool2 = msg_index ` set (?m # ms)"
    using own a(2,3) n(2) by (auto simp: owned_ok_def)
  moreover have "fb_ib.wf_pool pool2" "buffer_size pool2 = MAX_PACKET_SIZE"
    using own same by (simp_all add: owned_ok_def same_except_def)
  ultimately have "owned_ok F V pool2 (?m # ms)" by (simp only: owned_ok_def)
  then show ?thesis
    using n iff same by (intro that [of ?m pool2]) (simp_all add: same_except_def)
qed

section \<open>Sending one message\<close>

text \<open>The frame of message \<open>m\<close> with send time \<open>t\<close>, its payload taken from the pool.\<close>

definition msg_frame ::
  "('b, 'o) flatbuffers \<Rightarrow> ('b, 'o) fb_view \<Rightarrow> 'b fb_pool \<Rightarrow> 'o send_packet_builder \<Rightarrow> duration \<Rightarrow> bytes \<Rightarrow> bool" where
  "msg_frame F V pool m t fr \<longleftrightarrow>
     (\<exists>p. builder_ok F V pool m p \<and> to_frame F fr (send_packet_msg (spb_src m) (spb_dst m) t p))"

text \<open>A send leaves the receiving side of the connector alone.\<close>

definition same_input :: "'b unix_connector \<Rightarrow> 'b unix_connector \<Rightarrow> bool" where
  "same_input c c' \<longleftrightarrow> input_buffer_pool c' = input_buffer_pool c \<and> rx (actor c') = rx (actor c)"

lemma write_all_rx: "write_all s bs = (r, s') \<Longrightarrow> rx s' = rx s"
  by (auto simp: write_all_def split: list.splits option.splits)

lemma write_all_no_fault:
  assumes "write_all s bs = (r, s')" "wr_faults s = []"
  shows "r = Ok () \<and> tx s' = tx s @ bs \<and> wr_faults s' = []"
  using assms by (auto simp: write_all_def)

lemma send_message_ok:
  assumes F: "fb_laws F V" and own: "owned_ok F V pool (m # ms)"
  obtains r conn' pool' fr where "send_message F pool conn m t = Some (r, conn', pool')"
    "msg_frame F V pool m t fr" "write_all (actor conn) fr = (r, actor conn')" "same_input conn conn'"
    "owned_ok F V pool' ms" "num_buffers_of pool' = num_buffers_of pool"
    "\<forall>x \<in> set ms. \<forall>p. builder_ok F V pool' x p \<longleftrightarrow> builder_ok F V pool x p"
proof -
  from own obtain p where p: "builder_ok F V pool m p" and wf: "fb_ib.wf_pool pool" by (auto simp: owned_ok_def)
  obtain pool1 b fr where f: "SendPacketBuilder_finish F pool m t = Some (\<lparr>sp_inner = spb_payload m\<rparr>, pool1)"
    "buffer_busy pool1 = buffer_busy pool" "same_except F (msg_index m) pool pool1"
    "Buffer_deref (FbBuffer F) pool1 (spb_payload m) = Some b" "fb_finished_data F b = Some fr"
    "to_frame F fr (send_packet_msg (spb_src m) (spb_dst m) t p)"
    by (rule SendPacketBuilder_finish_ok [OF F wf p])
  have busy: "msg_index m \<in> pool_busy pool1" using p f(2) by (simp add: builder_ok_def fb_ib.live_buffer_def)
  obtain r w where w: "write_all (actor conn) fr = (r, w)" by fastforce
  obtain pool2 where s: "MsgOut_send F pool1 (SendPacket \<lparr>sp_inner = spb_payload m\<rparr>) (actor conn)
      (fb_reset F (scratch_builder conn)) = Some (r, w, fb_reset F (scratch_builder conn), pool2)"
    "Buffer_drop pool1 (spb_payload m) = Some pool2"
    using MsgOut_send_packet [of F pool1 "\<lparr>sp_inner = spb_payload m\<rparr>" b fr "actor conn" r w] f(4,5) busy w
    by auto
  note d = Buffer_dropD [OF s(2)]
  have wf1: "fb_ib.wf_pool pool1" using f(3) by (simp add: same_except_def)
  have same: "same_except F (msg_index m) pool pool2"
    by (rule same_except_trans [OF f(3) same_except_drop [OF wf1 s(2)]]) (use f(2) in auto)
  have busy2: "pool_busy pool2 = pool_busy pool - {msg_index m}" using d(1) f(2) by simp
  show ?thesis
  proof (rule that)
    show "send_message F pool conn m t =
        Some (r, conn\<lparr>actor := w, scratch_builder := fb_reset F (scratch_builder conn)\<rparr>, pool2)"
      using f(1) s(1) by (simp add: send_message_def UnixConnector_send_def)
    show "msg_frame F V pool m t fr" using p f(6) by (auto simp: msg_frame_def)
    show "owned_ok F V pool2 ms" by (rule owned_ok_remove(1) [OF own same busy2])
    show "\<forall>x \<in> set ms. \<forall>p. builder_ok F V pool2 x p \<longleftrightarrow> builder_ok F V pool x p"
      using owned_ok_remove(2) [OF own same busy2] by blast
    show "num_buffers_of pool2 = num_buffers_of pool" using same by (simp add: same_except_def)
  qed (use w write_all_rx [OF w] in \<open>simp_all add: same_input_def\<close>)
qed

section \<open>The sending loops\<close>

text \<open>
  The messages a deadline sends, with their send times, and whether it gets to the end: it stops at
  the first message beyond the current deadline.
\<close>

fun schedule ::
  "duration \<Rightarrow> duration \<Rightarrow> 'o send_packet_builder list \<Rightarrow> ('o send_packet_builder \<times> duration) list \<times> bool" where
  "schedule prev cur [] = ([], True)"
| "schedule prev cur (m # ms) =
     (case clamp_send_time prev cur (spb_send_time m) of
        None \<Rightarrow> ([], False)
      | Some t \<Rightarrow> ((m, t) # fst (schedule prev cur ms), snd (schedule prev cur ms)))"

lemma schedule_set: "(m, t) \<in> set (fst (schedule prev cur ms)) \<Longrightarrow> m \<in> set ms"
  by (induction ms) (auto split: option.splits)

lemma clamp_bounds:
  assumes "clamp_send_time prev cur t = Some t'" "prev \<le> cur"
  shows "prev \<le> t'" "t' \<le> cur" "t \<le> t'" "prev \<le> t \<Longrightarrow> t' = t"
  using assms by (auto simp: clamp_send_time_def split: if_splits)

lemma schedule_bounds:
  assumes "(m, t) \<in> set (fst (schedule prev cur ms))" "prev \<le> cur"
  shows "prev \<le> t \<and> t \<le> cur"
  using assms by (induction ms) (auto dest: clamp_bounds split: option.splits)

text \<open>The frames of \<open>xs\<close>, one each, in order, are what was written.\<close>

definition frames_written ::
  "('b, 'o) flatbuffers \<Rightarrow> ('b, 'o) fb_view \<Rightarrow> 'b fb_pool \<Rightarrow> 'b unix_connector \<Rightarrow> 'b unix_connector \<Rightarrow>
     ('o send_packet_builder \<times> duration) list \<Rightarrow> bool" where
  "frames_written F V pool c c' xs \<longleftrightarrow> wr_faults (actor c') = [] \<and>
     (\<exists>frs. list_all2 (\<lambda>(m, t). msg_frame F V pool m t) xs frs \<and> tx (actor c') = tx (actor c) @ concat frs)"

lemma frames_written_Nil: "wr_faults (actor c) = [] \<Longrightarrow> frames_written F V pool c c []"
  by (simp add: frames_written_def)

lemma frames_written_Cons:
  assumes fr: "msg_frame F V pool m t fr" "write_all (actor c) fr = (r, actor c1)" "wr_faults (actor c) = []"
    and rest: "frames_written F V pool1 c1 c2 xs"
    and same: "\<And>x t p. (x, t) \<in> set xs \<Longrightarrow> builder_ok F V pool1 x p \<longleftrightarrow> builder_ok F V pool x p"
  shows "frames_written F V pool c c2 ((m, t) # xs)"
proof -
  from rest obtain frs where frs: "list_all2 (\<lambda>(m, t). msg_frame F V pool1 m t) xs frs"
    "tx (actor c2) = tx (actor c1) @ concat frs" "wr_faults (actor c2) = []"
    by (auto simp: frames_written_def)
  have "list_all2 (\<lambda>(m, t). msg_frame F V pool m t) xs frs"
    using frs(1) by (rule list.rel_mono_strong) (auto simp: msg_frame_def same)
  moreover have "tx (actor c1) = tx (actor c) @ fr" using write_all_no_fault [OF fr(2,3)] by simp
  ultimately show ?thesis
    using fr(1) frs(2,3) unfolding frames_written_def by (intro conjI exI [of _ "fr # frs"]) simp_all
qed

lemma pending_subset: "set (pending s i) \<subseteq> set (pending s 0)"
proof -
  have "slots s = take i (slots s) @ drop i (slots s)" by simp
  then have "pending s 0 = List.map_filter id (take i (slots s)) @ pending s i"
    unfolding pending_def by (metis drop0 map_filter_append)
  then show ?thesis by simp
qed

text \<open>
  The first loop, from position \<open>i\<close> of the drain: it does not panic, it keeps the invariant whatever
  the socket does, and when writes succeed it writes the frames of \<open>schedule\<close>.
\<close>

definition outgoing_post where
  "outgoing_post F V prev cur s i ups pool c go s' pool' c' \<longleftrightarrow>
     out_inv F V s' ups pool' \<and> same_input c c' \<and> num_buffers_of pool' = num_buffers_of pool \<and>
     (\<forall>x \<in> set ups. \<forall>p. builder_ok F V pool' x p \<longleftrightarrow> builder_ok F V pool x p) \<and>
     (go \<longrightarrow> mset (pending s 0) = mset (pending s i) + mset (pending s' 0)) \<and>
     (wr_faults (actor c) = [] \<longrightarrow> go = snd (schedule prev cur (pending s i)) \<and>
        frames_written F V pool c c' (fst (schedule prev cur (pending s i))))"

lemma outgoing_stop:
  assumes own: "owned_ok F V pool (m # pending s1 0 @ ups)" and s1: "wf_set s1" "length (slots s1) = num_buffers_of pool"
    and p: "pending s i = m # ms" and late: "clamp_send_time prev cur (spb_send_time m) = None"
  obtains pool' where "Buffer_drop pool (spb_payload m) = Some pool'"
    "outgoing_post F V prev cur s i ups pool c False s1 pool' c"
proof -
  have wf: "fb_ib.wf_pool pool" and "\<exists>p. builder_ok F V pool m p" using own by (auto simp: owned_ok_def)
  then have "msg_index m < num_buffers_of pool"
    by (auto simp: builder_ok_def fb_ib.live_buffer_def intro: busy_set_bound)
  then obtain pool' where d: "Buffer_drop pool (spb_payload m) = Some pool'"
    using Buffer_drop_Some by blast
  note same = same_except_drop [OF wf d, of F] and dd = Buffer_dropD [OF d]
  have "owned_ok F V pool' (pending s1 0 @ ups)" by (rule owned_ok_remove(1) [OF own same dd(1)])
  moreover have "builder_ok F V pool' x p \<longleftrightarrow> builder_ok F V pool x p" if "x \<in> set ups" for x p
    using owned_ok_remove(2) [OF own same dd(1)] that by simp
  ultimately show ?thesis
    using that [OF d] s1 dd p late
    by (simp add: outgoing_post_def out_inv_def same_input_def frames_written_Nil)
qed

lemma outgoing_step:
  assumes own: "owned_ok F V pool (m # pending s1 0 @ ups)" and F: "fb_laws F V"
    and s1: "wf_set s1" "length (slots s1) = num_buffers_of pool" "pending s1 j = ms"
    and ms: "mset (pending s 0) = add_mset m (mset (pending s1 0))" "pending s i = m # ms"
    and t: "clamp_send_time prev cur (spb_send_time m) = Some t"
    and rest: "\<And>pool1 c1. out_inv F V s1 ups pool1 \<Longrightarrow>
      \<exists>go s' pool' c'. send_outgoing F prev cur s1 j pool1 c1 = Some (go, s', pool', c') \<and>
        outgoing_post F V prev cur s1 j ups pool1 c1 go s' pool' c'"
  shows "\<exists>go s' pool' c'. (case send_message F pool c m t of
      None \<Rightarrow> None
    | Some (Inl _, c1, pool1) \<Rightarrow> Some (False, s1, pool1, c1)
    | Some (Inr _, c1, pool1) \<Rightarrow> send_outgoing F prev cur s1 j pool1 c1) = Some (go, s', pool', c') \<and>
      outgoing_post F V prev cur s i ups pool c go s' pool' c'"
proof -
  obtain r c1 pool1 fr where sm: "send_message F pool c m t = Some (r, c1, pool1)"
    and fr: "msg_frame F V pool m t fr" "write_all (actor c) fr = (r, actor c1)" and si: "same_input c c1"
    and own1: "owned_ok F V pool1 (pending s1 0 @ ups)" "num_buffers_of pool1 = num_buffers_of pool"
    and iff: "\<forall>x \<in> set (pending s1 0 @ ups). \<forall>p. builder_ok F V pool1 x p \<longleftrightarrow> builder_ok F V pool x p"
    by (rule send_message_ok [OF F own])
  have inv1: "out_inv F V s1 ups pool1" using own1 s1 by (simp add: out_inv_def)
  show ?thesis
  proof (cases r)
    case (Inl e)
    then have "wr_faults (actor c) \<noteq> []" using write_all_no_fault [OF fr(2)] by auto
    with inv1 si own1(2) iff have "outgoing_post F V prev cur s i ups pool c False s1 pool1 c1"
      by (simp add: outgoing_post_def)
    with Inl sm show ?thesis by auto
  next
    case (Inr u)
    obtain go s' pool' c' where g: "send_outgoing F prev cur s1 j pool1 c1 = Some (go, s', pool', c')"
      and post: "outgoing_post F V prev cur s1 j ups pool1 c1 go s' pool' c'"
      using rest [OF inv1] by blast
    have "frames_written F V pool c c' (fst (schedule prev cur (m # ms)))" "go = snd (schedule prev cur (m # ms))"
      if nf: "wr_faults (actor c) = []"
    proof -
      have nf1: "wr_faults (actor c1) = []" using write_all_no_fault [OF fr(2) nf] by simp
      then show "go = snd (schedule prev cur (m # ms))"
        using post t s1(3) by (simp add: outgoing_post_def)
      have "frames_written F V pool c c' ((m, t) # fst (schedule prev cur ms))"
      proof (rule frames_written_Cons [OF fr nf])
        show "frames_written F V pool1 c1 c' (fst (schedule prev cur ms))"
          using post nf1 s1(3) by (simp add: outgoing_post_def)
        show "builder_ok F V pool1 x p \<longleftrightarrow> builder_ok F V pool x p"
          if "(x, u) \<in> set (fst (schedule prev cur ms))" for x u p
          using iff schedule_set [OF that] pending_subset [of s1 j] s1(3) by auto
      qed
      then show "frames_written F V pool c c' (fst (schedule prev cur (m # ms)))"
        using t by simp
    qed
    moreover have "builder_ok F V pool' x p \<longleftrightarrow> builder_ok F V pool x p" if "x \<in> set ups" for x p
      using post iff that by (simp add: outgoing_post_def)
    ultimately have "outgoing_post F V prev cur s i ups pool c go s' pool' c'"
      using post si ms s1(3) own1(2) by (auto simp: outgoing_post_def same_input_def)
    with g Inr sm show ?thesis by simp
  qed
qed

lemma outgoing_loop:
  assumes F: "fb_laws F V" and inv: "out_inv F V s ups pool"
  shows "\<exists>go s' pool' c'. send_outgoing F prev cur s i pool c = Some (go, s', pool', c') \<and>
    outgoing_post F V prev cur s i ups pool c go s' pool' c'"
  using inv
proof (induction "pending s i" arbitrary: s i pool c)
  case Nil
  then have "OutputMsgDrain_next s i = Some (None, i, s)"
    by (intro drain_next_None) (simp_all add: out_inv_def)
  with Nil show ?case
    by (auto simp: send_outgoing.simps [of _ _ _ s] outgoing_post_def same_input_def frames_written_Nil)
next
  case (Cons m ms)
  have wf: "wf_set s" using Cons.prems by (simp add: out_inv_def)
  obtain j s1 where n: "OutputMsgDrain_next s i = Some (Some m, Suc j, s1)" "wf_set s1" "pending s1 (Suc j) = ms"
    "mset (pending s 0) = add_mset m (mset (pending s1 0))" "length (slots s1) = length (slots s)"
    by (rule drain_next_Some [OF wf Cons.hyps(2) [symmetric]])
  have "mset (pending s 0 @ ups) = mset (m # pending s1 0 @ ups)" using n(4) by simp
  from owned_ok_perm [OF this, of F V pool] have own: "owned_ok F V pool (m # pending s1 0 @ ups)"
    using Cons.prems by (simp add: out_inv_def)
  have len: "length (slots s1) = num_buffers_of pool" using Cons.prems n(5) by (simp add: out_inv_def)
  show ?case
  proof (cases "clamp_send_time prev cur (spb_send_time m)")
    case None
    obtain pool' where "Buffer_drop pool (spb_payload m) = Some pool'"
      "outgoing_post F V prev cur s i ups pool c False s1 pool' c"
      by (rule outgoing_stop [OF own n(2) len Cons.hyps(2) [symmetric] None])
    with n(1) None show ?thesis by (auto simp: send_outgoing.simps [of _ _ _ s])
  next
    case (Some t)
    have rest: "\<exists>go s' pool' c'. send_outgoing F prev cur s1 (Suc j) pool1 c1 = Some (go, s', pool', c') \<and>
        outgoing_post F V prev cur s1 (Suc j) ups pool1 c1 go s' pool' c'" if "out_inv F V s1 ups pool1" for pool1 c1
      by (rule Cons.hyps(1) [OF n(3) [symmetric] that])
    show ?thesis
      using outgoing_step [OF own F n(2) len n(3,4) Cons.hyps(2) [symmetric] Some rest, of c] n(1) Some
      by (simp add: send_outgoing.simps [of _ _ _ s])
  qed
qed

text \<open>
  The second loop, on the messages set aside. \<open>due\<close> are those it sends, with the times they have.
\<close>

definition due :: "duration \<Rightarrow> 'o send_packet_builder list \<Rightarrow> ('o send_packet_builder \<times> duration) list" where
  "due cur ups = map (\<lambda>m. (m, spb_send_time m)) (takeWhile (\<lambda>m. spb_send_time m \<le> cur) ups)"

definition upcoming_post where
  "upcoming_post F V cur s ups pool c go ups' pool' c' \<longleftrightarrow>
     out_inv F V s ups' pool' \<and> same_input c c' \<and> num_buffers_of pool' = num_buffers_of pool \<and>
     (go \<longrightarrow> ups' = dropWhile (\<lambda>m. spb_send_time m \<le> cur) ups) \<and>
     (\<exists>k. ups' = drop k ups) \<and>
     (\<forall>x \<in> set ups'. \<forall>p. builder_ok F V pool' x p \<longleftrightarrow> builder_ok F V pool x p) \<and>
     (wr_faults (actor c) = [] \<longrightarrow> go \<and> frames_written F V pool c c' (due cur ups))"

lemma upcoming_stop:
  assumes "out_inv F V s (m # ms) pool" "cur < spb_send_time m"
  shows "upcoming_post F V cur s (m # ms) pool c True (m # ms) pool c"
proof -
  have "\<exists>k. m # ms = drop k (m # ms)" by (rule exI [of _ 0]) simp
  with assms show ?thesis
    by (simp add: upcoming_post_def same_input_def due_def frames_written_Nil)
qed

lemma upcoming_loop:
  assumes F: "fb_laws F V" and inv: "out_inv F V s ups pool"
  shows "\<exists>go ups' pool' c'. send_upcoming F cur ups pool c = Some (go, ups', pool', c') \<and>
    upcoming_post F V cur s ups pool c go ups' pool' c'"
  using inv
proof (induction ups arbitrary: pool c)
  case Nil
  then show ?case by (auto simp: upcoming_post_def same_input_def due_def frames_written_Nil)
next
  case (Cons m ms)
  show ?case
  proof (cases "spb_send_time m \<le> cur")
    case False
    then have "send_upcoming F cur (m # ms) pool c = Some (True, m # ms, pool, c)" by simp
    moreover have "upcoming_post F V cur s (m # ms) pool c True (m # ms) pool c"
      by (rule upcoming_stop [OF Cons.prems]) (use False in simp)
    ultimately show ?thesis by blast
  next
    case True
    have "mset (pending s 0 @ m # ms) = mset (m # pending s 0 @ ms)" by simp
    from owned_ok_perm [OF this, of F V pool] have own: "owned_ok F V pool (m # pending s 0 @ ms)"
      using Cons.prems by (simp add: out_inv_def)
    obtain r c1 pool1 fr where sm: "send_message F pool c m (spb_send_time m) = Some (r, c1, pool1)"
      and fr: "msg_frame F V pool m (spb_send_time m) fr" "write_all (actor c) fr = (r, actor c1)"
      and si: "same_input c c1"
      and own1: "owned_ok F V pool1 (pending s 0 @ ms)" "num_buffers_of pool1 = num_buffers_of pool"
      and iff: "\<forall>x \<in> set (pending s 0 @ ms). \<forall>p. builder_ok F V pool1 x p \<longleftrightarrow> builder_ok F V pool x p"
      by (rule send_message_ok [OF F own])
    have inv1: "out_inv F V s ms pool1" using Cons.prems own1 by (simp add: out_inv_def)
    have k: "\<exists>k. drop j ms = drop k (m # ms)" for j by (rule exI [of _ "Suc j"]) simp
    show ?thesis
    proof (cases r)
      case (Inl e)
      then have "wr_faults (actor c) \<noteq> []" using write_all_no_fault [OF fr(2)] by auto
      with inv1 si own1(2) iff k [of 0] have "upcoming_post F V cur s (m # ms) pool c False ms pool1 c1"
        by (simp add: upcoming_post_def)
      with Inl sm True show ?thesis by auto
    next
      case (Inr u)
      obtain go ups' pool' c' where g: "send_upcoming F cur ms pool1 c1 = Some (go, ups', pool', c')"
        and post: "upcoming_post F V cur s ms pool1 c1 go ups' pool' c'"
        using Cons.IH [OF inv1] by blast
      have "go \<and> frames_written F V pool c c' (due cur (m # ms))" if nf: "wr_faults (actor c) = []"
      proof -
        have "wr_faults (actor c1) = []" using write_all_no_fault [OF fr(2) nf] by simp
        with post have "go" "frames_written F V pool1 c1 c' (due cur ms)" by (simp_all add: upcoming_post_def)
        moreover have "builder_ok F V pool1 x p \<longleftrightarrow> builder_ok F V pool x p" if "(x, u) \<in> set (due cur ms)" for x u p
          using iff that by (auto simp: due_def dest: set_takeWhileD)
        ultimately have "frames_written F V pool c c' ((m, spb_send_time m) # due cur ms)"
          by (intro frames_written_Cons [OF fr nf])
        with \<open>go\<close> True show ?thesis by (simp add: due_def)
      qed
      moreover obtain j where j: "ups' = drop j ms" using post by (auto simp: upcoming_post_def)
      moreover have "\<forall>x \<in> set ups'. \<forall>p. builder_ok F V pool' x p \<longleftrightarrow> builder_ok F V pool x p"
        using post iff j by (auto simp: upcoming_post_def dest!: in_set_dropD)
      ultimately have "upcoming_post F V cur s (m # ms) pool c go ups' pool' c'"
        using post si own1(2) True k [of j] by (simp add: upcoming_post_def same_input_def)
      with g Inr sm True show ?thesis by simp
    qed
  qed
qed

text \<open>The last message of the sending side.\<close>

lemma send_at_deadline:
  assumes F: "fb_laws F V"
  obtains r c' fr where "UnixConnector_send F pool c AtDeadline = Some (r, c', pool)"
    "to_frame F fr at_deadline_msg" "write_all (actor c) fr = (r, actor c')" "same_input c c'"
proof -
  obtain fr where fr: "fb_finished_data F (create_at_deadline F (fb_reset F (scratch_builder c))) = Some fr"
    "to_frame F fr at_deadline_msg"
    using create_at_deadline_frame [OF F fb_resetD [OF F]] by blast
  obtain r w where w: "write_all (actor c) fr = (r, w)" by fastforce
  show ?thesis
    by (rule that [of r "c\<lparr>actor := w, scratch_builder := create_at_deadline F (fb_reset F (scratch_builder c))\<rparr>" fr])
       (use fr w write_all_rx [OF w] in \<open>simp_all add: UnixConnector_send_def MsgOut_send_def same_input_def\<close>)
qed

end
