(* ===== verification/Context_Input.thy ===== *)
theory Context_Input
  imports Client_Context
begin

text \<open>
  The receiving side of the context. Its invariant, \<open>in_inv\<close>: the busy buffers of the input pool are
  exactly those of the packets in the input queue, no two share one, and every queued packet can be
  read. Since the queue holds as many packets as the pool has buffers, a packet that could be
  received can always be queued.
\<close>

abbreviation pkt_index :: "deliver_packet \<Rightarrow> nat" where
  "pkt_index d \<equiv> buf_index (dp_inner d)"

definition in_inv ::
  "('b, 'o) flatbuffers \<Rightarrow> ('q \<Rightarrow> deliver_packet list) \<Rightarrow> ('q \<Rightarrow> nat) \<Rightarrow> 'b unix_connector \<Rightarrow> 'q \<Rightarrow> bool" where
  "in_inv F items cap conn q \<longleftrightarrow> connector_ok conn \<and> num_buffers_of (input_buffer_pool conn) = cap q \<and>
     buffer_size (input_buffer_pool conn) = MAX_PACKET_SIZE \<and>
     (\<forall>d \<in> set (items q). packet_held F conn d) \<and> distinct (map pkt_index (items q)) \<and>
     held_buffers conn = pkt_index ` set (items q)"

lemma in_inv_count:
  assumes "in_inv F items cap conn q"
  shows "card (held_buffers conn) = length (items q)"
proof -
  have "card (set (map pkt_index (items q))) = length (map pkt_index (items q))"
    using assms by (intro distinct_card) (simp add: in_inv_def)
  then show ?thesis using assms by (simp add: in_inv_def)
qed

lemma in_inv_room:
  assumes "in_inv F items cap conn q"
  shows "length (items q) \<le> cap q" "length (items q) = cap q \<longleftrightarrow> held_buffers conn = {..<cap q}"
proof -
  have n: "num_buffers_of (input_buffer_pool conn) = cap q" using assms by (simp add: in_inv_def)
  have "held_buffers conn \<subseteq> {..<num_buffers_of (input_buffer_pool conn)}" by (auto intro: busy_set_bound)
  then have "card (held_buffers conn) \<le> cap q" using n by (metis card_lessThan card_mono finite_lessThan)
  then show "length (items q) \<le> cap q" using in_inv_count [OF assms] by simp
  then show "length (items q) = cap q \<longleftrightarrow> held_buffers conn = {..<cap q}"
    using in_inv_count [OF assms] n busy_set_full_iff [of "buffer_busy (input_buffer_pool conn)"] by auto
qed

section \<open>One message\<close>

text \<open>A message other than a packet changes nothing on the receiving side.\<close>

lemma recv_other_inv:
  assumes inv: "in_inv F items cap conn q" and r: "UnixConnector_recv F conn = Some (r, conn')"
    and np: "\<forall>d. r \<noteq> Ok (DeliverPacket d)"
  shows "in_inv F items cap conn' q"
proof -
  have ok: "connector_ok conn" using inv by (simp add: in_inv_def)
  note post = UnixConnector_recvD [OF ok r]
  have "held_buffers conn' = held_buffers conn" by (rule unix.recv_other [OF ok r np])
  moreover have "\<forall>d \<in> set (items q). packet_held F conn' d"
    using inv unix.recv_keeps [OF ok r] by (simp add: in_inv_def)
  ultimately show ?thesis
    using inv post by (simp add: in_inv_def connector_ok_def recv_post_def)
qed

text \<open>A packet always finds a place in the queue.\<close>

lemma recv_packet_inv:
  assumes A: "array_queue_laws A items cap" and inv: "in_inv F items cap conn q"
    and r: "UnixConnector_recv F conn = Some (Ok (DeliverPacket d), conn')"
  obtains q' where "WaitfreeArrayQueue_push A q d = (Ok (), q')" "items q' = items q @ [d]"
    "in_inv F items cap conn' q'" "packet_held F conn' d"
proof -
  have ok: "connector_ok conn" using inv by (simp add: in_inv_def)
  note post = UnixConnector_recvD [OF ok r]
  note p = unix.recv_packet [OF ok r]
  have "pkt_index d < num_buffers_of (input_buffer_pool conn')"
    using p by (auto intro: busy_set_bound)
  then have "pkt_index d < cap q" using post inv by (simp add: recv_post_def in_inv_def)
  then have "held_buffers conn \<noteq> {..<cap q}" using p by auto
  then have "length (items q) < cap q" using in_inv_room [OF inv] by auto
  then obtain q' where q': "WaitfreeArrayQueue_push A q d = (Ok (), q')" "items q' = items q @ [d]" "cap q' = cap q"
    by (rule queue_push_room [OF A])
  have "\<forall>x \<in> set (items q'). packet_held F conn' x"
    using inv p unix.recv_keeps [OF ok r] q'(2) by (auto simp: in_inv_def)
  moreover have "distinct (map pkt_index (items q'))" "held_buffers conn' = pkt_index ` set (items q')"
    using inv p q'(2) by (auto simp: in_inv_def)
  ultimately have "in_inv F items cap conn' q'"
    using inv post q'(3) by (simp add: in_inv_def connector_ok_def recv_post_def)
  with q' p that show ?thesis by blast
qed

lemma packet_ok_accessors:
  assumes "packet_ok F pool d"
  obtains m p where "DeliverPacket_src F pool d = Some (pm_src m)" "DeliverPacket_dst F pool d = Some (pm_dst m)"
    "DeliverPacket_payload F pool d = Some p" "DeliverPacket_deserialize F pool d = Some (Some m, Some p)"
  using assms that
  by (auto simp: packet_ok_def DeliverPacket_src_def DeliverPacket_dst_def DeliverPacket_payload_def)

lemma handle_packet:
  assumes "packet_held F (connector ctx) d" "WaitfreeArrayQueue_push A (input_queue ctx) d = (Ok (), q')"
  shows "Context_handle_actor_msg F A ctx (DeliverPacket d) = Some (None, ctx\<lparr>input_queue := q'\<rparr>)"
proof -
  obtain m :: packet_meta and p where "DeliverPacket_src F (in_pool ctx) d = Some (pm_src m)"
    "DeliverPacket_payload F (in_pool ctx) d = Some p"
    using assms(1) by (rule packet_ok_accessors) blast
  with assms(2) show ?thesis by (simp add: Context_handle_actor_msg_def)
qed

section \<open>The receiving loop\<close>

text \<open>
  What the loop may change of the context: the queue, and of the connector the stream's input and the
  input pool.
\<close>

definition received ::
  "('b, 'o, 'q, 'tm) client_context \<Rightarrow> ('b, 'o, 'q, 'tm) client_context \<Rightarrow> bool" where
  "received ctx ctx' \<longleftrightarrow> address ctx' = address ctx \<and> timer_context ctx' = timer_context ctx \<and>
     output_buffer_pool ctx' = output_buffer_pool ctx \<and> outgoing_messages ctx' = outgoing_messages ctx \<and>
     upcoming_messages ctx' = upcoming_messages ctx \<and> start_once ctx' = start_once ctx \<and>
     callbacks ctx' = callbacks ctx \<and>
     tx (actor (connector ctx')) = tx (actor (connector ctx)) \<and>
     wr_faults (actor (connector ctx')) = wr_faults (actor (connector ctx)) \<and>
     scratch_builder (connector ctx') = scratch_builder (connector ctx)"

lemma received_trans: "received a b \<Longrightarrow> received b c \<Longrightarrow> received a c"
  by (simp add: received_def)

lemma recv_scratch: "UnixConnector_recv F c = Some (r, c') \<Longrightarrow> scratch_builder c' = scratch_builder c"
  by (auto simp: UnixConnector_recv_def bind_eq_Some_conv)

lemma received_step:
  assumes "connector_ok (connector ctx)" "UnixConnector_recv F (connector ctx) = Some (r, conn')"
  shows "received ctx (ctx\<lparr>connector := conn', input_queue := q'\<rparr>)"
  using UnixConnector_recvD [OF assms] recv_scratch [OF assms(2)] by (simp add: received_def recv_post_def)

text \<open>
  The loop ends without panic, keeps the invariant, and appends what it received to the queue.
\<close>

lemma receive_loop:
  assumes A: "array_queue_laws A items cap" and inv: "in_inv F items cap (connector ctx) (input_queue ctx)"
  shows "\<exists>after ctx' ds. receive_messages F A ctx = Some (after, ctx') \<and> received ctx ctx' \<and>
    in_inv F items cap (connector ctx') (input_queue ctx') \<and> items (input_queue ctx') = items (input_queue ctx) @ ds"
  using inv
proof (induction "length (rx (actor (connector ctx)))" arbitrary: ctx rule: less_induct)
  case less
  let ?conn = "connector ctx"
  have ok: "connector_ok ?conn" using less.prems by (simp add: in_inv_def)
  obtain r conn' where r: "UnixConnector_recv F ?conn = Some (r, conn')" using unix.recv_defined [OF ok] by blast
  have rs: "received ctx (ctx\<lparr>connector := conn'\<rparr>)" using received_step [OF ok r, of "input_queue ctx"] by simp
  show ?case
  proof (cases "\<exists>d. r = Ok (DeliverPacket d)")
    case False
    have inv': "in_inv F items cap (connector (ctx\<lparr>connector := conn'\<rparr>)) (input_queue (ctx\<lparr>connector := conn'\<rparr>))"
      using recv_other_inv [OF less.prems r] False by simp
    have "\<exists>after. receive_messages F A ctx = Some (after, ctx\<lparr>connector := conn'\<rparr>)"
    proof (cases r)
      case (Inl e)
      with r show ?thesis by (simp add: receive_messages.simps [of F A ctx])
    next
      case (Inr m)
      with r False show ?thesis
        by (cases m) (simp_all add: receive_messages.simps [of F A ctx] Context_handle_actor_msg_def)
    qed
    then obtain after where "receive_messages F A ctx = Some (after, ctx\<lparr>connector := conn'\<rparr>)" by blast
    moreover have "items (input_queue (ctx\<lparr>connector := conn'\<rparr>)) = items (input_queue ctx) @ []" by simp
    ultimately show ?thesis using rs inv' by fastforce
  next
    case True
    then obtain d where d: "UnixConnector_recv F ?conn = Some (Ok (DeliverPacket d), conn')" using r by blast
    obtain q' where q': "WaitfreeArrayQueue_push A (input_queue ctx) d = (Ok (), q')"
      "items q' = items (input_queue ctx) @ [d]" "in_inv F items cap conn' q'" "packet_held F conn' d"
      by (rule recv_packet_inv [OF A less.prems d])
    let ?ctx = "ctx\<lparr>connector := conn', input_queue := q'\<rparr>"
    have h: "Context_handle_actor_msg F A (ctx\<lparr>connector := conn'\<rparr>) (DeliverPacket d) = Some (None, ?ctx)"
      using handle_packet [of F "ctx\<lparr>connector := conn'\<rparr>" d A q'] q'(1,4) by simp
    have lt: "length (rx (actor (connector ?ctx))) < length (rx (actor ?conn))"
      using UnixConnector_recv_progress [OF d] by simp
    have "in_inv F items cap (connector ?ctx) (input_queue ?ctx)" using q'(3) by simp
    from less.hyps [OF lt this] obtain after ctx' ds where ih: "receive_messages F A ?ctx = Some (after, ctx')"
      "received ?ctx ctx'" "in_inv F items cap (connector ctx') (input_queue ctx')"
      "items (input_queue ctx') = items (input_queue ?ctx) @ ds" by blast
    have "receive_messages F A ctx = Some (after, ctx')"
      using d h ih(1) by (simp add: receive_messages.simps [of F A ctx])
    moreover have "received ctx ctx'" by (rule received_trans [OF received_step [OF ok r] ih(2)])
    moreover have "items (input_queue ctx') = items (input_queue ctx) @ (d # ds)" using ih(4) q'(2) by simp
    ultimately show ?thesis using ih(3) by blast
  qed
qed

section \<open>The inbox\<close>

text \<open>
  What the queue holds, as the application sees it: source, destination and payload of each packet.
  Under the invariant every entry is defined.
\<close>

definition pkt_view ::
  "('b, 'o) flatbuffers \<Rightarrow> bytes_pool \<Rightarrow> deliver_packet \<Rightarrow> (in_addr_t \<times> in_addr_t \<times> bytes) option" where
  "pkt_view F pool d = do {
     (m, p) \<leftarrow> DeliverPacket_deserialize F pool d;
     m \<leftarrow> m;
     p \<leftarrow> p;
     Some (pm_src m, pm_dst m, p)
   }"

definition inbox ::
  "('b, 'o) flatbuffers \<Rightarrow> ('q \<Rightarrow> deliver_packet list) \<Rightarrow> ('b, 'o, 'q, 'tm) client_context \<Rightarrow>
     (in_addr_t \<times> in_addr_t \<times> bytes) option list" where
  "inbox F items ctx = map (pkt_view F (in_pool ctx)) (items (input_queue ctx))"

lemma pkt_view_accessors:
  assumes "pkt_view F pool d = Some (src, dst, p)"
  shows "DeliverPacket_src F pool d = Some src" "DeliverPacket_dst F pool d = Some dst"
    "DeliverPacket_payload F pool d = Some p"
  using assms
  by (auto simp: pkt_view_def DeliverPacket_src_def DeliverPacket_dst_def DeliverPacket_payload_def bind_eq_Some_conv)

lemma packet_ok_view:
  assumes "packet_ok F pool d"
  obtains src dst p where "pkt_view F pool d = Some (src, dst, p)"
  using assms by (auto simp: packet_ok_def pkt_view_def)

lemma pkt_view_keeps:
  assumes "keeps_live pool pool'" "packet_ok F pool d"
  shows "pkt_view F pool' d = pkt_view F pool d"
  using assms by (simp add: packet_ok_def keeps_live_def DeliverPacket_deserialize_def pkt_view_def)

lemma inbox_keeps:
  assumes "in_inv F items cap (connector ctx) q" "UnixConnector_recv F (connector ctx) = Some (r, conn')"
  shows "map (pkt_view F (input_buffer_pool conn')) (items q) = map (pkt_view F (in_pool ctx)) (items q)"
proof -
  have "keeps_live (in_pool ctx) (input_buffer_pool conn')"
    using UnixConnector_recvD [of "connector ctx" F r conn'] assms by (simp add: in_inv_def recv_post_def)
  with assms(1) show ?thesis by (simp add: in_inv_def pkt_view_keeps)
qed

text \<open>Taking the first packet out and dropping its buffer.\<close>

lemma in_inv_pop:
  assumes inv: "in_inv F items cap conn q" and q: "items q = d # ds" "items q' = ds" "cap q' = cap q"
  obtains pool' where "Buffer_drop (input_buffer_pool conn) (dp_inner d) = Some pool'"
    "in_inv F items cap (conn\<lparr>input_buffer_pool := pool'\<rparr>) q'"
    "map (pkt_view F pool') ds = map (pkt_view F (input_buffer_pool conn)) ds"
proof -
  let ?pool = "input_buffer_pool conn"
  have wf: "bytes_ib.wf_pool ?pool" and held: "packet_ok F ?pool d"
    using inv q(1) by (simp_all add: in_inv_def connector_ok_def)
  then have live: "bytes_ib.live_buffer ?pool (dp_inner d)" by (simp add: packet_ok_def)
  obtain pool' where d: "Buffer_drop ?pool (dp_inner d) = Some pool'" "bytes_ib.wf_pool pool'"
    and same: "\<And>b'. bytes_ib.live_buffer ?pool b' \<Longrightarrow> buf_index b' \<noteq> pkt_index d \<Longrightarrow>
       bytes_ib.live_buffer pool' b' \<and> Buffer_deref BytesBuffer pool' b' = Buffer_deref BytesBuffer ?pool b'"
    by (rule bytes_ib.drop_safe [OF wf live]) blast
  note dd = Buffer_dropD [OF d(1)]
  have "pkt_index d \<notin> pkt_index ` set ds" using inv q(1) by (simp add: in_inv_def)
  then have other: "packet_ok F ?pool x \<and> pkt_index x \<noteq> pkt_index d" if "x \<in> set ds" for x
    using inv q(1) that by (auto simp: in_inv_def rev_image_eqI)
  have keep: "packet_ok F pool' x" "pkt_view F pool' x = pkt_view F ?pool x" if "x \<in> set ds" for x
    using other [OF that] same [of "dp_inner x"]
    by (simp_all add: packet_ok_def pkt_view_def DeliverPacket_deserialize_def)
  have "held_buffers (conn\<lparr>input_buffer_pool := pool'\<rparr>) = pkt_index ` set ds"
    using inv q(1) dd(1) by (auto simp: in_inv_def)
  then have "in_inv F items cap (conn\<lparr>input_buffer_pool := pool'\<rparr>) q'"
    using inv q dd d(2) keep(1) by (simp add: in_inv_def connector_ok_def)
  with d(1) keep(2) that show ?thesis by simp
qed

text \<open>A packet received and dropped at once, as on a start that expects a deadline.\<close>

lemma recv_drop_inv:
  assumes inv: "in_inv F items cap conn q" and r: "UnixConnector_recv F conn = Some (Ok (DeliverPacket d), conn')"
  obtains pool' where "Buffer_drop (input_buffer_pool conn') (dp_inner d) = Some pool'"
    "in_inv F items cap (conn'\<lparr>input_buffer_pool := pool'\<rparr>) q"
    "map (pkt_view F pool') (items q) = map (pkt_view F (input_buffer_pool conn)) (items q)"
proof -
  have ok: "connector_ok conn" using inv by (simp add: in_inv_def)
  note post = UnixConnector_recvD [OF ok r, unfolded recv_post_def, simplified]
  have live: "bytes_ib.live_buffer (input_buffer_pool conn') (dp_inner d)"
    using unix.recv_packet [OF ok r] by (simp add: packet_ok_def)
  obtain pool' where d: "Buffer_drop (input_buffer_pool conn') (dp_inner d) = Some pool'"
    by (rule drop_live [OF live])
  note dd = Buffer_dropD [OF d]
  have keep: "keeps_live (input_buffer_pool conn) pool'"
    using post dd by (auto simp: keeps_live_def bytes_ib.live_buffer_def Buffer_deref_drop [OF d])
  have "bytes_ib.wf_pool (input_buffer_pool conn')" using post by blast
  then have "bytes_ib.wf_pool pool'" using dd by (simp add: bytes_ib.wf_pool_def)
  then have "in_inv F items cap (conn'\<lparr>input_buffer_pool := pool'\<rparr>) q"
    using inv post dd packet_ok_keeps [OF keep] by (auto simp: in_inv_def connector_ok_def)
  moreover have "map (pkt_view F pool') (items q) = map (pkt_view F (input_buffer_pool conn)) (items q)"
    using inv by (simp add: in_inv_def pkt_view_keeps [OF keep])
  ultimately show ?thesis using that d by blast
qed

text \<open>
  A stream that starts with the frames of packets and then that of a control message: the loop
  appends the packets to the inbox in order and returns what the control message says, provided one
  buffer is left for the control message itself.
\<close>

definition packet_frames ::
  "('b, 'o) flatbuffers \<Rightarrow> (in_addr_t \<times> in_addr_t \<times> bytes) list \<Rightarrow> bytes list \<Rightarrow> bool" where
  "packet_frames F pkts frs \<longleftrightarrow> list_all2 (\<lambda>(src, dst, p) fr.
     from_frame F fr (deliver_packet_msg src dst p) \<and> length fr \<le> MAX_PACKET_SIZE + 4) pkts frs"

definition control_frame :: "('b, 'o) flatbuffers \<Rightarrow> after_deadline \<Rightarrow> bytes \<Rightarrow> bool" where
  "control_frame F after fr \<longleftrightarrow> length fr \<le> MAX_PACKET_SIZE + 4 \<and>
     (case after of NextDeadline d \<Rightarrow> from_frame F fr (goto_deadline_msg d)
      | AfterEndSimulation \<Rightarrow> from_frame F fr end_simulation_msg)"

lemma UnixConnector_recv_packet:
  assumes F: "fb_laws F V" and inv: "in_inv F items cap conn q" and room: "length (items q) < cap q"
    and fr: "from_frame F fr (deliver_packet_msg src dst p)" "length fr \<le> MAX_PACKET_SIZE + 4"
    and s: "rx (actor conn) = fr @ rest"
  obtains d conn' where "UnixConnector_recv F conn = Some (Ok (DeliverPacket d), conn')"
    "pkt_view F (input_buffer_pool conn') d = Some (src, dst, p)" "rx (actor conn') = rest"
proof -
  let ?pool = "input_buffer_pool conn"
  have wf: "bytes_ib.wf_pool ?pool" "length fr \<le> buffer_size ?pool + 4"
    using inv fr(2) by (simp_all add: in_inv_def connector_ok_def)
  have "card (pool_busy ?pool) < num_buffers_of ?pool"
    using in_inv_count [OF inv] inv room by (simp add: in_inv_def)
  from recv_deliver_packet [OF F wf(1) this fr(1) wf(2) s] obtain b pool' where
    "MsgIn_recv F (actor conn) ?pool = Some (Ok (DeliverPacket \<lparr>dp_inner = b\<rparr>), (actor conn)\<lparr>rx := rest\<rparr>, pool')"
    "DeliverPacket_deserialize F pool' \<lparr>dp_inner = b\<rparr> = Some (Some \<lparr>pm_src = src, pm_dst = dst\<rparr>, Some p)"
    by blast
  then show ?thesis
    by (intro that [of "\<lparr>dp_inner = b\<rparr>"]) (auto simp: UnixConnector_recv_def pkt_view_def)
qed

lemma UnixConnector_recv_control:
  assumes F: "fb_laws F V" and inv: "in_inv F items cap conn q" and room: "length (items q) < cap q"
    and fr: "control_frame F after fr" and s: "rx (actor conn) = fr @ rest"
  obtains conn' where "UnixConnector_recv F conn = Some (Ok (case after of NextDeadline d \<Rightarrow> GoToDeadline d
      | AfterEndSimulation \<Rightarrow> EndSimulation), conn')" "rx (actor conn') = rest"
proof -
  let ?pool = "input_buffer_pool conn"
    and ?x = "case after of NextDeadline d \<Rightarrow> GoToDeadline d | AfterEndSimulation \<Rightarrow> EndSimulation"
  have wf: "bytes_ib.wf_pool ?pool" "length fr \<le> buffer_size ?pool + 4"
    using inv fr by (simp_all add: in_inv_def connector_ok_def control_frame_def)
  have card: "card (pool_busy ?pool) < num_buffers_of ?pool"
    using in_inv_count [OF inv] inv room by (simp add: in_inv_def)
  have "\<exists>m d. from_frame F fr m \<and> (m = goto_deadline_msg d \<and> ?x = GoToDeadline d \<or>
      m = end_simulation_msg \<and> ?x = EndSimulation)"
    using fr by (cases after) (auto simp: control_frame_def)
  then obtain m d where m: "from_frame F fr m" "m = goto_deadline_msg d \<and> ?x = GoToDeadline d \<or>
      m = end_simulation_msg \<and> ?x = EndSimulation" by blast
  from recv_control [OF F wf(1) card m(1) wf(2) s m(2)] obtain pool' where
    "MsgIn_recv F (actor conn) ?pool = Some (Ok ?x, (actor conn)\<lparr>rx := rest\<rparr>, pool')" by blast
  then show ?thesis
    by (intro that [of "conn\<lparr>actor := (actor conn)\<lparr>rx := rest\<rparr>, input_buffer_pool := pool'\<rparr>"])
       (auto simp: UnixConnector_recv_def)
qed

lemma receive_packet_step:
  assumes F: "fb_laws F V" and A: "array_queue_laws A items cap"
    and inv: "in_inv F items cap (connector ctx) (input_queue ctx)"
    and room: "length (items (input_queue ctx)) < cap (input_queue ctx)"
    and fr: "from_frame F fr (deliver_packet_msg src dst p)" "length fr \<le> MAX_PACKET_SIZE + 4"
    and s: "rx (actor (connector ctx)) = fr @ rest"
  obtains ctx' where "receive_messages F A ctx = receive_messages F A ctx'" "received ctx ctx'"
    "in_inv F items cap (connector ctx') (input_queue ctx')" "inbox F items ctx' = inbox F items ctx @ [Some (src, dst, p)]"
    "rx (actor (connector ctx')) = rest" "cap (input_queue ctx') = cap (input_queue ctx)"
proof -
  obtain d conn' where r: "UnixConnector_recv F (connector ctx) = Some (Ok (DeliverPacket d), conn')"
    "pkt_view F (input_buffer_pool conn') d = Some (src, dst, p)" "rx (actor conn') = rest"
    by (rule UnixConnector_recv_packet [OF F inv room fr s])
  have ok: "connector_ok (connector ctx)" using inv by (simp add: in_inv_def)
  obtain q' where q': "WaitfreeArrayQueue_push A (input_queue ctx) d = (Ok (), q')"
    "items q' = items (input_queue ctx) @ [d]" "in_inv F items cap conn' q'" "packet_held F conn' d"
    by (rule recv_packet_inv [OF A inv r(1)])
  let ?ctx = "ctx\<lparr>connector := conn', input_queue := q'\<rparr>"
  have h: "Context_handle_actor_msg F A (ctx\<lparr>connector := conn'\<rparr>) (DeliverPacket d) = Some (None, ?ctx)"
    using handle_packet [of F "ctx\<lparr>connector := conn'\<rparr>" d A q'] q'(1,4) by simp
  have cap: "cap q' = cap (input_queue ctx)"
    using UnixConnector_recvD [OF ok r(1)] q'(3) inv by (simp add: in_inv_def recv_post_def)
  show ?thesis
  proof (rule that)
    show "receive_messages F A ctx = receive_messages F A ?ctx"
      using r(1) h by (simp add: receive_messages.simps [of F A ctx])
    show "received ctx ?ctx" by (rule received_step [OF ok r(1)])
    show "inbox F items ?ctx = inbox F items ctx @ [Some (src, dst, p)]"
      using r(2) q'(2) inbox_keeps [OF inv r(1)] by (simp add: inbox_def)
  qed (use q'(3) r(3) cap in simp_all)
qed

lemma receive_packets:
  assumes F: "fb_laws F V" and A: "array_queue_laws A items cap"
    and "in_inv F items cap (connector ctx) (input_queue ctx)"
    and "length (items (input_queue ctx)) + length pkts \<le> cap (input_queue ctx)"
    and "packet_frames F pkts frs" and "rx (actor (connector ctx)) = concat frs @ rest"
  obtains ctx' where "receive_messages F A ctx = receive_messages F A ctx'" "received ctx ctx'"
    "in_inv F items cap (connector ctx') (input_queue ctx')" "inbox F items ctx' = inbox F items ctx @ map Some pkts"
    "rx (actor (connector ctx')) = rest" "cap (input_queue ctx') = cap (input_queue ctx)"
proof -
  have "\<exists>ctx'. receive_messages F A ctx = receive_messages F A ctx' \<and> received ctx ctx' \<and>
    in_inv F items cap (connector ctx') (input_queue ctx') \<and> inbox F items ctx' = inbox F items ctx @ map Some pkts \<and>
    rx (actor (connector ctx')) = rest \<and> cap (input_queue ctx') = cap (input_queue ctx)"
    using assms(3-6)
  proof (induction pkts arbitrary: ctx frs)
    case Nil
    then show ?case by (intro exI [of _ ctx]) (simp add: packet_frames_def received_def)
  next
    case (Cons x pkts)
    obtain src dst p where x: "x = (src, dst, p)" by (cases x)
    from Cons.prems(3) x obtain fr frs' where fr: "frs = fr # frs'" "from_frame F fr (deliver_packet_msg src dst p)"
      "length fr \<le> MAX_PACKET_SIZE + 4" "packet_frames F pkts frs'"
      by (auto simp: packet_frames_def list_all2_Cons1)
    have room: "length (items (input_queue ctx)) < cap (input_queue ctx)" using Cons.prems(2) by simp
    have s: "rx (actor (connector ctx)) = fr @ concat frs' @ rest" using Cons.prems(4) fr(1) by simp
    obtain c where c: "receive_messages F A ctx = receive_messages F A c" "received ctx c"
      "in_inv F items cap (connector c) (input_queue c)" "inbox F items c = inbox F items ctx @ [Some (src, dst, p)]"
      "rx (actor (connector c)) = concat frs' @ rest" "cap (input_queue c) = cap (input_queue ctx)"
      by (rule receive_packet_step [OF F A Cons.prems(1) room fr(2,3) s])
    have "length (inbox F items c) = Suc (length (inbox F items ctx))" using c(4) by simp
    then have "length (items (input_queue c)) + length pkts \<le> cap (input_queue c)"
      using Cons.prems(2) c(6) by (simp add: inbox_def)
    from Cons.IH [OF c(3) this fr(4) c(5)] obtain ctx' where ih: "receive_messages F A c = receive_messages F A ctx'"
      "received c ctx'" "in_inv F items cap (connector ctx') (input_queue ctx')"
      "inbox F items ctx' = inbox F items c @ map Some pkts"
      "rx (actor (connector ctx')) = rest" "cap (input_queue ctx') = cap (input_queue c)" by blast
    then show ?case
      using c x received_trans [OF c(2) ih(2)] by (intro exI [of _ ctx']) simp
  qed
  with that show ?thesis by blast
qed

lemma receive_control:
  assumes F: "fb_laws F V" and inv: "in_inv F items cap (connector ctx) (input_queue ctx)"
    and room: "length (items (input_queue ctx)) < cap (input_queue ctx)"
    and fr: "control_frame F after fr" and s: "rx (actor (connector ctx)) = fr @ rest"
  obtains ctx' where "receive_messages F A ctx = Some (after, ctx')" "received ctx ctx'"
    "in_inv F items cap (connector ctx') (input_queue ctx')" "input_queue ctx' = input_queue ctx"
    "inbox F items ctx' = inbox F items ctx" "rx (actor (connector ctx')) = rest"
proof -
  let ?x = "case after of NextDeadline d \<Rightarrow> GoToDeadline d | AfterEndSimulation \<Rightarrow> EndSimulation"
  obtain conn' where r: "UnixConnector_recv F (connector ctx) = Some (Ok ?x, conn')" "rx (actor conn') = rest"
    by (rule UnixConnector_recv_control [OF F inv room fr s])
  have ok: "connector_ok (connector ctx)" using inv by (simp add: in_inv_def)
  have np: "\<forall>d. (Ok ?x :: (msg_in, io_error) result) \<noteq> Ok (DeliverPacket d)" by (simp split: after_deadline.split)
  show ?thesis
  proof (rule that [of "ctx\<lparr>connector := conn'\<rparr>"])
    show "receive_messages F A ctx = Some (after, ctx\<lparr>connector := conn'\<rparr>)"
      using r(1) by (cases after) (simp_all add: receive_messages.simps [of F A ctx] Context_handle_actor_msg_def)
    show "received ctx (ctx\<lparr>connector := conn'\<rparr>)"
      using received_step [OF ok r(1), of "input_queue ctx"] by simp
    show "inbox F items (ctx\<lparr>connector := conn'\<rparr>) = inbox F items ctx"
      using inbox_keeps [OF inv r(1)] by (simp add: inbox_def)
  qed (use r(2) recv_other_inv [OF inv r(1) np] in simp_all)
qed

text \<open>
  With every buffer taken the loop gives up on the next message, whatever it is.
\<close>

lemma receive_starved:
  assumes F: "fb_laws F V" and inv: "in_inv F items cap (connector ctx) (input_queue ctx)"
    and full: "length (items (input_queue ctx)) = cap (input_queue ctx)"
    and fr: "from_frame F fr m" "length fr \<le> MAX_PACKET_SIZE + 4" and s: "rx (actor (connector ctx)) = fr @ rest"
  obtains conn' where "receive_messages F A ctx = Some (AfterEndSimulation, ctx\<lparr>connector := conn'\<rparr>)"
    "input_buffer_pool conn' = in_pool ctx"
proof -
  let ?pool = "in_pool ctx"
  have sz: "length fr \<le> buffer_size ?pool + 4" "pool_busy ?pool = {..<num_buffers_of ?pool}"
    using fr(2) inv full in_inv_room(2) [OF inv] by (simp_all add: in_inv_def)
  from recv_no_buffer [OF F sz(2) fr(1) sz(1) s] obtain s' where
    "MsgIn_recv F (actor (connector ctx)) ?pool = Some (Err (IoErr OtherKind ''No buffer available''), s', ?pool)" by blast
  then have "receive_messages F A ctx = Some (AfterEndSimulation,
      ctx\<lparr>connector := (connector ctx)\<lparr>actor := s', input_buffer_pool := ?pool\<rparr>\<rparr>)"
    by (simp add: receive_messages.simps [of F A ctx] UnixConnector_recv_def)
  then show ?thesis by (rule that) simp
qed

text \<open>
  So does a message longer than a buffer, which the encoding of a payload close to \<open>MAX_PACKET_SIZE\<close> is.
\<close>

lemma receive_oversized:
  assumes F: "fb_laws F V" and inv: "in_inv F items cap (connector ctx) (input_queue ctx)"
    and fr: "from_frame F fr m" "MAX_PACKET_SIZE + 4 < length fr" and s: "rx (actor (connector ctx)) = fr @ rest"
  obtains conn' where "receive_messages F A ctx = Some (AfterEndSimulation, ctx\<lparr>connector := conn'\<rparr>)"
    "input_buffer_pool conn' = in_pool ctx"
proof -
  let ?pool = "in_pool ctx"
  have sz: "buffer_size ?pool + 4 < length fr" using fr(2) inv by (simp add: in_inv_def)
  from recv_oversized [OF F fr(1) sz s] obtain s' where
    "MsgIn_recv F (actor (connector ctx)) ?pool = Some (Err (IoErr InvalidData ''Packet size too big''), s', ?pool)" by blast
  then have "receive_messages F A ctx = Some (AfterEndSimulation,
      ctx\<lparr>connector := (connector ctx)\<lparr>actor := s', input_buffer_pool := ?pool\<rparr>\<rparr>)"
    by (simp add: receive_messages.simps [of F A ctx] UnixConnector_recv_def)
  then show ?thesis by (rule that) simp
qed

end
