(* ===== verification/Context_Invariant.thy ===== *)
theory Context_Invariant
  imports Context_Output Context_Input
begin

text \<open>
  The invariant of the client context, \<open>ctx_inv\<close>, joins the two sides: it holds of a context just
  created, and every operation of the application and of the deadline handler keeps it. None of them
  panics in a state where it holds, apart from the panics of the timer.
\<close>

definition ctx_inv ::
  "('b, 'o) flatbuffers \<Rightarrow> ('b, 'o) fb_view \<Rightarrow> ('q \<Rightarrow> deliver_packet list) \<Rightarrow> ('q \<Rightarrow> nat) \<Rightarrow>
     ('b, 'o, 'q, 'tm) client_context \<Rightarrow> bool" where
  "ctx_inv F V items cap ctx \<longleftrightarrow>
     out_inv F V (outgoing_messages ctx) (upcoming_messages ctx) (output_buffer_pool ctx) \<and>
     in_inv F items cap (connector ctx) (input_queue ctx)"

lemma in_inv_same_input:
  assumes "in_inv F items cap c q" "same_input c c'"
  shows "in_inv F items cap c' q"
  using assms by (simp add: in_inv_def same_input_def connector_ok_def)

lemma same_input_trans: "same_input a b \<Longrightarrow> same_input b c \<Longrightarrow> same_input a c"
  by (simp add: same_input_def)

section \<open>Creation\<close>

lemma Context_new_inv:
  assumes A: "array_queue_laws A items cap" and n: "0 < num_buffers cfg"
    and new: "Context_new F A connect timer_new register cfg = Some (Ok ctx)"
  shows "ctx_inv F V items cap ctx" "start_once ctx = False" "callbacks ctx = []"
    "num_buffers_of (output_buffer_pool ctx) = num_buffers cfg" "cap (input_queue ctx) = num_buffers cfg"
    "buffer_size (output_buffer_pool ctx) = MAX_PACKET_SIZE" "buffer_size (in_pool ctx) = MAX_PACKET_SIZE"
    "items (input_queue ctx) = []" "pending (outgoing_messages ctx) 0 = []" "upcoming_messages ctx = []"
    "address ctx = cfg_address cfg" "timer_new = Ok (timer_context ctx)"
proof -
  obtain q0 where q0: "WaitfreeArrayQueue_new A (num_buffers cfg) = Some q0" "items q0 = []" "cap q0 = num_buffers cfg"
    by (rule queue_new [OF A n])
  from new obtain conn tm pool where c: "UnixConnector_new F connect cfg = Some (Ok conn)" and t: "timer_new = Ok tm"
    and p: "BufferPool_new (FbBuffer F) MAX_PACKET_SIZE (num_buffers cfg) = Some pool"
    and ctx: "ctx = \<lparr>address = cfg_address cfg, connector = conn, input_queue = q0, timer_context = tm,
      output_buffer_pool = pool, outgoing_messages = OutputMsgSet_new (num_buffers cfg),
      upcoming_messages = [], start_once = False, callbacks = []\<rparr>"
  proof -
    from new obtain r where r: "UnixConnector_new F connect cfg = Some r"
      by (cases "UnixConnector_new F connect cfg") (simp_all add: Context_new_def)
    with new q0(1) obtain conn tm where t: "r = Ok conn" "timer_new = Ok tm"
      by (cases r; cases timer_new) (simp_all add: Context_new_def)
    with new q0(1) r obtain pool where "BufferPool_new (FbBuffer F) MAX_PACKET_SIZE (num_buffers cfg) = Some pool"
      by (cases "BufferPool_new (FbBuffer F) MAX_PACKET_SIZE (num_buffers cfg)") (simp_all add: Context_new_def)
    with new q0(1) r t show ?thesis by (cases register) (auto simp: Context_new_def intro!: that)
  qed
  from c obtain ip where ip: "BufferPool_new BytesBuffer MAX_PACKET_SIZE (num_buffers cfg) = Some ip"
    "input_buffer_pool conn = ip"
    by (auto simp: UnixConnector_new_def bind_eq_Some_conv split: sum.splits)
  note fb = fb_ib.new_pool_wf [OF p [unfolded FbBuffer_def]] and bt = bytes_ib.new_pool_wf [OF ip(1)]
  show "ctx_inv F V items cap ctx"
    using ctx q0 fb bt ip(2)
    by (simp add: ctx_inv_def out_inv_def owned_ok_def in_inv_def connector_ok_def)
  show "start_once ctx = False" "callbacks ctx = []" "items (input_queue ctx) = []"
    "num_buffers_of (output_buffer_pool ctx) = num_buffers cfg" "cap (input_queue ctx) = num_buffers cfg"
    "buffer_size (output_buffer_pool ctx) = MAX_PACKET_SIZE" "buffer_size (in_pool ctx) = MAX_PACKET_SIZE"
    "pending (outgoing_messages ctx) 0 = []" "upcoming_messages ctx = []" "address ctx = cfg_address cfg" "timer_new = Ok (timer_context ctx)"
    using ctx t q0 fb bt ip(2) by simp_all
qed

text \<open>
  Creation succeeds when the socket, the timer and the registration do and the input buffers fit in
  memory; when they do not fit, allocating them panics.
\<close>

lemma Context_new_succeeds:
  assumes A: "array_queue_laws A items cap" and n: "0 < num_buffers cfg" "MAX_PACKET_SIZE * num_buffers cfg \<le> isize_max"
    and "connect (actor_socket cfg) = Ok s"
  shows "\<exists>ctx. Context_new F A connect (Ok tm) (Ok ()) cfg = Some (Ok ctx) \<and> actor (connector ctx) = s"
proof -
  obtain q0 where "WaitfreeArrayQueue_new A (num_buffers cfg) = Some q0" by (rule queue_new [OF A n(1)])
  moreover have "isize_max \<le> usize_max" by (simp add: isize_max_def usize_max_def)
  then have "MAX_PACKET_SIZE * num_buffers cfg \<le> usize_max" using n(2) by linarith
  ultimately show ?thesis
    using n(2) assms(4)
    by (simp add: Context_new_def UnixConnector_new_def BufferPool_new_def BytesBuffer_def BytesBuffer_calloc_def
        FbBuffer_def FbBuilder_def FbBuilder_calloc_def usize_mul_def)
qed

lemma Context_new_panic:
  assumes "connect (actor_socket cfg) = Ok s" "isize_max < MAX_PACKET_SIZE * num_buffers cfg"
  shows "Context_new F A connect timer_new register cfg = None"
  using assms
  by (simp add: Context_new_def UnixConnector_new_def BufferPool_new_def BytesBuffer_def BytesBuffer_calloc_def usize_mul_def)

section \<open>Sending\<close>

lemma out_inv_count:
  assumes "out_inv F V s ups pool"
  shows "card (pool_busy pool) = length (pending s 0) + length ups"
proof -
  have "card (set (map msg_index (pending s 0 @ ups))) = length (map msg_index (pending s 0 @ ups))"
    using assms by (intro distinct_card) (simp add: out_inv_def owned_ok_def)
  then show ?thesis using assms by (simp add: out_inv_def owned_ok_def image_Un)
qed

text \<open>
  A message that got a buffer always gets a slot: the set has as many slots as the pool has buffers.
\<close>

lemma insert_after_allocate:
  assumes F: "fb_laws F V" and inv: "out_inv F V s ups pool"
    and alloc: "BufferPool_allocate_buffer (FbBuffer F) pool (length p) = Some (Ok b, pool1)"
    and len: "length p \<le> fb_payload_limit"
  obtains m s' pool2 where "SendPacketBuilder_new F pool1 src dst t p b = Some (m, pool2)"
    "OutputMsgSet_insert s m = Some (Ok (), s')" "out_inv F V s' ups pool2"
    "mset (pending s' 0) = add_mset m (mset (pending s 0))"
    "spb_src m = src" "spb_dst m = dst" "spb_send_time m = t" "builder_ok F V pool2 m p"
    "num_buffers_of pool2 = num_buffers_of pool"
    "\<forall>x \<in> set (pending s 0 @ ups). \<forall>p. builder_ok F V pool2 x p \<longleftrightarrow> builder_ok F V pool x p"
proof -
  have own: "owned_ok F V pool (pending s 0 @ ups)" using inv by (simp add: out_inv_def)
  obtain m pool2 where m: "SendPacketBuilder_new F pool1 src dst t p b = Some (m, pool2)"
    "spb_src m = src" "spb_dst m = dst" "spb_send_time m = t" "builder_ok F V pool2 m p"
    "owned_ok F V pool2 (m # pending s 0 @ ups)" "num_buffers_of pool2 = num_buffers_of pool"
    "\<forall>x \<in> set (pending s 0 @ ups). \<forall>p. builder_ok F V pool2 x p \<longleftrightarrow> builder_ok F V pool x p"
    by (rule owned_ok_add [OF F own alloc len, of src dst t]) blast
  have wf: "fb_ib.wf_pool pool" using own by (simp add: owned_ok_def)
  have "card (pool_busy pool) < num_buffers_of pool"
    using fb_ib.allocate_Ok_iff [OF wf, of F "MsgFbInitializer_init F" "length p"] alloc
    by (auto simp: FbBuffer_def)
  then have "length (pending s 0) < length (slots s)"
    using out_inv_count [OF inv] inv by (simp add: out_inv_def)
  moreover have "wf_set s" using inv by (simp add: out_inv_def)
  ultimately obtain s' where s': "OutputMsgSet_insert s m = Some (Ok (), s')" "wf_set s'"
    "mset (pending s' 0) = add_mset m (mset (pending s 0))" "length (slots s') = length (slots s)"
    by (metis insert_room)
  have "mset (pending s' 0 @ ups) = mset (m # pending s 0 @ ups)" using s'(3) by simp
  from owned_ok_perm [OF this, of F V pool2] have "owned_ok F V pool2 (pending s' 0 @ ups)" using m(6) by simp
  then have "out_inv F V s' ups pool2" using s' inv m(7) by (simp add: out_inv_def)
  with m s' that show ?thesis by blast
qed

lemma push_upcoming:
  assumes F: "fb_laws F V" and inv: "out_inv F V s ups pool"
    and alloc: "BufferPool_allocate_buffer (FbBuffer F) pool (length p) = Some (Ok b, pool1)"
    and len: "length p \<le> fb_payload_limit"
  obtains m pool2 where "SendPacketBuilder_new F pool1 src dst t p b = Some (m, pool2)"
    "out_inv F V s (ups @ [m]) pool2"
    "spb_src m = src" "spb_dst m = dst" "spb_send_time m = t" "builder_ok F V pool2 m p"
    "num_buffers_of pool2 = num_buffers_of pool"
    "\<forall>x \<in> set (pending s 0 @ ups). \<forall>p. builder_ok F V pool2 x p \<longleftrightarrow> builder_ok F V pool x p"
proof -
  have own: "owned_ok F V pool (pending s 0 @ ups)" using inv by (simp add: out_inv_def)
  obtain m pool2 where m: "SendPacketBuilder_new F pool1 src dst t p b = Some (m, pool2)"
    "spb_src m = src" "spb_dst m = dst" "spb_send_time m = t" "builder_ok F V pool2 m p"
    "owned_ok F V pool2 (m # pending s 0 @ ups)" "num_buffers_of pool2 = num_buffers_of pool"
    "\<forall>x \<in> set (pending s 0 @ ups). \<forall>p. builder_ok F V pool2 x p \<longleftrightarrow> builder_ok F V pool x p"
    by (rule owned_ok_add [OF F own alloc len, of src dst t]) blast
  have "mset (m # pending s 0 @ ups) = mset (pending s 0 @ ups @ [m])" by simp
  from owned_ok_perm [OF this, of F V pool2] have "out_inv F V s (ups @ [m]) pool2"
    using m(6,7) inv by (simp add: out_inv_def)
  with m that show ?thesis by blast
qed

text \<open>What a send may change of the context.\<close>

definition output_only ::
  "('b, 'o, 'q, 'tm) client_context \<Rightarrow> ('b, 'o, 'q, 'tm) client_context \<Rightarrow> bool" where
  "output_only ctx ctx' \<longleftrightarrow> ctx' = ctx\<lparr>output_buffer_pool := output_buffer_pool ctx',
     outgoing_messages := outgoing_messages ctx', upcoming_messages := upcoming_messages ctx'\<rparr>"

lemma max_packet_limit: "n \<le> MAX_PACKET_SIZE \<Longrightarrow> n \<le> fb_payload_limit"
  by (simp add: MAX_PACKET_SIZE_def fb_payload_limit_def)

text \<open>
  The outcome of \<open>send\<close> is decided by the length of the message and the number of messages waiting;
  the message is set aside when the timer says the deadline has passed.
\<close>

abbreviation waiting_messages :: "('b, 'o, 'q, 'tm) client_context \<Rightarrow> nat" where
  "waiting_messages ctx \<equiv> length (pending (outgoing_messages ctx) 0) + length (upcoming_messages ctx)"

lemma send_too_big:
  assumes "ctx_inv F V items cap ctx" "t_simulation_now T (timer_context ctx) now = Some t"
    and "MAX_PACKET_SIZE < length msg"
  shows "Context_send T F ctx now dst msg = Some (Err SizeTooBig, ctx)"
proof -
  have "buffer_size (output_buffer_pool ctx) = MAX_PACKET_SIZE"
    using assms(1) by (simp add: ctx_inv_def out_inv_def owned_ok_def)
  then have "BufferPool_allocate_buffer (FbBuffer F) (output_buffer_pool ctx) (length msg) =
      Some (Err BufferSizeTooBig, output_buffer_pool ctx)"
    using assms(3) by (simp add: allocate_buffer_too_big)
  with assms(2) show ?thesis by (simp add: Context_send_def)
qed

lemma send_full:
  assumes inv: "ctx_inv F V items cap ctx" and now: "t_simulation_now T (timer_context ctx) now = Some t"
    and len: "length msg \<le> MAX_PACKET_SIZE" and full: "num_buffers_of (output_buffer_pool ctx) \<le> waiting_messages ctx"
  shows "Context_send T F ctx now dst msg = Some (Err NoMemoryAvailable, ctx)"
proof -
  let ?pool = "output_buffer_pool ctx"
  have inv: "out_inv F V (outgoing_messages ctx) (upcoming_messages ctx) ?pool"
    using inv by (simp add: ctx_inv_def)
  have "card (pool_busy ?pool) \<le> num_buffers_of ?pool"
    using busy_set_bound by (metis card_lessThan card_mono finite_lessThan lessThan_iff subsetI)
  then have "pool_busy ?pool = {..<num_buffers_of ?pool}"
    using out_inv_count [OF inv] full by (simp add: busy_set_full_iff)
  moreover have "buffer_size ?pool = MAX_PACKET_SIZE" using inv by (simp add: out_inv_def owned_ok_def)
  ultimately have "BufferPool_allocate_buffer (FbBuffer F) ?pool (length msg) = Some (Err NoBufferAvailable, ?pool)"
    using len by (simp add: allocate_buffer_none)
  with now show ?thesis by (simp add: Context_send_def)
qed

lemma send_room:
  assumes F: "fb_laws F V" and inv: "ctx_inv F V items cap ctx"
    and now: "t_simulation_now T (timer_context ctx) now = Some t"
    and len: "length msg \<le> MAX_PACKET_SIZE" and room: "waiting_messages ctx < num_buffers_of (output_buffer_pool ctx)"
  obtains m ctx' where "Context_send T F ctx now dst msg = Some (Ok (), ctx')" "ctx_inv F V items cap ctx'"
    "output_only ctx ctx'" "spb_src m = address ctx" "spb_dst m = dst"
    "builder_ok F V (output_buffer_pool ctx') m msg"
    "case t_check_overrun T (timer_context ctx) t (upcoming_messages ctx) of
       None \<Rightarrow> spb_send_time m = t \<and> upcoming_messages ctx' = upcoming_messages ctx \<and>
         mset (pending (outgoing_messages ctx') 0) = add_mset m (mset (pending (outgoing_messages ctx) 0))
     | Some t' \<Rightarrow> spb_send_time m = t' \<and> upcoming_messages ctx' = upcoming_messages ctx @ [m] \<and>
         outgoing_messages ctx' = outgoing_messages ctx"
    "num_buffers_of (output_buffer_pool ctx') = num_buffers_of (output_buffer_pool ctx)"
    "\<forall>x \<in> set (pending (outgoing_messages ctx) 0 @ upcoming_messages ctx). \<forall>p.
       builder_ok F V (output_buffer_pool ctx') x p \<longleftrightarrow> builder_ok F V (output_buffer_pool ctx) x p"
proof -
  let ?pool = "output_buffer_pool ctx" and ?s = "outgoing_messages ctx" and ?ups = "upcoming_messages ctx"
  have inv': "out_inv F V ?s ?ups ?pool" using inv by (simp add: ctx_inv_def)
  have lim: "length msg \<le> fb_payload_limit" using len by (rule max_packet_limit)
  have wf: "fb_ib.wf_pool ?pool" "buffer_size ?pool = MAX_PACKET_SIZE"
    using inv' by (simp_all add: out_inv_def owned_ok_def)
  obtain b pool1 where a: "BufferPool_allocate_buffer (FbBuffer F) ?pool (length msg) = Some (Ok b, pool1)"
    using fb_ib.allocate_Ok_iff [OF wf(1), of F "MsgFbInitializer_init F" "length msg"] room len wf(2) out_inv_count [OF inv']
    by (auto simp: FbBuffer_def)
  show ?thesis
  proof (cases "t_check_overrun T (timer_context ctx) t ?ups")
    case None
    obtain m s' pool2 where m: "SendPacketBuilder_new F pool1 (address ctx) dst t msg b = Some (m, pool2)"
      "OutputMsgSet_insert ?s m = Some (Ok (), s')" "out_inv F V s' ?ups pool2"
      "mset (pending s' 0) = add_mset m (mset (pending ?s 0))"
      "spb_src m = address ctx" "spb_dst m = dst" "spb_send_time m = t" "builder_ok F V pool2 m msg"
      "num_buffers_of pool2 = num_buffers_of ?pool"
      "\<forall>x \<in> set (pending ?s 0 @ ?ups). \<forall>p. builder_ok F V pool2 x p \<longleftrightarrow> builder_ok F V ?pool x p"
      by (rule insert_after_allocate [OF F inv' a lim])
    show ?thesis
      by (rule that [of "ctx\<lparr>output_buffer_pool := pool2, outgoing_messages := s'\<rparr>" m])
         (use inv now a None m in \<open>simp_all add: Context_send_def ctx_inv_def output_only_def\<close>)
  next
    case (Some t')
    obtain m pool2 where m: "SendPacketBuilder_new F pool1 (address ctx) dst t' msg b = Some (m, pool2)"
      "out_inv F V ?s (?ups @ [m]) pool2"
      "spb_src m = address ctx" "spb_dst m = dst" "spb_send_time m = t'" "builder_ok F V pool2 m msg"
      "num_buffers_of pool2 = num_buffers_of ?pool"
      "\<forall>x \<in> set (pending ?s 0 @ ?ups). \<forall>p. builder_ok F V pool2 x p \<longleftrightarrow> builder_ok F V ?pool x p"
      by (rule push_upcoming [OF F inv' a lim])
    show ?thesis
      by (rule that [of "ctx\<lparr>output_buffer_pool := pool2, upcoming_messages := ?ups @ [m]\<rparr>" m])
         (use inv now a Some m in \<open>simp_all add: Context_send_def ctx_inv_def output_only_def\<close>)
  qed
qed

section \<open>Receiving\<close>

lemma recv_empty:
  assumes "array_queue_laws A items cap" "inbox F items ctx = []"
  shows "Context_recv F A ctx msg = Some (Err NoMessageAvailable, msg, ctx)"
  using queue_pop_Nil [OF assms(1), of "input_queue ctx"] assms(2) by (simp add: Context_recv_def inbox_def)

text \<open>
  The first packet of the inbox leaves it, whether it fits the caller's buffer or not.
\<close>

lemma recv_first:
  assumes A: "array_queue_laws A items cap" and inv: "ctx_inv F V items cap ctx"
    and box: "inbox F items ctx = Some (src, dst, p) # rest"
  obtains ctx' where
    "Context_recv F A ctx msg = Some (if length p \<le> length msg
       then (Ok (src, dst, p), p @ drop (length p) msg, ctx') else (Err SizeTooBig, msg, ctx'))"
    "inbox F items ctx' = rest" "ctx_inv F V items cap ctx'"
    "ctx' = ctx\<lparr>input_queue := input_queue ctx', connector := (connector ctx)\<lparr>input_buffer_pool := in_pool ctx'\<rparr>\<rparr>"
    "length (items (input_queue ctx)) = Suc (length (items (input_queue ctx')))"
    "cap (input_queue ctx') = cap (input_queue ctx)"
proof -
  obtain d ds where q: "items (input_queue ctx) = d # ds" and d: "pkt_view F (in_pool ctx) d = Some (src, dst, p)"
    and rest: "rest = map (pkt_view F (in_pool ctx)) ds"
    using box by (auto simp: inbox_def)
  obtain q' where q': "WaitfreeArrayQueue_pop A (input_queue ctx) = (Some d, q')" "items q' = ds"
    "cap q' = cap (input_queue ctx)"
    by (rule queue_pop_Cons [OF A q])
  have "in_inv F items cap (connector ctx) (input_queue ctx)" using inv by (simp add: ctx_inv_def)
  from in_inv_pop [OF this q q'(2,3)] obtain pool' where
    pool': "Buffer_drop (in_pool ctx) (dp_inner d) = Some pool'"
    "in_inv F items cap ((connector ctx)\<lparr>input_buffer_pool := pool'\<rparr>) q'"
    "map (pkt_view F pool') ds = map (pkt_view F (in_pool ctx)) ds" by blast
  note acc = pkt_view_accessors [OF d]
  show ?thesis
  proof (rule that [of "set_in_pool (ctx\<lparr>input_queue := q'\<rparr>) pool'"])
    show "Context_recv F A ctx msg = Some (if length p \<le> length msg
       then (Ok (src, dst, p), p @ drop (length p) msg, set_in_pool (ctx\<lparr>input_queue := q'\<rparr>) pool')
       else (Err SizeTooBig, msg, set_in_pool (ctx\<lparr>input_queue := q'\<rparr>) pool'))"
      using q'(1) acc pool'(1) by (simp add: Context_recv_def)
  qed (use inv q q'(2,3) rest pool'(2,3) in \<open>simp_all add: inbox_def set_in_pool_def ctx_inv_def\<close>)
qed

lemma inbox_defined:
  assumes "ctx_inv F V items cap ctx" "x \<in> set (inbox F items ctx)"
  shows "\<exists>y. x = Some y"
  using assms by (auto simp: ctx_inv_def in_inv_def inbox_def elim!: packet_ok_view)

section \<open>Start\<close>

lemma start_again: "start_once ctx \<Longrightarrow> Context_start T F ctx now = Some (Err AlreadyStarted, ctx)"
  by (simp add: Context_start_def)

text \<open>
  Whatever the actor sends, starting keeps the invariant and gets past the message; what remains is
  the timer's own start.
\<close>

lemma start_sets_once:
  assumes "Context_start T F ctx now = Some (r, ctx')"
  shows "start_once ctx'"
  using assms
  by (auto simp: Context_start_def set_in_pool_def split: if_splits bind_splits sum.splits msg_in.splits)

lemma start_inv:
  assumes inv: "ctx_inv F V items cap ctx" and "\<not> start_once ctx"
    and timer: "\<And>d. \<exists>r tm. t_start T (timer_context ctx) now d = Some (r, tm)"
  obtains r ctx' where "Context_start T F ctx now = Some (r, ctx')" "ctx_inv F V items cap ctx'" "start_once ctx'"
    "\<forall>d. r = Ok d \<longrightarrow> (\<exists>dl tm. t_start T (timer_context ctx) now dl = Some (Ok d, tm) \<and>
       timer_context ctx' = tm \<and> callbacks ctx' = callbacks ctx @ [DeadlineCallback dl])"
    "inbox F items ctx' = inbox F items ctx"
proof -
  have iinv: "in_inv F items cap (connector ctx) (input_queue ctx)" using inv by (simp add: ctx_inv_def)
  then have ok: "connector_ok (connector ctx)" by (simp add: in_inv_def)
  obtain m conn' where r: "UnixConnector_recv F (connector ctx) = Some (m, conn')"
    using unix.recv_defined [OF ok] by blast
  show ?thesis
  proof (cases "\<exists>d. m = Ok (DeliverPacket d)")
    case False
    have inv': "in_inv F items cap conn' (input_queue ctx)" using recv_other_inv [OF iinv r] False by simp
    have box: "inbox F items (ctx\<lparr>connector := conn', start_once := b, callbacks := cb, timer_context := tm\<rparr>) = inbox F items ctx" for b cb tm
      using inbox_keeps [OF iinv r] by (simp add: inbox_def)
    show ?thesis
    proof (cases "\<exists>d. m = Ok (GoToDeadline d)")
      case True
      then obtain d where d: "m = Ok (GoToDeadline d)" by blast
      obtain tr tm where t: "t_start T (timer_context ctx) now d = Some (tr, tm)" using timer by blast
      show ?thesis
        by (rule that [of "map_sum IoError id tr" "ctx\<lparr>connector := conn', start_once := True,
              callbacks := callbacks ctx @ [DeadlineCallback d], timer_context := tm\<rparr>"])
           (use assms(2) r d t inv inv' box in \<open>cases tr; auto simp: Context_start_def ctx_inv_def\<close>)+
    next
      case no: False
      have "\<exists>e. Context_start T F ctx now = Some (Err e, ctx\<lparr>connector := conn', start_once := True\<rparr>)"
      proof (cases m)
        case (Inl e)
        with r assms(2) show ?thesis by (simp add: Context_start_def)
      next
        case (Inr x)
        with r assms(2) False no show ?thesis by (cases x) (simp_all add: Context_start_def)
      qed
      then obtain e where "Context_start T F ctx now = Some (Err e, ctx\<lparr>connector := conn', start_once := True\<rparr>)" by blast
      with inv inv' box [where b = True and cb = "callbacks ctx" and tm = "timer_context ctx"] show ?thesis
        by (intro that [of "Err e" "ctx\<lparr>connector := conn', start_once := True\<rparr>"]) (simp_all add: ctx_inv_def)
    qed
  next
    case True
    then obtain d where d: "UnixConnector_recv F (connector ctx) = Some (Ok (DeliverPacket d), conn')" using r by blast
    obtain pool' where dr: "Buffer_drop (input_buffer_pool conn') (dp_inner d) = Some pool'"
      "in_inv F items cap (conn'\<lparr>input_buffer_pool := pool'\<rparr>) (input_queue ctx)"
      "map (pkt_view F pool') (items (input_queue ctx)) = map (pkt_view F (in_pool ctx)) (items (input_queue ctx))"
      by (rule recv_drop_inv [OF iinv d])
    show ?thesis
      by (rule that [of "Err ProtocolViolation" "set_in_pool (ctx\<lparr>connector := conn', start_once := True\<rparr>) pool'"])
         (use d dr inv assms(2) in \<open>simp_all add: Context_start_def set_in_pool_def ctx_inv_def inbox_def\<close>)
  qed
qed

end
