(* ===== verification/Context_Deadline.thy ===== *)
theory Context_Deadline
  imports Context_Invariant
begin

text \<open>
  What happens at a deadline, in terms of the two sides of the context: the messages sent before the
  deadline go out as one frame each, the mark \<open>AtDeadline\<close> ends them, and what the actor sends back is
  queued for the application.
\<close>

section \<open>The sending half\<close>

text \<open>
  The messages a deadline sends with their times: the outgoing ones in the order of their slots, then
  the upcoming ones that are due.
\<close>

definition deadline_schedule ::
  "duration \<Rightarrow> duration \<Rightarrow> ('b, 'o, 'q, 'tm) client_context \<Rightarrow> ('o send_packet_builder \<times> duration) list" where
  "deadline_schedule prev cur ctx =
     fst (schedule prev cur (pending (outgoing_messages ctx) 0)) @ due cur (upcoming_messages ctx)"

text \<open>The bytes a deadline puts on the wire.\<close>

definition deadline_bytes ::
  "('b, 'o) flatbuffers \<Rightarrow> ('b, 'o) fb_view \<Rightarrow> 'b fb_pool \<Rightarrow> ('o send_packet_builder \<times> duration) list \<Rightarrow> bytes \<Rightarrow> bool" where
  "deadline_bytes F V pool xs bs \<longleftrightarrow>
     (\<exists>frs fr. list_all2 (\<lambda>(m, t). msg_frame F V pool m t) xs frs \<and> to_frame F fr at_deadline_msg \<and>
        bs = concat frs @ fr)"

text \<open>
  No message is later than the current deadline: the first loop gets to its end.
\<close>

definition in_time :: "duration \<Rightarrow> duration \<Rightarrow> ('b, 'o, 'q, 'tm) client_context \<Rightarrow> bool" where
  "in_time prev cur ctx \<longleftrightarrow> snd (schedule prev cur (pending (outgoing_messages ctx) 0))"

lemma schedule_complete:
  "prev \<le> cur \<Longrightarrow> snd (schedule prev cur ms) \<longleftrightarrow> (\<forall>m \<in> set ms. spb_send_time m \<le> cur)"
  by (induction ms) (auto simp: clamp_send_time_def split: option.splits if_splits)

lemma schedule_clamped:
  assumes "prev \<le> cur" "\<forall>m \<in> set ms. spb_send_time m \<le> cur"
  shows "fst (schedule prev cur ms) = map (\<lambda>m. (m, max prev (spb_send_time m))) ms"
  using assms by (induction ms) (auto simp: clamp_send_time_def max_def split: option.splits if_splits)

lemma in_time_iff:
  assumes "prev \<le> cur"
  shows "in_time prev cur ctx \<longleftrightarrow> (\<forall>m \<in> set (pending (outgoing_messages ctx) 0). spb_send_time m \<le> cur)"
  using assms by (simp add: in_time_def schedule_complete)

text \<open>What the sending half leaves alone.\<close>

definition sent_only ::
  "('b, 'o, 'q, 'tm) client_context \<Rightarrow> ('b, 'o, 'q, 'tm) client_context \<Rightarrow> bool" where
  "sent_only ctx ctx' \<longleftrightarrow> address ctx' = address ctx \<and> input_queue ctx' = input_queue ctx \<and>
     timer_context ctx' = timer_context ctx \<and> start_once ctx' = start_once ctx \<and>
     callbacks ctx' = callbacks ctx \<and> same_input (connector ctx) (connector ctx') \<and>
     num_buffers_of (output_buffer_pool ctx') = num_buffers_of (output_buffer_pool ctx)"

text \<open>The notifications that end a deadline.\<close>

definition notified ::
  "('q, deliver_packet) array_queue \<Rightarrow> 'q \<Rightarrow> after_deadline \<Rightarrow> ('b, 'o, 'q, 'tm) client_context \<Rightarrow> callback list" where
  "notified A q after ctx =
     (if WaitfreeArrayQueue_is_empty A q \<and> \<not> WaitfreeArrayQueue_is_empty A (input_queue ctx) then [RecvCallback] else []) @
     (case after of NextDeadline d \<Rightarrow> [DeadlineCallback d] | AfterEndSimulation \<Rightarrow> [])"

lemma deadline_bytesI:
  assumes "list_all2 (\<lambda>(m, t). msg_frame F V pool m t) xs frs" "list_all2 (\<lambda>(m, t). msg_frame F V pool m t) ys frs'"
    and "to_frame F fr at_deadline_msg"
  shows "deadline_bytes F V pool (xs @ ys) (concat frs @ concat frs' @ fr)"
  using assms list_all2_appendI [OF assms(1,2)] unfolding deadline_bytes_def
  by (intro exI [of _ "frs @ frs'"] exI [of _ fr]) simp

text \<open>The two loops and the mark, one after the other, with what each leaves.\<close>

lemma deadline_sends:
  assumes F: "fb_laws F V" and inv: "out_inv F V s ups pool"
  obtains go1 s1 pool1 c1 go2 ups2 pool2 c2 r c3 fr where
    "send_outgoing F prev cur s OutputMsgSet_drain pool c = Some (go1, s1, pool1, c1)"
    "outgoing_post F V prev cur s 0 ups pool c go1 s1 pool1 c1"
    "send_upcoming F cur ups pool1 c1 = Some (go2, ups2, pool2, c2)"
    "upcoming_post F V cur s1 ups pool1 c1 go2 ups2 pool2 c2"
    "UnixConnector_send F pool2 c2 AtDeadline = Some (r, c3, pool2)"
    "to_frame F fr at_deadline_msg" "write_all (actor c2) fr = (r, actor c3)" "same_input c2 c3"
proof -
  obtain go1 s1 pool1 c1 where l1: "send_outgoing F prev cur s OutputMsgSet_drain pool c = Some (go1, s1, pool1, c1)"
    "outgoing_post F V prev cur s 0 ups pool c go1 s1 pool1 c1"
    using outgoing_loop [OF F inv, of prev cur 0 c] by (auto simp: OutputMsgSet_drain_def)
  have "out_inv F V s1 ups pool1" using l1(2) by (simp add: outgoing_post_def)
  from upcoming_loop [OF F this, of cur c1] obtain go2 ups2 pool2 c2 where
    l2: "send_upcoming F cur ups pool1 c1 = Some (go2, ups2, pool2, c2)"
    "upcoming_post F V cur s1 ups pool1 c1 go2 ups2 pool2 c2" by blast
  obtain r c3 fr where "UnixConnector_send F pool2 c2 AtDeadline = Some (r, c3, pool2)"
    "to_frame F fr at_deadline_msg" "write_all (actor c2) fr = (r, actor c3)" "same_input c2 c3"
    by (rule send_at_deadline [OF F])
  with l1 l2 that show ?thesis by blast
qed

text \<open>When writes succeed the first loop stops only at a late message, and the bytes are as scheduled.\<close>

lemma deadline_sends_no_fault:
  assumes nf: "wr_faults (actor c) = []" and o: "outgoing_post F V prev cur s 0 ups pool c go1 s1 pool1 c1"
    and u: "upcoming_post F V cur s1 ups pool1 c1 go2 ups2 pool2 c2"
    and w: "to_frame F fr at_deadline_msg" "write_all (actor c2) fr = (r, actor c3)"
  shows "go1 = snd (schedule prev cur (pending s 0))"
    "frames_written F V pool c c1 (fst (schedule prev cur (pending s 0)))" "go2" "r = Ok ()" "wr_faults (actor c3) = []"
    "\<exists>bs. tx (actor c3) = tx (actor c) @ bs \<and>
       deadline_bytes F V pool (fst (schedule prev cur (pending s 0)) @ due cur ups) bs"
proof -
  show go1: "go1 = snd (schedule prev cur (pending s 0))"
    and f1: "frames_written F V pool c c1 (fst (schedule prev cur (pending s 0)))"
    using o nf by (simp_all add: outgoing_post_def)
  have f2: "go2 \<and> frames_written F V pool1 c1 c2 (due cur ups)" using u f1 by (simp add: upcoming_post_def frames_written_def)
  then have f3: "r = Ok () \<and> tx (actor c3) = tx (actor c2) @ fr \<and> wr_faults (actor c3) = []"
    using write_all_no_fault [OF w(2)] by (simp add: frames_written_def)
  show "go2" "r = Ok ()" "wr_faults (actor c3) = []" using f2 f3 by simp_all
  obtain frs1 where frs1: "list_all2 (\<lambda>(m, t). msg_frame F V pool m t) (fst (schedule prev cur (pending s 0))) frs1"
    "tx (actor c1) = tx (actor c) @ concat frs1" using f1 by (auto simp: frames_written_def)
  obtain frs2 where frs2: "list_all2 (\<lambda>(m, t). msg_frame F V pool1 m t) (due cur ups) frs2"
    "tx (actor c2) = tx (actor c1) @ concat frs2" using f2 by (auto simp: frames_written_def)
  have "x \<in> set ups" if "(x, t) \<in> set (due cur ups)" for x t
    using that by (auto simp: due_def dest: set_takeWhileD)
  then have "list_all2 (\<lambda>(m, t). msg_frame F V pool m t) (due cur ups) frs2"
    using frs2(1) o by (elim list.rel_mono_strong) (auto simp: msg_frame_def outgoing_post_def)
  from deadline_bytesI [OF frs1(1) this w(1)] show "\<exists>bs. tx (actor c3) = tx (actor c) @ bs \<and>
       deadline_bytes F V pool (fst (schedule prev cur (pending s 0)) @ due cur ups) bs"
    using frs1(2) frs2(2) f3 by auto
qed

lemma at_deadline_cases:
  assumes F: "fb_laws F V" and inv: "ctx_inv F V items cap ctx"
    and dl: "t_previous_deadline T (timer_context ctx) = Some prev" "t_next_deadline T (timer_context ctx) = Some cur"
  obtains (stopped) ctx' where "Context_at_deadline T F A ctx = Some (AfterEndSimulation, ctx')"
      "ctx_inv F V items cap ctx'" "sent_only ctx ctx'"
      "wr_faults (actor (connector ctx)) = [] \<longrightarrow> \<not> in_time prev cur ctx \<and>
         frames_written F V (output_buffer_pool ctx) (connector ctx) (connector ctx')
           (fst (schedule prev cur (pending (outgoing_messages ctx) 0)))"
  | (sent) ctx1 where
      "Context_at_deadline T F A ctx = do {
         (after, ctx2) \<leftarrow> receive_messages F A ctx1;
         Some (after, ctx2\<lparr>callbacks := callbacks ctx2 @ notified A (input_queue ctx) after ctx2\<rparr>)
       }"
      "ctx_inv F V items cap ctx1" "sent_only ctx ctx1"
      "pending (outgoing_messages ctx1) 0 = []"
      "upcoming_messages ctx1 = dropWhile (\<lambda>m. spb_send_time m \<le> cur) (upcoming_messages ctx)"
      "\<forall>x \<in> set (upcoming_messages ctx1). \<forall>p.
         builder_ok F V (output_buffer_pool ctx1) x p \<longleftrightarrow> builder_ok F V (output_buffer_pool ctx) x p"
      "wr_faults (actor (connector ctx)) = [] \<longrightarrow> in_time prev cur ctx \<and> wr_faults (actor (connector ctx1)) = [] \<and>
         (\<exists>bs. tx (actor (connector ctx1)) = tx (actor (connector ctx)) @ bs \<and>
            deadline_bytes F V (output_buffer_pool ctx) (deadline_schedule prev cur ctx) bs)"
proof -
  let ?s = "outgoing_messages ctx" and ?ups = "upcoming_messages ctx" and ?pool = "output_buffer_pool ctx"
    and ?c = "connector ctx"
  have oinv: "out_inv F V ?s ?ups ?pool" and iinv: "in_inv F items cap ?c (input_queue ctx)"
    using inv by (simp_all add: ctx_inv_def)
  obtain go1 s1 pool1 c1 go2 ups2 pool2 c2 r c3 fr where
    l1: "send_outgoing F prev cur ?s OutputMsgSet_drain ?pool ?c = Some (go1, s1, pool1, c1)"
    "outgoing_post F V prev cur ?s 0 ?ups ?pool ?c go1 s1 pool1 c1"
    and l2: "send_upcoming F cur ?ups pool1 c1 = Some (go2, ups2, pool2, c2)"
    "upcoming_post F V cur s1 ?ups pool1 c1 go2 ups2 pool2 c2"
    and l3: "UnixConnector_send F pool2 c2 AtDeadline = Some (r, c3, pool2)"
    "to_frame F fr at_deadline_msg" "write_all (actor c2) fr = (r, actor c3)" "same_input c2 c3"
    by (rule deadline_sends [OF F oinv])
  have post1: "out_inv F V s1 ?ups pool1 \<and> same_input ?c c1 \<and> num_buffers_of pool1 = num_buffers_of ?pool"
    using l1(2) by (simp add: outgoing_post_def)
  have post2: "out_inv F V s1 ups2 pool2 \<and> same_input ?c c2 \<and> num_buffers_of pool2 = num_buffers_of ?pool"
    using l2(2) post1 by (auto simp: upcoming_post_def intro: same_input_trans)
  have si3: "same_input ?c c3" using post2 l3(4) by (blast intro: same_input_trans)
  note same = in_inv_same_input [OF iinv]
  note nf = deadline_sends_no_fault [OF _ l1(2) l2(2) l3(2,3)]
  show ?thesis
  proof (cases "go1 \<and> go2 \<and> (\<exists>u. r = Ok u)")
    case False
    then have "\<exists>ctx'. Context_at_deadline T F A ctx = Some (AfterEndSimulation, ctx') \<and> ctx_inv F V items cap ctx' \<and>
      sent_only ctx ctx' \<and> (\<not> go1 \<longrightarrow> connector ctx' = c1)"
      using dl l1(1) l2(1) l3(1) post1 post2 si3 same
      by (cases go1; cases go2; cases r) (simp_all add: Context_at_deadline_def ctx_inv_def sent_only_def)
    then obtain ctx' where c': "Context_at_deadline T F A ctx = Some (AfterEndSimulation, ctx')" "ctx_inv F V items cap ctx'"
      "sent_only ctx ctx'" "\<not> go1 \<longrightarrow> connector ctx' = c1" by blast
    have "\<not> go1" if "wr_faults (actor ?c) = []" using nf(3,4) [OF that] False by auto
    with c' nf(1,2) show ?thesis by (intro stopped [of ctx']) (auto simp: in_time_def)
  next
    case True
    let ?ctx1 = "ctx\<lparr>outgoing_messages := s1, upcoming_messages := ups2, output_buffer_pool := pool2, connector := c3\<rparr>"
    have p: "pending s1 0 = []" using l1(2) True by (simp add: outgoing_post_def)
    have u: "ups2 = dropWhile (\<lambda>m. spb_send_time m \<le> cur) ?ups" using l2(2) True by (simp add: upcoming_post_def)
    have "set ups2 \<subseteq> set ?ups" using l2(2) by (auto simp: upcoming_post_def dest: in_set_dropD)
    moreover have "\<forall>x \<in> set ?ups. \<forall>p. builder_ok F V pool1 x p \<longleftrightarrow> builder_ok F V ?pool x p"
      using l1(2) by (simp add: outgoing_post_def)
    moreover have "\<forall>x \<in> set ups2. \<forall>p. builder_ok F V pool2 x p \<longleftrightarrow> builder_ok F V pool1 x p"
      using l2(2) by (simp add: upcoming_post_def)
    ultimately have k: "\<forall>x \<in> set ups2. \<forall>p. builder_ok F V pool2 x p \<longleftrightarrow> builder_ok F V ?pool x p" by blast
    have at: "Context_at_deadline T F A ctx = do {
         (after, ctx2) \<leftarrow> receive_messages F A ?ctx1;
         Some (after, ctx2\<lparr>callbacks := callbacks ctx2 @ notified A (input_queue ctx) after ctx2\<rparr>) }"
      using dl True l1(1) l2(1) l3(1)
      by (cases "receive_messages F A ?ctx1")
         (auto simp: Context_at_deadline_def notified_def split: after_deadline.split)
    show ?thesis
      by (rule sent [OF at])
         (use True p u k post2 si3 same nf(1,5,6)
          in \<open>simp_all add: ctx_inv_def sent_only_def in_time_def deadline_schedule_def\<close>)
  qed
qed

section \<open>The whole deadline\<close>

lemma ctx_inv_callbacks [simp]: "ctx_inv F V items cap (ctx\<lparr>callbacks := cb\<rparr>) = ctx_inv F V items cap ctx"
  by (simp add: ctx_inv_def)

lemma inbox_callbacks [simp]: "inbox F items (ctx\<lparr>callbacks := cb\<rparr>) = inbox F items ctx"
  by (simp add: inbox_def)

lemma ctx_inv_received:
  assumes "ctx_inv F V items cap ctx" "received ctx ctx'" "in_inv F items cap (connector ctx') (input_queue ctx')"
  shows "ctx_inv F V items cap ctx'"
  using assms by (simp add: ctx_inv_def received_def)

lemma inbox_empty:
  "array_queue_laws A items cap \<Longrightarrow> WaitfreeArrayQueue_is_empty A (input_queue ctx) \<longleftrightarrow> inbox F items ctx = []"
  by (simp add: queue_is_empty inbox_def)

lemma inbox_sent: "sent_only ctx ctx' \<Longrightarrow> inbox F items ctx' = inbox F items ctx"
  by (simp add: sent_only_def inbox_def same_input_def)

lemma at_deadline_inv:
  assumes F: "fb_laws F V" and A: "array_queue_laws A items cap" and inv: "ctx_inv F V items cap ctx"
    and dl: "t_previous_deadline T (timer_context ctx) = Some prev" "t_next_deadline T (timer_context ctx) = Some cur"
  shows "\<exists>after ctx'. Context_at_deadline T F A ctx = Some (after, ctx') \<and> ctx_inv F V items cap ctx' \<and>
    timer_context ctx' = timer_context ctx"
proof (rule at_deadline_cases [OF F inv dl, of A])
  fix ctx1
  assume s: "Context_at_deadline T F A ctx = do {
         (after, ctx2) \<leftarrow> receive_messages F A ctx1;
         Some (after, ctx2\<lparr>callbacks := callbacks ctx2 @ notified A (input_queue ctx) after ctx2\<rparr>) }"
    "ctx_inv F V items cap ctx1" "sent_only ctx ctx1"
  have "in_inv F items cap (connector ctx1) (input_queue ctx1)" using s(2) by (simp add: ctx_inv_def)
  from receive_loop [OF A this] obtain after ctx2 where r: "receive_messages F A ctx1 = Some (after, ctx2)"
    "received ctx1 ctx2" "in_inv F items cap (connector ctx2) (input_queue ctx2)" by blast
  with s ctx_inv_received [OF s(2) r(2,3)] show ?thesis by (simp add: received_def sent_only_def)
qed (auto simp: sent_only_def)

text \<open>
  The deadline of a running simulation: every message is in time, the writes succeed, and the actor
  answers with packets and a control message that fit the input buffers.
\<close>

lemma at_deadline_exchange:
  assumes F: "fb_laws F V" and A: "array_queue_laws A items cap" and inv: "ctx_inv F V items cap ctx"
    and dl: "t_previous_deadline T (timer_context ctx) = Some prev" "t_next_deadline T (timer_context ctx) = Some cur"
    and up: "wr_faults (actor (connector ctx)) = []" "in_time prev cur ctx"
    and rx: "rx (actor (connector ctx)) = concat frs @ fr @ rest" "packet_frames F pkts frs" "control_frame F after fr"
    and room: "length (items (input_queue ctx)) + length pkts < cap (input_queue ctx)"
  obtains ctx' bs where "Context_at_deadline T F A ctx = Some (after, ctx')" "ctx_inv F V items cap ctx'"
    "tx (actor (connector ctx')) = tx (actor (connector ctx)) @ bs"
    "deadline_bytes F V (output_buffer_pool ctx) (deadline_schedule prev cur ctx) bs"
    "pending (outgoing_messages ctx') 0 = []"
    "upcoming_messages ctx' = dropWhile (\<lambda>m. spb_send_time m \<le> cur) (upcoming_messages ctx)"
    "inbox F items ctx' = inbox F items ctx @ map Some pkts" "rx (actor (connector ctx')) = rest"
    "callbacks ctx' = callbacks ctx @ (if inbox F items ctx = [] \<and> pkts \<noteq> [] then [RecvCallback] else []) @
       (case after of NextDeadline d \<Rightarrow> [DeadlineCallback d] | AfterEndSimulation \<Rightarrow> [])"
    "timer_context ctx' = timer_context ctx" "address ctx' = address ctx"
    "num_buffers_of (output_buffer_pool ctx') = num_buffers_of (output_buffer_pool ctx)"
    "cap (input_queue ctx') = cap (input_queue ctx)"
    "\<forall>x \<in> set (upcoming_messages ctx'). \<forall>p.
       builder_ok F V (output_buffer_pool ctx') x p \<longleftrightarrow> builder_ok F V (output_buffer_pool ctx) x p"
    "wr_faults (actor (connector ctx')) = []"
proof (rule at_deadline_cases [OF F inv dl, of A])
  fix ctx1
  assume s: "Context_at_deadline T F A ctx = do {
         (after, ctx2) \<leftarrow> receive_messages F A ctx1;
         Some (after, ctx2\<lparr>callbacks := callbacks ctx2 @ notified A (input_queue ctx) after ctx2\<rparr>) }"
    "ctx_inv F V items cap ctx1" "sent_only ctx ctx1" "pending (outgoing_messages ctx1) 0 = []"
    "upcoming_messages ctx1 = dropWhile (\<lambda>m. spb_send_time m \<le> cur) (upcoming_messages ctx)"
    "\<forall>x \<in> set (upcoming_messages ctx1). \<forall>p.
       builder_ok F V (output_buffer_pool ctx1) x p \<longleftrightarrow> builder_ok F V (output_buffer_pool ctx) x p"
    "wr_faults (actor (connector ctx)) = [] \<longrightarrow> in_time prev cur ctx \<and> wr_faults (actor (connector ctx1)) = [] \<and>
         (\<exists>bs. tx (actor (connector ctx1)) = tx (actor (connector ctx)) @ bs \<and>
            deadline_bytes F V (output_buffer_pool ctx) (deadline_schedule prev cur ctx) bs)"
  have iinv: "in_inv F items cap (connector ctx1) (input_queue ctx1)" using s(2) by (simp add: ctx_inv_def)
  have room1: "length (items (input_queue ctx1)) + length pkts \<le> cap (input_queue ctx1)"
    using s(3) room by (simp add: sent_only_def)
  have rx1: "rx (actor (connector ctx1)) = concat frs @ fr @ rest" using s(3) rx(1) by (simp add: sent_only_def same_input_def)
  obtain c where c: "receive_messages F A ctx1 = receive_messages F A c" "received ctx1 c"
    "in_inv F items cap (connector c) (input_queue c)" "inbox F items c = inbox F items ctx1 @ map Some pkts"
    "rx (actor (connector c)) = fr @ rest" "cap (input_queue c) = cap (input_queue ctx1)"
    by (rule receive_packets [OF F A iinv room1 rx(2) rx1])
  have "length (inbox F items c) = length (inbox F items ctx1) + length pkts" using c(4) by simp
  then have room2: "length (items (input_queue c)) < cap (input_queue c)"
    using c(6) s(3) room by (simp add: inbox_def sent_only_def)
  obtain ctx2 where ctx2: "receive_messages F A c = Some (after, ctx2)" "received c ctx2"
    "in_inv F items cap (connector ctx2) (input_queue ctx2)" "input_queue ctx2 = input_queue c"
    "inbox F items ctx2 = inbox F items c" "rx (actor (connector ctx2)) = rest"
    by (rule receive_control [OF F c(3) room2 rx(3) c(5)])
  have rec: "received ctx1 ctx2" by (rule received_trans [OF c(2) ctx2(2)])
  obtain bs where nf: "wr_faults (actor (connector ctx1)) = []"
    and bs: "tx (actor (connector ctx1)) = tx (actor (connector ctx)) @ bs"
    "deadline_bytes F V (output_buffer_pool ctx) (deadline_schedule prev cur ctx) bs" using s(7) up(1) by blast
  show ?thesis
    by (rule that [OF _ _ _ bs(2), of "ctx2\<lparr>callbacks := callbacks ctx2 @ notified A (input_queue ctx) after ctx2\<rparr>"])
       (use s c ctx2 rec nf bs(1) ctx_inv_received [OF s(2) rec ctx2(3)] inbox_sent [OF s(3), of F items]
        in \<open>simp_all add: received_def sent_only_def notified_def inbox_empty [OF A, of _ F]\<close>)
qed (use up in simp)

section \<open>Deadlines that end the simulation\<close>

text \<open>
  Whatever was sent, when the receiving loop gives up on the context left by the sending loops the simulation
  is over.
\<close>

lemma deadline_gives_up:
  assumes F: "fb_laws F V" and inv: "ctx_inv F V items cap ctx"
    and dl: "t_previous_deadline T (timer_context ctx) = Some prev" "t_next_deadline T (timer_context ctx) = Some cur"
    and r: "\<And>ctx1. ctx_inv F V items cap ctx1 \<Longrightarrow> sent_only ctx ctx1 \<Longrightarrow>
      \<exists>ctx2. receive_messages F A ctx1 = Some (AfterEndSimulation, ctx2)"
  shows "\<exists>ctx'. Context_at_deadline T F A ctx = Some (AfterEndSimulation, ctx')"
proof (rule at_deadline_cases [OF F inv dl, of A])
  fix ctx' assume "Context_at_deadline T F A ctx = Some (AfterEndSimulation, ctx')"
  then show ?thesis by blast
next
  fix ctx1
  assume at: "Context_at_deadline T F A ctx = do {
      (after, ctx2) \<leftarrow> receive_messages F A ctx1;
      Some (after, ctx2\<lparr>callbacks := callbacks ctx2 @ notified A (input_queue ctx) after ctx2\<rparr>)
    }" and c: "ctx_inv F V items cap ctx1" "sent_only ctx ctx1"
  from r [OF c] obtain ctx2 where "receive_messages F A ctx1 = Some (AfterEndSimulation, ctx2)" by blast
  with at show ?thesis by simp
qed

text \<open>When the packets that come in take the last buffer, the actor's decision cannot be received.\<close>

lemma deadline_starved:
  assumes F: "fb_laws F V" and A: "array_queue_laws A items cap" and inv: "ctx_inv F V items cap ctx"
    and dl: "t_previous_deadline T (timer_context ctx) = Some prev" "t_next_deadline T (timer_context ctx) = Some cur"
    and rx: "rx (actor (connector ctx)) = concat frs @ fr @ rest" "packet_frames F pkts frs"
    and fr: "from_frame F fr m" "length fr \<le> MAX_PACKET_SIZE + 4"
    and full: "length (items (input_queue ctx)) + length pkts = cap (input_queue ctx)"
  shows "\<exists>ctx'. Context_at_deadline T F A ctx = Some (AfterEndSimulation, ctx')"
proof (rule deadline_gives_up [OF F inv dl])
  fix ctx1 assume c: "ctx_inv F V items cap ctx1" "sent_only ctx ctx1"
  have i: "in_inv F items cap (connector ctx1) (input_queue ctx1)" using c(1) by (simp add: ctx_inv_def)
  have q: "input_queue ctx1 = input_queue ctx" "rx (actor (connector ctx1)) = rx (actor (connector ctx))"
    using c(2) by (simp_all add: sent_only_def same_input_def)
  have le: "length (items (input_queue ctx1)) + length pkts \<le> cap (input_queue ctx1)"
    and rx1: "rx (actor (connector ctx1)) = concat frs @ fr @ rest" using full q rx(1) by simp_all
  obtain ctx2 where r: "receive_messages F A ctx1 = receive_messages F A ctx2"
    "in_inv F items cap (connector ctx2) (input_queue ctx2)" "inbox F items ctx2 = inbox F items ctx1 @ map Some pkts"
    "rx (actor (connector ctx2)) = fr @ rest" "cap (input_queue ctx2) = cap (input_queue ctx1)"
    by (rule receive_packets [OF F A i le rx(2) rx1])
  have "length (inbox F items ctx2) = cap (input_queue ctx2)" using r(3,5) full q(1) by (simp add: inbox_def)
  then have "length (items (input_queue ctx2)) = cap (input_queue ctx2)" by (simp add: inbox_def)
  from receive_starved [OF F r(2) this fr r(4), of A] r(1)
  show "\<exists>ctx2. receive_messages F A ctx1 = Some (AfterEndSimulation, ctx2)" by auto
qed

lemma deadline_oversized:
  assumes F: "fb_laws F V" and inv: "ctx_inv F V items cap ctx"
    and dl: "t_previous_deadline T (timer_context ctx) = Some prev" "t_next_deadline T (timer_context ctx) = Some cur"
    and rx: "rx (actor (connector ctx)) = fr @ rest" and fr: "from_frame F fr m" "MAX_PACKET_SIZE + 4 < length fr"
  shows "\<exists>ctx'. Context_at_deadline T F A ctx = Some (AfterEndSimulation, ctx')"
proof (rule deadline_gives_up [OF F inv dl])
  fix ctx1 assume c: "ctx_inv F V items cap ctx1" "sent_only ctx ctx1"
  have i: "in_inv F items cap (connector ctx1) (input_queue ctx1)" using c(1) by (simp add: ctx_inv_def)
  have "rx (actor (connector ctx1)) = fr @ rest" using c(2) rx by (simp add: sent_only_def same_input_def)
  from receive_oversized [OF F i fr this, of A]
  show "\<exists>ctx2. receive_messages F A ctx1 = Some (AfterEndSimulation, ctx2)" by auto
qed

end
