(* ===== verification/Client_Spec.thy ===== *)
theory Client_Spec
  imports Context_Deadline "HOL-Library.Multiset"
begin

text \<open>
  What the client promises its user, without buffers, slots, builders or bytes: an inbox of packets, a
  multiset of messages for the current time slice, a list of messages set aside for a later one, and
  a limit on their number. \<open>client_rel\<close> relates a context to such a state, and every operation of the
  context is simulated by the operation of the specification.
\<close>

section \<open>The specification\<close>

type_synonym packet = "in_addr_t \<times> in_addr_t \<times> bytes"
type_synonym stamped = "in_addr_t \<times> in_addr_t \<times> duration \<times> bytes"

abbreviation stamp :: "stamped \<Rightarrow> duration" where
  "stamp w \<equiv> fst (snd (snd w))"

record client_spec =
  cs_address :: in_addr_t
  cs_limit :: nat
  cs_inbox :: "packet list"
  cs_outbox :: "stamped multiset"
  cs_upcoming :: "stamped list"

definition spec_new :: "in_addr_t \<Rightarrow> nat \<Rightarrow> client_spec" where
  "spec_new addr n = \<lparr>cs_address = addr, cs_limit = n, cs_inbox = [], cs_outbox = {#}, cs_upcoming = []\<rparr>"

text \<open>\<open>overrun\<close> is the time the timer wants instead of \<open>t\<close> when \<open>t\<close> is after the deadline.\<close>

definition spec_send ::
  "duration \<Rightarrow> duration option \<Rightarrow> in_addr_t \<Rightarrow> bytes \<Rightarrow> client_spec \<Rightarrow> (unit, error) result \<times> client_spec" where
  "spec_send t overrun dst msg a =
     (if MAX_PACKET_SIZE < length msg then (Err SizeTooBig, a)
      else if cs_limit a \<le> size (cs_outbox a) + length (cs_upcoming a) then (Err NoMemoryAvailable, a)
      else (Ok (), case overrun of
          None \<Rightarrow> a\<lparr>cs_outbox := add_mset (cs_address a, dst, t, msg) (cs_outbox a)\<rparr>
        | Some t' \<Rightarrow> a\<lparr>cs_upcoming := cs_upcoming a @ [(cs_address a, dst, t', msg)]\<rparr>))"

definition spec_recv ::
  "bytes \<Rightarrow> client_spec \<Rightarrow> ((packet, error) result \<times> bytes) \<times> client_spec" where
  "spec_recv buf a =
     (case cs_inbox a of
        [] \<Rightarrow> ((Err NoMessageAvailable, buf), a)
      | (src, dst, p) # rest \<Rightarrow>
          (if length p \<le> length buf then (Ok (src, dst, p), p @ drop (length p) buf) else (Err SizeTooBig, buf),
           a\<lparr>cs_inbox := rest\<rparr>))"

text \<open>
  A deadline sends the messages of the slice in some order, none stamped before the slice, then those
  set aside that are due, in order; it takes in the packets received.
\<close>

definition restamp :: "duration \<Rightarrow> stamped \<Rightarrow> stamped" where
  "restamp prev = (\<lambda>(src, dst, t, p). (src, dst, max prev t, p))"

definition spec_wire :: "duration \<Rightarrow> duration \<Rightarrow> client_spec \<Rightarrow> stamped list \<Rightarrow> bool" where
  "spec_wire prev cur a ws \<longleftrightarrow>
     (\<exists>xs. mset xs = image_mset (restamp prev) (cs_outbox a) \<and>
        ws = xs @ takeWhile (\<lambda>w. stamp w \<le> cur) (cs_upcoming a))"

definition spec_deadline :: "duration \<Rightarrow> packet list \<Rightarrow> client_spec \<Rightarrow> client_spec" where
  "spec_deadline cur pkts a = a\<lparr>cs_inbox := cs_inbox a @ pkts, cs_outbox := {#},
     cs_upcoming := dropWhile (\<lambda>w. stamp w \<le> cur) (cs_upcoming a)\<rparr>"

definition spec_callbacks :: "packet list \<Rightarrow> after_deadline \<Rightarrow> client_spec \<Rightarrow> callback list" where
  "spec_callbacks pkts after a =
     (if cs_inbox a = [] \<and> pkts \<noteq> [] then [RecvCallback] else []) @
     (case after of NextDeadline d \<Rightarrow> [DeadlineCallback d] | AfterEndSimulation \<Rightarrow> [])"

section \<open>The relation\<close>

text \<open>What a message being built stands for.\<close>

definition msg_view ::
  "('b, 'o) flatbuffers \<Rightarrow> ('b, 'o) fb_view \<Rightarrow> 'b fb_pool \<Rightarrow> 'o send_packet_builder \<Rightarrow> stamped option" where
  "msg_view F V pool m = do {
     b \<leftarrow> Buffer_deref (FbBuffer F) pool (spb_payload m);
     p \<leftarrow> fv_vector V b (spb_payload_offset m);
     Some (spb_src m, spb_dst m, spb_send_time m, p)
   }"

lemma msg_view_builder: "builder_ok F V pool m p \<Longrightarrow> msg_view F V pool m = Some (spb_src m, spb_dst m, spb_send_time m, p)"
  by (auto simp: builder_ok_def msg_view_def)

lemma msg_view_same:
  assumes "\<forall>p. builder_ok F V pool' m p \<longleftrightarrow> builder_ok F V pool m p" "builder_ok F V pool m p"
  shows "msg_view F V pool' m = msg_view F V pool m"
  using assms by (metis msg_view_builder)

definition client_rel ::
  "('b, 'o) flatbuffers \<Rightarrow> ('b, 'o) fb_view \<Rightarrow> ('q \<Rightarrow> deliver_packet list) \<Rightarrow> ('q \<Rightarrow> nat) \<Rightarrow>
     ('b, 'o, 'q, 'tm) client_context \<Rightarrow> client_spec \<Rightarrow> bool" where
  "client_rel F V items cap ctx a \<longleftrightarrow> ctx_inv F V items cap ctx \<and>
     address ctx = cs_address a \<and> num_buffers_of (output_buffer_pool ctx) = cs_limit a \<and>
     cap (input_queue ctx) = cs_limit a \<and>
     inbox F items ctx = map Some (cs_inbox a) \<and>
     image_mset (msg_view F V (output_buffer_pool ctx)) (mset (pending (outgoing_messages ctx) 0)) =
       image_mset Some (cs_outbox a) \<and>
     map (msg_view F V (output_buffer_pool ctx)) (upcoming_messages ctx) = map Some (cs_upcoming a)"

lemma client_rel_waiting:
  assumes "client_rel F V items cap ctx a"
  shows "waiting_messages ctx = size (cs_outbox a) + length (cs_upcoming a)"
proof -
  have "size (image_mset (msg_view F V (output_buffer_pool ctx)) (mset (pending (outgoing_messages ctx) 0))) =
      size (image_mset Some (cs_outbox a))"
    and "length (map (msg_view F V (output_buffer_pool ctx)) (upcoming_messages ctx)) = length (map Some (cs_upcoming a))"
    using assms by (simp_all add: client_rel_def)
  then show ?thesis by simp
qed

section \<open>Simulation\<close>

lemma new_refines:
  assumes A: "array_queue_laws A items cap" and n: "0 < num_buffers cfg"
    and new: "Context_new F A connect timer_new register cfg = Some (Ok ctx)"
  shows "client_rel F V items cap ctx (spec_new (cfg_address cfg) (num_buffers cfg))"
  using Context_new_inv [OF A n new] by (simp add: client_rel_def spec_new_def inbox_def)

text \<open>The messages already waiting mean the same after a send.\<close>

lemma views_kept:
  assumes "\<forall>m \<in> set ms. \<exists>p. builder_ok F V pool m p"
    and "\<forall>m \<in> set ms. \<forall>p. builder_ok F V pool' m p \<longleftrightarrow> builder_ok F V pool m p"
  shows "\<forall>m \<in> set ms. msg_view F V pool' m = msg_view F V pool m"
  using assms msg_view_same by blast

lemma ctx_inv_builders:
  assumes "ctx_inv F V items cap ctx"
  shows "\<forall>m \<in> set (pending (outgoing_messages ctx) 0 @ upcoming_messages ctx). \<exists>p. builder_ok F V (output_buffer_pool ctx) m p"
  using assms by (simp add: ctx_inv_def out_inv_def owned_ok_def)

lemma send_refines:
  assumes F: "fb_laws F V" and rel: "client_rel F V items cap ctx a"
    and now: "t_simulation_now T (timer_context ctx) now = Some t"
  shows "\<exists>ctx'. Context_send T F ctx now dst msg =
      Some (fst (spec_send t (t_check_overrun T (timer_context ctx) t (upcoming_messages ctx)) dst msg a), ctx') \<and>
    client_rel F V items cap ctx' (snd (spec_send t (t_check_overrun T (timer_context ctx) t (upcoming_messages ctx)) dst msg a)) \<and>
    timer_context ctx' = timer_context ctx \<and> connector ctx' = connector ctx"
proof -
  let ?ov = "t_check_overrun T (timer_context ctx) t (upcoming_messages ctx)"
  have inv: "ctx_inv F V items cap ctx" and lim: "num_buffers_of (output_buffer_pool ctx) = cs_limit a"
    using rel by (simp_all add: client_rel_def)
  note w = client_rel_waiting [OF rel]
  consider "MAX_PACKET_SIZE < length msg"
    | "length msg \<le> MAX_PACKET_SIZE" "num_buffers_of (output_buffer_pool ctx) \<le> waiting_messages ctx"
    | "length msg \<le> MAX_PACKET_SIZE" "waiting_messages ctx < num_buffers_of (output_buffer_pool ctx)" by linarith
  then show ?thesis
  proof cases
    case 1
    with send_too_big [OF inv now] rel show ?thesis by (simp add: spec_send_def)
  next
    case 2
    with send_full [OF inv now] rel w lim show ?thesis by (simp add: spec_send_def)
  next
    case 3
    obtain m ctx' where c: "Context_send T F ctx now dst msg = Some (Ok (), ctx')" "ctx_inv F V items cap ctx'"
      "output_only ctx ctx'" "spb_src m = address ctx" "spb_dst m = dst" "builder_ok F V (output_buffer_pool ctx') m msg"
      "case ?ov of
         None \<Rightarrow> spb_send_time m = t \<and> upcoming_messages ctx' = upcoming_messages ctx \<and>
           mset (pending (outgoing_messages ctx') 0) = add_mset m (mset (pending (outgoing_messages ctx) 0))
       | Some t' \<Rightarrow> spb_send_time m = t' \<and> upcoming_messages ctx' = upcoming_messages ctx @ [m] \<and>
           outgoing_messages ctx' = outgoing_messages ctx"
      "num_buffers_of (output_buffer_pool ctx') = num_buffers_of (output_buffer_pool ctx)"
      "\<forall>x \<in> set (pending (outgoing_messages ctx) 0 @ upcoming_messages ctx). \<forall>p.
         builder_ok F V (output_buffer_pool ctx') x p \<longleftrightarrow> builder_ok F V (output_buffer_pool ctx) x p"
      by (rule send_room [OF F inv now 3, of dst])
    have same: "\<forall>x \<in> set (pending (outgoing_messages ctx) 0 @ upcoming_messages ctx).
        msg_view F V (output_buffer_pool ctx') x = msg_view F V (output_buffer_pool ctx) x"
      by (rule views_kept [OF ctx_inv_builders [OF inv] c(9)])
    have "image_mset (msg_view F V (output_buffer_pool ctx')) (mset (pending (outgoing_messages ctx) 0)) =
        image_mset (msg_view F V (output_buffer_pool ctx)) (mset (pending (outgoing_messages ctx) 0))"
      using same by (intro image_mset_cong) simp
    then have out: "image_mset (msg_view F V (output_buffer_pool ctx')) (mset (pending (outgoing_messages ctx) 0)) =
        image_mset Some (cs_outbox a)" using rel by (simp add: client_rel_def)
    have "map (msg_view F V (output_buffer_pool ctx')) (upcoming_messages ctx) =
        map (msg_view F V (output_buffer_pool ctx)) (upcoming_messages ctx)"
      using same by (intro map_cong) simp_all
    then have ups: "map (msg_view F V (output_buffer_pool ctx')) (upcoming_messages ctx) = map Some (cs_upcoming a)"
      by (rule trans) (use rel in \<open>simp add: client_rel_def\<close>)
    note v = msg_view_builder [OF c(6)]
    have keep: "address ctx' = address ctx" "input_queue ctx' = input_queue ctx" "connector ctx' = connector ctx"
      "timer_context ctx' = timer_context ctx"
      by (subst c(3) [unfolded output_only_def], simp)+
    then show ?thesis
      using c rel out ups v 3 w lim
      by (cases ?ov) (simp_all add: spec_send_def client_rel_def inbox_def)
  qed
qed

lemma recv_refines:
  assumes A: "array_queue_laws A items cap" and rel: "client_rel F V items cap ctx a"
  shows "\<exists>ctx'. Context_recv F A ctx buf = Some (fst (fst (spec_recv buf a)), snd (fst (spec_recv buf a)), ctx') \<and>
    client_rel F V items cap ctx' (snd (spec_recv buf a)) \<and> timer_context ctx' = timer_context ctx"
proof (cases "cs_inbox a")
  case Nil
  then have "inbox F items ctx = []" using rel by (simp add: client_rel_def)
  with recv_empty [OF A this] Nil rel show ?thesis by (simp add: spec_recv_def)
next
  case (Cons x rest)
  obtain src dst p where x: "x = (src, dst, p)" by (cases x)
  have inv: "ctx_inv F V items cap ctx" and box: "inbox F items ctx = Some (src, dst, p) # map Some rest"
    using rel Cons x by (simp_all add: client_rel_def)
  obtain ctx' where c: "Context_recv F A ctx buf = Some (if length p \<le> length buf
       then (Ok (src, dst, p), p @ drop (length p) buf, ctx') else (Err SizeTooBig, buf, ctx'))"
    "inbox F items ctx' = map Some rest" "ctx_inv F V items cap ctx'"
    "ctx' = ctx\<lparr>input_queue := input_queue ctx', connector := (connector ctx)\<lparr>input_buffer_pool := in_pool ctx'\<rparr>\<rparr>"
    "length (items (input_queue ctx)) = Suc (length (items (input_queue ctx')))"
    "cap (input_queue ctx') = cap (input_queue ctx)"
    by (rule recv_first [OF A inv box])
  have keep: "address ctx' = address ctx" "outgoing_messages ctx' = outgoing_messages ctx"
    "upcoming_messages ctx' = upcoming_messages ctx" "output_buffer_pool ctx' = output_buffer_pool ctx"
    "timer_context ctx' = timer_context ctx"
    by (subst c(4), simp)+
  show ?thesis using c(1-3,6) keep rel Cons x by (auto simp: spec_recv_def client_rel_def)
qed

text \<open>The messages a deadline puts on the wire, as frames ended by the mark.\<close>

definition wire :: "('b, 'o) flatbuffers \<Rightarrow> stamped list \<Rightarrow> bytes \<Rightarrow> bool" where
  "wire F ws bs \<longleftrightarrow>
     (\<exists>frs fr. list_all2 (\<lambda>(src, dst, t, p) fr. to_frame F fr (send_packet_msg src dst t p)) ws frs \<and>
        to_frame F fr at_deadline_msg \<and> bs = concat frs @ fr)"

text \<open>\<open>w\<close> is the message \<open>m\<close> stamped \<open>t\<close>.\<close>

definition stamped_as ::
  "('b, 'o) flatbuffers \<Rightarrow> ('b, 'o) fb_view \<Rightarrow> 'b fb_pool \<Rightarrow> 'o send_packet_builder \<times> duration \<Rightarrow> stamped \<Rightarrow> bool" where
  "stamped_as F V pool = (\<lambda>(m, t) w. \<exists>p. msg_view F V pool m = Some (spb_src m, spb_dst m, spb_send_time m, p) \<and>
     w = (spb_src m, spb_dst m, t, p))"

lemma deadline_bytes_wire:
  assumes bs: "deadline_bytes F V pool xs bs"
  obtains ws where "wire F ws bs" "list_all2 (stamped_as F V pool) xs ws"
proof -
  obtain frs fr where f: "list_all2 (\<lambda>(m, t). msg_frame F V pool m t) xs frs" "to_frame F fr at_deadline_msg"
    "bs = concat frs @ fr" using bs by (auto simp: deadline_bytes_def)
  have "\<exists>ws. list_all2 (\<lambda>(src, dst, t, p) fr. to_frame F fr (send_packet_msg src dst t p)) ws frs \<and>
    list_all2 (stamped_as F V pool) xs ws"
    using f(1)
  proof (induction rule: list_all2_induct)
    case Nil
    then show ?case by simp
  next
    case (Cons x xs fr frs)
    obtain m t where x: "x = (m, t)" by (cases x)
    with Cons obtain p where p: "builder_ok F V pool m p" "to_frame F fr (send_packet_msg (spb_src m) (spb_dst m) t p)"
      by (auto simp: msg_frame_def)
    from Cons.IH obtain ws where
      "list_all2 (\<lambda>(src, dst, t, p) fr. to_frame F fr (send_packet_msg src dst t p)) ws frs"
      "list_all2 (stamped_as F V pool) xs ws" by blast
    with x p msg_view_builder [OF p(1)] show ?case
      by (intro exI [of _ "(spb_src m, spb_dst m, t, p) # ws"]) (simp add: stamped_as_def)
  qed
  with f(2,3) that show ?thesis by (auto simp: wire_def)
qed

text \<open>Messages and what they stand for, element by element.\<close>

definition views ::
  "('b, 'o) flatbuffers \<Rightarrow> ('b, 'o) fb_view \<Rightarrow> 'b fb_pool \<Rightarrow> 'o send_packet_builder list \<Rightarrow> stamped list \<Rightarrow> bool" where
  "views F V pool ms ws \<longleftrightarrow> map (msg_view F V pool) ms = map Some ws"

lemma views_Nil [simp]: "views F V pool [] ws \<longleftrightarrow> ws = []"
  by (auto simp: views_def)

lemma views_Cons:
  "views F V pool (m # ms) ws \<longleftrightarrow> (\<exists>w ws'. ws = w # ws' \<and> msg_view F V pool m = Some w \<and> views F V pool ms ws')"
  by (cases ws) (auto simp: views_def)

lemma msg_view_stamp: "msg_view F V pool m = Some w \<Longrightarrow> stamp w = spb_send_time m"
  by (auto simp: msg_view_def bind_eq_Some_conv)

lemma views_while:
  assumes "views F V pool ms ws"
  shows "views F V pool (takeWhile (\<lambda>m. spb_send_time m \<le> cur) ms) (takeWhile (\<lambda>w. stamp w \<le> cur) ws)"
    "views F V pool (dropWhile (\<lambda>m. spb_send_time m \<le> cur) ms) (dropWhile (\<lambda>w. stamp w \<le> cur) ws)"
  using assms
proof (induction ms arbitrary: ws)
  case (Cons m ms)
  {
    case 1
    then obtain w ws' where w: "ws = w # ws'" "msg_view F V pool m = Some w" "views F V pool ms ws'" by (auto simp: views_Cons)
    with Cons.IH(1) show ?case using msg_view_stamp [OF w(2)] by (cases w) (simp add: views_Cons)
  next
    case 2
    then obtain w ws' where w: "ws = w # ws'" "msg_view F V pool m = Some w" "views F V pool ms ws'" by (auto simp: views_Cons)
    with Cons.IH(2) show ?case using msg_view_stamp [OF w(2)] by (cases w) (simp add: views_Cons)
  }
qed simp_all

text \<open>Every message of a list stands for something.\<close>

lemma views_exist: "\<forall>m \<in> set ms. \<exists>p. builder_ok F V pool m p \<Longrightarrow> \<exists>ws. views F V pool ms ws"
proof (induction ms)
  case (Cons m ms)
  then obtain p ws where "builder_ok F V pool m p" "views F V pool ms ws" by auto
  from msg_view_builder [OF this(1)] this(2) have "\<exists>w. views F V pool (m # ms) (w # ws)" by (simp add: views_Cons)
  then show ?case by blast
qed (auto simp: views_def)

lemma views_mset:
  assumes "views F V pool ms ws" "image_mset (msg_view F V pool) (mset ms) = image_mset Some W"
  shows "mset ws = W"
proof -
  have "image_mset (msg_view F V pool) (mset ms) = mset (map (msg_view F V pool) ms)" by simp
  also have "\<dots> = image_mset Some (mset ws)" using assms(1) by (simp add: views_def)
  finally have "image_mset Some (mset ws) = image_mset Some W" using assms(2) by simp
  then have "image_mset the (image_mset Some (mset ws)) = image_mset the (image_mset Some W)" by simp
  then show ?thesis by (simp add: image_mset.compositionality comp_def)
qed

text \<open>What is written for messages sent at times \<open>f m\<close>.\<close>

lemma written_views:
  assumes "list_all2 (stamped_as F V pool) (map (\<lambda>m. (m, f (spb_send_time m))) ms) ws" "views F V pool ms vs"
  shows "ws = map (\<lambda>(src, dst, t, p). (src, dst, f t, p)) vs"
  using assms by (induction ms arbitrary: ws vs) (auto simp: views_Cons list_all2_Cons1 stamped_as_def)

lemma schedule_written:
  assumes "list_all2 (stamped_as F V pool) (map (\<lambda>m. (m, max prev (spb_send_time m))) ms @ map (\<lambda>m. (m, spb_send_time m)) ns) ws"
    and "views F V pool ms vs" "views F V pool ns us"
  shows "ws = map (restamp prev) vs @ us"
proof -
  obtain ws1 ws2 where w: "ws = ws1 @ ws2"
    "list_all2 (stamped_as F V pool) (map (\<lambda>m. (m, max prev (spb_send_time m))) ms) ws1"
    "list_all2 (stamped_as F V pool) (map (\<lambda>m. (m, id (spb_send_time m))) ns) ws2"
    using assms(1) by (auto simp: list_all2_append1)
  with written_views [OF w(2) assms(2)] written_views [OF w(3) assms(3)] show ?thesis by (simp add: restamp_def)
qed

lemma outbox_late:
  assumes rel: "client_rel F V items cap ctx a" and w: "\<forall>w \<in># cs_outbox a. stamp w \<le> cur"
  shows "\<forall>m \<in> set (pending (outgoing_messages ctx) 0). spb_send_time m \<le> cur"
proof
  let ?f = "msg_view F V (output_buffer_pool ctx)"
  fix m assume "m \<in> set (pending (outgoing_messages ctx) 0)"
  then have "?f m \<in># image_mset ?f (mset (pending (outgoing_messages ctx) 0))" by simp
  also have "image_mset ?f (mset (pending (outgoing_messages ctx) 0)) = image_mset Some (cs_outbox a)"
    using rel by (simp add: client_rel_def)
  finally obtain v where v: "?f m = Some v" "v \<in># cs_outbox a" by auto
  then have "stamp v \<le> cur" using w by blast
  then show "spb_send_time m \<le> cur" using msg_view_stamp [OF v(1)] by simp
qed

lemma deadline_refines:
  assumes F: "fb_laws F V" and A: "array_queue_laws A items cap" and rel: "client_rel F V items cap ctx a"
    and dl: "t_previous_deadline T (timer_context ctx) = Some prev" "t_next_deadline T (timer_context ctx) = Some cur"
      "prev \<le> cur"
    and up: "wr_faults (actor (connector ctx)) = []" "\<forall>w \<in># cs_outbox a. stamp w \<le> cur"
    and rx: "rx (actor (connector ctx)) = concat frs @ fr @ rest" "packet_frames F pkts frs" "control_frame F after fr"
    and room: "length (cs_inbox a) + length pkts < cs_limit a"
  obtains ctx' bs ws where "Context_at_deadline T F A ctx = Some (after, ctx')"
    "client_rel F V items cap ctx' (spec_deadline cur pkts a)"
    "tx (actor (connector ctx')) = tx (actor (connector ctx)) @ bs" "wire F ws bs" "spec_wire prev cur a ws"
    "callbacks ctx' = callbacks ctx @ spec_callbacks pkts after a"
    "timer_context ctx' = timer_context ctx" "rx (actor (connector ctx')) = rest" "wr_faults (actor (connector ctx')) = []"
proof -
  let ?pool = "output_buffer_pool ctx" and ?out = "pending (outgoing_messages ctx) 0" and ?ups = "upcoming_messages ctx"
  have inv: "ctx_inv F V items cap ctx" using rel by (simp add: client_rel_def)
  have builders: "\<forall>m \<in> set (?out @ ?ups). \<exists>p. builder_ok F V ?pool m p" by (rule ctx_inv_builders [OF inv])
  then obtain vs where vs: "views F V ?pool ?out vs" using views_exist [of ?out F V ?pool] by auto
  have out: "mset vs = cs_outbox a" using views_mset [OF vs] rel by (simp add: client_rel_def)
  have ups: "views F V ?pool ?ups (cs_upcoming a)" using rel by (simp add: client_rel_def views_def)
  have late: "\<forall>m \<in> set ?out. spb_send_time m \<le> cur" by (rule outbox_late [OF rel up(2)])
  have room': "length (items (input_queue ctx)) + length pkts < cap (input_queue ctx)"
  proof -
    have "length (inbox F items ctx) = length (items (input_queue ctx))" by (simp add: inbox_def)
    moreover have "inbox F items ctx = map Some (cs_inbox a)" "cap (input_queue ctx) = cs_limit a"
      using rel by (simp_all add: client_rel_def)
    ultimately show ?thesis using room by simp
  qed
  have it: "in_time prev cur ctx" using late dl(3) by (simp add: in_time_iff)
  obtain ctx' bs where c: "Context_at_deadline T F A ctx = Some (after, ctx')" "ctx_inv F V items cap ctx'"
    "tx (actor (connector ctx')) = tx (actor (connector ctx)) @ bs"
    "deadline_bytes F V ?pool (deadline_schedule prev cur ctx) bs"
    "pending (outgoing_messages ctx') 0 = []"
    "upcoming_messages ctx' = dropWhile (\<lambda>m. spb_send_time m \<le> cur) ?ups"
    "inbox F items ctx' = inbox F items ctx @ map Some pkts" "rx (actor (connector ctx')) = rest"
    "callbacks ctx' = callbacks ctx @ (if inbox F items ctx = [] \<and> pkts \<noteq> [] then [RecvCallback] else []) @
       (case after of NextDeadline d \<Rightarrow> [DeadlineCallback d] | AfterEndSimulation \<Rightarrow> [])"
    "timer_context ctx' = timer_context ctx" "address ctx' = address ctx"
    "num_buffers_of (output_buffer_pool ctx') = num_buffers_of ?pool" "cap (input_queue ctx') = cap (input_queue ctx)"
    "\<forall>x \<in> set (upcoming_messages ctx'). \<forall>p. builder_ok F V (output_buffer_pool ctx') x p \<longleftrightarrow> builder_ok F V ?pool x p"
    "wr_faults (actor (connector ctx')) = []"
    by (rule at_deadline_exchange [OF F A inv dl(1,2) up(1) it rx room'])
  obtain ws where ws: "wire F ws bs" "list_all2 (stamped_as F V ?pool) (deadline_schedule prev cur ctx) ws"
    by (rule deadline_bytes_wire [OF c(4)])
  have "deadline_schedule prev cur ctx = map (\<lambda>m. (m, max prev (spb_send_time m))) ?out @
      map (\<lambda>m. (m, spb_send_time m)) (takeWhile (\<lambda>m. spb_send_time m \<le> cur) ?ups)"
    using schedule_clamped [OF dl(3) late] by (simp add: deadline_schedule_def due_def)
  then have "ws = map (restamp prev) vs @ takeWhile (\<lambda>w. stamp w \<le> cur) (cs_upcoming a)"
    using schedule_written [OF _ vs views_while(1) [OF ups]] ws(2) by simp
  then have wire: "spec_wire prev cur a ws" using out by (auto simp: spec_wire_def)
  have same: "\<forall>m \<in> set (upcoming_messages ctx'). msg_view F V (output_buffer_pool ctx') m = msg_view F V ?pool m"
    by (rule views_kept [OF _ c(14)]) (use builders c(6) in \<open>auto dest: set_dropWhileD\<close>)
  have "map (msg_view F V (output_buffer_pool ctx')) (upcoming_messages ctx') =
      map (msg_view F V ?pool) (dropWhile (\<lambda>m. spb_send_time m \<le> cur) ?ups)"
    by (rule map_cong [OF c(6)]) (use same c(6) in simp)
  also have "\<dots> = map Some (dropWhile (\<lambda>w. stamp w \<le> cur) (cs_upcoming a))"
    by (rule views_while(2) [OF ups, unfolded views_def])
  finally have "client_rel F V items cap ctx' (spec_deadline cur pkts a)"
    using rel c(2,5,7,11-13) by (simp add: client_rel_def spec_deadline_def)
  moreover have "callbacks ctx' = callbacks ctx @ spec_callbacks pkts after a"
    using c(9) rel by (simp add: client_rel_def spec_callbacks_def)
  ultimately show ?thesis by (intro that [OF c(1) _ c(3) ws(1) wire _ c(10,8,15)])
qed

end
