(* ===== verification/Client_Run.thy ===== *)
theory Client_Run
  imports Client_Spec
begin

text \<open>
  Whole runs of the client. \<open>client_step\<close> is one operation on a context, with what an observer sees
  of it as its label: calls of the application with their results, and deadlines with the packets that
  came in and the messages that went out. \<open>spec_step\<close> is the same on the specification of
  \<open>Client_Spec\<close> together with the time slice. Every run of the client is a run of the specification,
  and what is proved of the runs of the specification is therefore true of the client.
\<close>

section \<open>The wire format is unambiguous\<close>

lemma frame_inject:
  assumes F: "fb_laws F V" and eq: "frame b @ r = frame b' @ r'" and len: "length b < 2 ^ 32" "length b' < 2 ^ 32"
  shows "b = b'" "r = r'"
proof -
  have l4: "length (le32 w) = 4" for w by (simp add: le32_def)
  have "le32 (word_of_nat (length b)) = le32 (word_of_nat (length b'))" and rest: "b @ r = b' @ r'"
    using eq by (simp_all add: frame_def l4)
  then have "(word_of_nat (length b) :: u32) = word_of_nat (length b')" using fb_read_u32D [OF F] by metis
  then have "unat (word_of_nat (length b) :: u32) = unat (word_of_nat (length b') :: u32)" by simp
  then have "length b = length b'" using len by (simp add: unat_of_nat)
  with rest show "b = b'" "r = r'" by simp_all
qed

lemma to_frame_inject:
  assumes F: "fb_laws F V" and "to_frame F fr m" "to_frame F fr' m'" "fr @ r = fr' @ r'"
  shows "m = m' \<and> r = r'"
proof -
  obtain b b' where b: "fr = frame b" "length b < 2 ^ 32" "fb_root_to_tansiv F b = Some m"
    "fr' = frame b'" "length b' < 2 ^ 32" "fb_root_to_tansiv F b' = Some m'"
    using assms(2,3) by (auto simp: to_frame_def)
  with frame_inject [OF F, of b r b' r'] assms(4) show ?thesis by simp
qed

lemma fb_time_of_inject: "fb_time_of t = fb_time_of t' \<longleftrightarrow> t = t'"
  using duration_of_fb_time_of by (metis option.inject sum.inject(2))

lemma send_packet_msg_inject:
  "send_packet_msg src dst t p = send_packet_msg src' dst' t' p' \<longleftrightarrow> (src, dst, t, p) = (src', dst', t', p')"
  "send_packet_msg src dst t p \<noteq> at_deadline_msg"
  by (auto simp: msg_defs fb_time_of_inject)

lemma mark_not_packet:
  assumes "fb_laws F V" "to_frame F e at_deadline_msg" "to_frame F fr (send_packet_msg src dst t p)"
  shows "e @ x \<noteq> fr @ y"
  using to_frame_inject [OF assms, of x y] send_packet_msg_inject(2) by metis

text \<open>
  The bytes of a deadline determine the messages, whatever comes after: the actor can read back what
  was sent.
\<close>

lemma wire_unique:
  assumes F: "fb_laws F V" and "wire F ws bs" "wire F ws' bs'" "bs @ x = bs' @ x'"
  shows "ws = ws' \<and> x = x'"
proof -
  let ?R = "\<lambda>(src, dst, t, p) fr. to_frame F fr (send_packet_msg src dst t p)"
  have key: "ws = ws' \<and> x = x'" if "list_all2 ?R ws frs" "list_all2 ?R ws' frs'" "to_frame F e at_deadline_msg"
    "to_frame F e' at_deadline_msg" "concat frs @ e @ x = concat frs' @ e' @ x'" for frs frs' e e' x x'
    using that
  proof (induction ws arbitrary: frs ws' frs')
    case Nil
    show ?case
    proof (cases ws')
      case Nil
      then show ?thesis using \<open>list_all2 ?R [] frs\<close> Nil.prems to_frame_inject [OF F Nil.prems(3,4)] by simp
    next
      case (Cons v vs)
      then show ?thesis using Nil.prems by (auto simp: list_all2_Cons1 dest: mark_not_packet [OF F])
    qed
  next
    case (Cons w ws)
    obtain src dst t p where w: "w = (src, dst, t, p)" by (cases w)
    obtain fr frs1 where fr: "frs = fr # frs1" "to_frame F fr (send_packet_msg src dst t p)" "list_all2 ?R ws frs1"
      using Cons.prems(1) w by (auto simp: list_all2_Cons1)
    have eq: "fr @ concat frs1 @ e @ x = concat frs' @ e' @ x'" using Cons.prems(5) fr(1) by simp
    show ?case
    proof (cases ws')
      case Nil
      then have "frs' = []" using Cons.prems(2) by simp
      then show ?thesis using mark_not_packet [OF F Cons.prems(4) fr(2)] eq by (metis append_Nil concat.simps(1))
    next
      case (Cons v vs)
      obtain src' dst' t' p' where v: "v = (src', dst', t', p')" by (cases v)
      obtain fr' frs2 where fr': "frs' = fr' # frs2" "to_frame F fr' (send_packet_msg src' dst' t' p')" "list_all2 ?R vs frs2"
        using Cons.prems(2) local.Cons v by (auto simp: list_all2_Cons1)
      have "send_packet_msg src dst t p = send_packet_msg src' dst' t' p' \<and> concat frs1 @ e @ x = concat frs2 @ e' @ x'"
        using eq fr'(1) by (intro to_frame_inject [OF F fr(2) fr'(2)]) simp
      with Cons.IH [OF fr(3) fr'(3) Cons.prems(3,4)] show ?thesis
        using local.Cons w v by (simp add: send_packet_msg_inject)
    qed
  qed
  obtain frs e where a: "list_all2 ?R ws frs" "to_frame F e at_deadline_msg" "bs = concat frs @ e"
    using assms(2) unfolding wire_def by blast
  obtain frs' e' where b: "list_all2 ?R ws' frs'" "to_frame F e' at_deadline_msg" "bs' = concat frs' @ e'"
    using assms(3) unfolding wire_def by blast
  show ?thesis by (rule key [OF a(1) b(1) a(2) b(2)]) (use assms(4) a(3) b(3) in simp)
qed

lemma dur_0_least [simp]: "dur 0 \<le> d"
  by (simp add: duration_le_iff duration_bound_def)

section \<open>Steps and runs\<close>

text \<open>
  \<open>EvDeadline prev cur pkts ws after cbs\<close>: the slice from \<open>prev\<close> to \<open>cur\<close> ends, \<open>pkts\<close> come in, \<open>ws\<close> go
  out, and the callbacks \<open>cbs\<close> are called. \<open>EvQuiet\<close>: bytes arrive, or the timer changes within a
  slice (time passes, clocks are frozen).
\<close>

datatype client_event =
    EvSend in_addr_t bytes "(unit, error) result"
  | EvRecv "(packet, error) result"
  | EvStart duration
  | EvDeadline duration duration "packet list" "stamped list" after_deadline "callback list"
  | EvQuiet

inductive run :: "('s \<Rightarrow> 'e \<Rightarrow> 's \<Rightarrow> bool) \<Rightarrow> 's \<Rightarrow> 'e list \<Rightarrow> 's \<Rightarrow> bool" for step where
  run_nil: "run step s [] s"
| run_snoc: "run step s tr s1 \<Longrightarrow> step s1 e s2 \<Longrightarrow> run step s (tr @ [e]) s2"

lemma run_simulates:
  assumes "run step x tr x'" "R x s"
    and "\<And>x e x' s. step x e x' \<Longrightarrow> R x s \<Longrightarrow> \<exists>s'. step' s e s' \<and> R x' s'"
  shows "\<exists>s'. run step' s tr s' \<and> R x' s'"
  using assms(1,2) by (induction rule: run.induct) (meson assms(3) run_nil run_snoc)+

lemma run_one: "step s e s' \<Longrightarrow> run step s [e] s'"
  using run_snoc [OF run_nil, of step s e s'] by simp

inductive_cases run_NilE: "run step s [] s'"
inductive_cases run_snocE: "run step s (tr @ [e]) s'"

lemma run_oneD: "run step s [e] s' \<Longrightarrow> step s e s'"
  using run_snocE [of step s "[]" e s'] by (auto elim: run_NilE)

lemma run_two: "step s e s1 \<Longrightarrow> step s1 e' s2 \<Longrightarrow> run step s [e, e'] s2"
  using run_snoc [OF run_one, of step s e s1 e' s2] by simp

lemma run_append:
  assumes "run step b tr' c" "run step a tr b"
  shows "run step a (tr @ tr') c"
  using assms by (induction rule: run.induct) (auto simp flip: append_assoc intro: run_snoc)

text \<open>The timer's slice after the deadline handler has acted on its answer.\<close>

fun slice_after :: "duration \<times> duration \<Rightarrow> after_deadline \<Rightarrow> duration \<times> duration" where
  "slice_after (prev, cur) (NextDeadline d) = (cur, d)"
| "slice_after (prev, cur) AfterEndSimulation = (prev, cur)"

fun goes_on :: "duration \<Rightarrow> after_deadline \<Rightarrow> bool" where
  "goes_on cur (NextDeadline d) \<longleftrightarrow> cur \<le> d"
| "goes_on cur AfterEndSimulation \<longleftrightarrow> True"

text \<open>
  One step of the client with the timer module \<open>T\<close>, whose slice is \<open>slice_of\<close>. The deadline is one
  of a connection that works, with an actor that sends packets that fit the input buffers, not more of
  them than there is room for, and no deadline before the current one.
\<close>

inductive client_step ::
  "('tm, 'now, 'd, 't, 'o) timer_ops \<Rightarrow> ('tm \<Rightarrow> duration \<times> duration) \<Rightarrow> ('b, 'o) flatbuffers \<Rightarrow>
     ('q, deliver_packet) array_queue \<Rightarrow> ('q \<Rightarrow> deliver_packet list) \<Rightarrow> ('q \<Rightarrow> nat) \<Rightarrow>
     ('b, 'o, 'q, 'tm) client_context \<Rightarrow> client_event \<Rightarrow> ('b, 'o, 'q, 'tm) client_context \<Rightarrow> bool"
  for T slice_of F A items cap where
  c_send: "Context_send T F ctx now dst msg = Some (r, ctx') \<Longrightarrow>
    client_step T slice_of F A items cap ctx (EvSend dst msg r) ctx'"
| c_recv: "Context_recv F A ctx buf = Some (r, buf', ctx') \<Longrightarrow>
    client_step T slice_of F A items cap ctx (EvRecv r) ctx'"
| c_start: "Context_start T F ctx now = Some (Ok off, ctx') \<Longrightarrow>
    callbacks ctx' = callbacks ctx @ [DeadlineCallback d] \<Longrightarrow> slice_of (timer_context ctx) = (dur 0, dur 0) \<Longrightarrow>
    client_step T slice_of F A items cap ctx (EvStart d) ctx'"
| c_deadline: "slice_of (timer_context ctx) = (prev, cur) \<Longrightarrow>
    t_previous_deadline T (timer_context ctx) = Some prev \<Longrightarrow> t_next_deadline T (timer_context ctx) = Some cur \<Longrightarrow>
    wr_faults (actor (connector ctx)) = [] \<Longrightarrow> in_time prev cur ctx \<Longrightarrow>
    rx (actor (connector ctx)) = concat frs @ fr @ rest \<Longrightarrow> packet_frames F pkts frs \<Longrightarrow> control_frame F after fr \<Longrightarrow>
    length (items (input_queue ctx)) + length pkts < cap (input_queue ctx) \<Longrightarrow> goes_on cur after \<Longrightarrow>
    Context_at_deadline T F A ctx = Some (after', ctx1) \<Longrightarrow>
    tx (actor (connector ctx1)) = tx (actor (connector ctx)) @ bs \<Longrightarrow> wire F ws bs \<Longrightarrow>
    callbacks ctx1 = callbacks ctx @ cbs \<Longrightarrow> slice_of tm' = slice_after (prev, cur) after' \<Longrightarrow>
    client_step T slice_of F A items cap ctx (EvDeadline prev cur pkts ws after' cbs) (ctx1\<lparr>timer_context := tm'\<rparr>)"
| c_quiet: "slice_of tm' = slice_of (timer_context ctx) \<Longrightarrow>
    client_step T slice_of F A items cap ctx EvQuiet
      (ctx\<lparr>timer_context := tm', connector := (connector ctx)\<lparr>actor := (actor (connector ctx))\<lparr>rx := rx (actor (connector ctx)) @ bs\<rparr>\<rparr>\<rparr>)"

text \<open>The same on the specification; the state is the slice and what \<open>Client_Spec\<close> describes.\<close>

inductive spec_step ::
  "(duration \<times> duration) \<times> client_spec \<Rightarrow> client_event \<Rightarrow> (duration \<times> duration) \<times> client_spec \<Rightarrow> bool" where
  s_send: "spec_send t overrun dst msg a = (r, a') \<Longrightarrow>
    (\<forall>t'. overrun = Some t' \<longrightarrow> cur < t' \<and> t \<le> t' \<and> (cs_upcoming a \<noteq> [] \<longrightarrow> stamp (last (cs_upcoming a)) \<le> t')) \<Longrightarrow>
    spec_step ((prev, cur), a) (EvSend dst msg r) ((prev, cur), a')"
| s_recv: "spec_recv buf a = ((r, buf'), a') \<Longrightarrow> spec_step (sl, a) (EvRecv r) (sl, a')"
| s_start: "spec_step ((dur 0, dur 0), a) (EvStart d) ((dur 0, d), a)"
| s_deadline: "\<forall>w \<in># cs_outbox a. stamp w \<le> cur \<Longrightarrow> spec_wire prev cur a ws \<Longrightarrow>
    length (cs_inbox a) + length pkts < cs_limit a \<Longrightarrow> goes_on cur after \<Longrightarrow>
    spec_step ((prev, cur), a) (EvDeadline prev cur pkts ws after (spec_callbacks pkts after a))
      (slice_after (prev, cur) after, spec_deadline cur pkts a)"
| s_quiet: "spec_step (sl, a) EvQuiet (sl, a)"

inductive_cases spec_deadlineE: "spec_step s (EvDeadline prev cur pkts ws after cbs) s'"

section \<open>The client simulates the specification\<close>

definition client_sim ::
  "('b, 'o) flatbuffers \<Rightarrow> ('b, 'o) fb_view \<Rightarrow> ('q \<Rightarrow> deliver_packet list) \<Rightarrow> ('q \<Rightarrow> nat) \<Rightarrow>
     ('tm \<Rightarrow> duration \<times> duration) \<Rightarrow> ('b, 'o, 'q, 'tm) client_context \<Rightarrow>
     (duration \<times> duration) \<times> client_spec \<Rightarrow> bool" where
  "client_sim F V items cap slice_of ctx s \<longleftrightarrow> client_rel F V items cap ctx (snd s) \<and>
     slice_of (timer_context ctx) = fst s \<and> fst (fst s) \<le> snd (fst s)"

lemma client_rel_input:
  assumes rel: "client_rel F V items cap ctx a" and inv: "in_inv F items cap conn (input_queue ctx)"
    and box: "inbox F items (ctx\<lparr>connector := conn\<rparr>) = inbox F items ctx"
  shows "client_rel F V items cap (ctx\<lparr>connector := conn, start_once := b, callbacks := cb, timer_context := tm\<rparr>) a"
  using assms by (simp add: client_rel_def ctx_inv_def inbox_def)

lemma start_shape:
  assumes "Context_start T F ctx now = Some (Ok off, ctx')"
  obtains d conn tm where "UnixConnector_recv F (connector ctx) = Some (Ok (GoToDeadline d), conn)"
    "t_start T (timer_context ctx) now d = Some (Ok off, tm)"
    "ctx' = ctx\<lparr>connector := conn, start_once := True, callbacks := callbacks ctx @ [DeadlineCallback d], timer_context := tm\<rparr>"
proof -
  have once: "\<not> start_once ctx" using assms by (auto simp: Context_start_def)
  obtain m conn where r: "UnixConnector_recv F (connector ctx) = Some (m, conn)"
    using assms once by (cases "UnixConnector_recv F (connector ctx)") (auto simp: Context_start_def)
  then obtain d where m: "m = Ok (GoToDeadline d)"
    using assms once by (auto simp: Context_start_def bind_eq_Some_conv split: sum.splits msg_in.splits)
  with r once assms obtain x tm where t: "t_start T (timer_context ctx) now d = Some (x, tm)"
    by (cases "t_start T (timer_context ctx) now d") (auto simp: Context_start_def)
  with m r once assms have "x = Ok off" by (cases x) (auto simp: Context_start_def)
  with t m r once assms show ?thesis by (intro that [of d conn tm]) (auto simp: Context_start_def)
qed

lemma start_refines:
  assumes rel: "client_rel F V items cap ctx a" and st: "Context_start T F ctx now = Some (Ok off, ctx')"
  obtains d where "client_rel F V items cap ctx' a" "callbacks ctx' = callbacks ctx @ [DeadlineCallback d]"
    "t_start T (timer_context ctx) now d = Some (Ok off, timer_context ctx')"
proof -
  obtain d conn tm where s: "UnixConnector_recv F (connector ctx) = Some (Ok (GoToDeadline d), conn)"
    "t_start T (timer_context ctx) now d = Some (Ok off, tm)"
    "ctx' = ctx\<lparr>connector := conn, start_once := True, callbacks := callbacks ctx @ [DeadlineCallback d], timer_context := tm\<rparr>"
    by (rule start_shape [OF st])
  have inv: "in_inv F items cap (connector ctx) (input_queue ctx)" using rel by (simp add: client_rel_def ctx_inv_def)
  have "inbox F items (ctx\<lparr>connector := conn\<rparr>) = inbox F items ctx" using inbox_keeps [OF inv s(1)] by (simp add: inbox_def)
  from client_rel_input [OF rel recv_other_inv [OF inv s(1)] this] s(2,3) show ?thesis by (intro that [of d]) simp_all
qed

lemma quiet_refines:
  assumes rel: "client_rel F V items cap ctx a"
  shows "client_rel F V items cap (ctx\<lparr>timer_context := tm, connector := (connector ctx)\<lparr>actor := s\<rparr>\<rparr>) a"
  using assms by (simp add: client_rel_def ctx_inv_def inbox_def in_inv_def connector_ok_def)

lemma upcoming_last:
  assumes "client_rel F V items cap ctx a" "cs_upcoming a \<noteq> []"
  shows "upcoming_messages ctx \<noteq> []" "stamp (last (cs_upcoming a)) = spb_send_time (last (upcoming_messages ctx))"
proof -
  let ?f = "msg_view F V (output_buffer_pool ctx)"
  have m: "map ?f (upcoming_messages ctx) = map Some (cs_upcoming a)" using assms(1) by (simp add: client_rel_def)
  then show ne: "upcoming_messages ctx \<noteq> []" using assms(2) by auto
  have "last (map ?f (upcoming_messages ctx)) = last (map Some (cs_upcoming a))" by (simp only: m)
  then have "?f (last (upcoming_messages ctx)) = Some (last (cs_upcoming a))"
    by (simp only: last_map [OF ne] last_map [OF assms(2)])
  then show "stamp (last (cs_upcoming a)) = spb_send_time (last (upcoming_messages ctx))" by (rule msg_view_stamp)
qed

lemma outbox_in_time:
  assumes rel: "client_rel F V items cap ctx a" and "in_time prev cur ctx" "prev \<le> cur"
  shows "\<forall>w \<in># cs_outbox a. stamp w \<le> cur"
proof
  fix w assume "w \<in># cs_outbox a"
  then have "Some w \<in># image_mset Some (cs_outbox a)" by simp
  also have "image_mset Some (cs_outbox a) =
      image_mset (msg_view F V (output_buffer_pool ctx)) (mset (pending (outgoing_messages ctx) 0))"
    using rel by (simp add: client_rel_def)
  finally obtain m where m: "m \<in> set (pending (outgoing_messages ctx) 0)" "msg_view F V (output_buffer_pool ctx) m = Some w"
    by auto
  then have "spb_send_time m \<le> cur" using assms(2,3) by (simp add: in_time_iff)
  then show "stamp w \<le> cur" using msg_view_stamp [OF m(2)] by simp
qed

lemma deadline_step:
  assumes F: "fb_laws F V" and A: "array_queue_laws A items cap" and rel: "client_rel F V items cap ctx a"
    and dl: "t_previous_deadline T (timer_context ctx) = Some prev" "t_next_deadline T (timer_context ctx) = Some cur"
      "prev \<le> cur"
    and up: "wr_faults (actor (connector ctx)) = []" "in_time prev cur ctx"
    and rx: "rx (actor (connector ctx)) = concat frs @ fr @ rest" "packet_frames F pkts frs" "control_frame F after fr"
    and room: "length (items (input_queue ctx)) + length pkts < cap (input_queue ctx)"
    and at: "Context_at_deadline T F A ctx = Some (after', ctx1)"
    and bs: "tx (actor (connector ctx1)) = tx (actor (connector ctx)) @ bs" "wire F ws bs"
    and cbs: "callbacks ctx1 = callbacks ctx @ cbs"
  shows "after' = after" "client_rel F V items cap ctx1 (spec_deadline cur pkts a)" "spec_wire prev cur a ws"
    "cbs = spec_callbacks pkts after a" "length (cs_inbox a) + length pkts < cs_limit a"
proof -
  have "length (inbox F items ctx) = length (items (input_queue ctx))" by (simp add: inbox_def)
  moreover have "inbox F items ctx = map Some (cs_inbox a)" "cap (input_queue ctx) = cs_limit a"
    using rel by (simp_all add: client_rel_def)
  ultimately show room': "length (cs_inbox a) + length pkts < cs_limit a" using room by simp
  obtain ctx' bs' ws' where d: "Context_at_deadline T F A ctx = Some (after, ctx')"
    "client_rel F V items cap ctx' (spec_deadline cur pkts a)"
    "tx (actor (connector ctx')) = tx (actor (connector ctx)) @ bs'" "wire F ws' bs'" "spec_wire prev cur a ws'"
    "callbacks ctx' = callbacks ctx @ spec_callbacks pkts after a"
    by (rule deadline_refines [OF F A rel dl up(1) outbox_in_time [OF rel up(2) dl(3)] rx room'])
  then show "after' = after" "client_rel F V items cap ctx1 (spec_deadline cur pkts a)" "cbs = spec_callbacks pkts after a"
    using at cbs by simp_all
  have "bs = bs'" using d(1,3) at bs(1) by simp
  then have "ws = ws'" using wire_unique [OF F bs(2) d(4), of "[]" "[]"] by simp
  with d(5) show "spec_wire prev cur a ws" by simp
qed

lemma goes_on_slice: "prev \<le> cur \<Longrightarrow> goes_on cur after \<Longrightarrow> fst (slice_after (prev, cur) after) \<le> snd (slice_after (prev, cur) after)"
  by (cases after) simp_all

lemma client_rel_timer [simp]: "client_rel F V items cap (ctx\<lparr>timer_context := tm\<rparr>) a = client_rel F V items cap ctx a"
  by (simp add: client_rel_def ctx_inv_def inbox_def)

context timer_impl
begin

abbreviation slice_of :: "'tm \<Rightarrow> duration \<times> duration" where
  "slice_of tm \<equiv> (prev_dl tm, next_dl tm)"

lemma send_step:
  assumes F: "fb_laws F V" and sim: "client_sim F V items cap slice_of ctx (sl, a)"
    and st: "Context_send T F ctx now dst msg = Some (r, ctx')"
  shows "\<exists>s'. spec_step (sl, a) (EvSend dst msg r) s' \<and> client_sim F V items cap slice_of ctx' s'"
proof -
  obtain prev cur where sl: "sl = (prev, cur)" by (cases sl)
  have rel: "client_rel F V items cap ctx a" and dl: "cur = next_dl (timer_context ctx)"
    using sim sl by (simp_all add: client_sim_def)
  obtain t where t: "t_simulation_now T (timer_context ctx) now = Some t"
    using st by (cases "t_simulation_now T (timer_context ctx) now") (auto simp: Context_send_def)
  let ?ov = "t_check_overrun T (timer_context ctx) t (upcoming_messages ctx)"
  obtain ctx1 where c: "Context_send T F ctx now dst msg = Some (fst (spec_send t ?ov dst msg a), ctx1)"
    "client_rel F V items cap ctx1 (snd (spec_send t ?ov dst msg a))" "timer_context ctx1 = timer_context ctx"
    using send_refines [OF F rel t, of dst msg] by blast
  have "\<forall>t'. ?ov = Some t' \<longrightarrow> cur < t' \<and> t \<le> t' \<and> (cs_upcoming a \<noteq> [] \<longrightarrow> stamp (last (cs_upcoming a)) \<le> t')"
    using overrun_late overrun_keeps overrun_order upcoming_last [OF rel] dl by metis
  then have "spec_step ((prev, cur), a) (EvSend dst msg r) ((prev, cur), snd (spec_send t ?ov dst msg a))"
    using c(1) st by (intro s_send [of t ?ov]) (simp_all add: prod_eq_iff)
  moreover have "client_sim F V items cap slice_of ctx' ((prev, cur), snd (spec_send t ?ov dst msg a))"
    using sim c st sl by (simp add: client_sim_def)
  ultimately show ?thesis using sl by blast
qed

lemma client_step_sim:
  assumes F: "fb_laws F V" and A: "array_queue_laws A items cap"
    and st: "client_step T slice_of F A items cap ctx e ctx'" and sim: "client_sim F V items cap slice_of ctx s"
  shows "\<exists>s'. spec_step s e s' \<and> client_sim F V items cap slice_of ctx' s'"
proof -
  obtain prev cur a where s: "s = ((prev, cur), a)" by (metis surj_pair)
  have rel: "client_rel F V items cap ctx a" and le: "prev \<le> cur"
    and dl: "prev_dl (timer_context ctx) = prev" "next_dl (timer_context ctx) = cur"
    using sim s by (simp_all add: client_sim_def)
  from st show ?thesis
  proof (cases rule: client_step.cases)
    case (c_send now dst msg r)
    then show ?thesis using send_step [OF F sim [unfolded s]] s by blast
  next
    case (c_recv buf r buf')
    obtain ctx1 where c: "Context_recv F A ctx buf = Some (fst (fst (spec_recv buf a)), snd (fst (spec_recv buf a)), ctx1)"
      "client_rel F V items cap ctx1 (snd (spec_recv buf a))" "timer_context ctx1 = timer_context ctx"
      using recv_refines [OF A rel, of buf] by blast
    then have "spec_recv buf a = ((r, buf'), snd (spec_recv buf a))" "ctx' = ctx1" using c_recv by (simp_all add: prod_eq_iff)
    with c sim s c_recv(1) show ?thesis
      by (intro exI [of _ "((prev, cur), snd (spec_recv buf a))"]) (simp add: client_sim_def s_recv)
  next
    case (c_start now off d)
    obtain d' where d: "client_rel F V items cap ctx' a" "callbacks ctx' = callbacks ctx @ [DeadlineCallback d']"
      "t_start T (timer_context ctx) now d' = Some (Ok off, timer_context ctx')"
      by (rule start_refines [OF rel c_start(2)])
    with c_start start_slice [OF d(3)] dl s show ?thesis
      by (intro exI [of _ "((dur 0, d), a)"]) (auto simp: client_sim_def s_start)
  next
    case (c_deadline prev' cur' frs fr rest pkts after after' ctx1 bs ws cbs tm')
    have eq: "prev' = prev" "cur' = cur" using c_deadline(3) dl by simp_all
    note d = deadline_step [OF F A rel c_deadline(4,5) _ c_deadline(6-11,13-16), unfolded eq, OF le]
    have "spec_step ((prev, cur), a) e (slice_after (prev, cur) after, spec_deadline cur pkts a)"
      using d eq c_deadline(1,7,12) outbox_in_time [OF rel _ le] by (auto intro: s_deadline)
    moreover have "client_sim F V items cap slice_of ctx' (slice_after (prev, cur) after, spec_deadline cur pkts a)"
      using d(1,2) eq c_deadline(2,12,17) goes_on_slice [OF le] by (simp add: client_sim_def)
    ultimately show ?thesis using s by blast
  next
    case (c_quiet tm' bs)
    then show ?thesis
      using sim s quiet_refines [OF rel] by (intro exI [of _ s]) (simp add: client_sim_def s_quiet)
  qed
qed

text \<open>Every run of the client is one of the specification.\<close>

lemma client_run_sim:
  assumes "fb_laws F V" "array_queue_laws A items cap"
    and "run (client_step T slice_of F A items cap) ctx tr ctx'" "client_sim F V items cap slice_of ctx s"
  shows "\<exists>s'. run spec_step s tr s' \<and> client_sim F V items cap slice_of ctx' s'"
  by (rule run_simulates [OF assms(3), where R = "client_sim F V items cap slice_of", OF assms(4)])
     (rule client_step_sim [OF assms(1,2)])

end

section \<open>What runs guarantee\<close>

text \<open>The packets that came in, and what the application got for the receives that found one.\<close>

fun delivered :: "client_event list \<Rightarrow> packet list" where
  "delivered [] = []"
| "delivered (EvDeadline prev cur pkts ws after cbs # tr) = pkts @ delivered tr"
| "delivered (e # tr) = delivered tr"

fun fetched :: "client_event list \<Rightarrow> (packet, error) result list" where
  "fetched [] = []"
| "fetched (EvRecv r # tr) = (if r = Err NoMessageAvailable then fetched tr else r # fetched tr)"
| "fetched (e # tr) = fetched tr"

text \<open>The messages accepted and the messages sent, by destination and content.\<close>

fun accepted :: "client_event list \<Rightarrow> (in_addr_t \<times> bytes) multiset" where
  "accepted [] = {#}"
| "accepted (EvSend dst msg (Inr _) # tr) = add_mset (dst, msg) (accepted tr)"
| "accepted (e # tr) = accepted tr"

fun written :: "client_event list \<Rightarrow> stamped list" where
  "written [] = []"
| "written (EvDeadline prev cur pkts ws after cbs # tr) = ws @ written tr"
| "written (e # tr) = written tr"

lemma delivered_append [simp]: "delivered (tr @ tr') = delivered tr @ delivered tr'"
  by (induction tr rule: delivered.induct) simp_all

lemma fetched_append [simp]: "fetched (tr @ tr') = fetched tr @ fetched tr'"
  by (induction tr rule: fetched.induct) simp_all

lemma accepted_append [simp]: "accepted (tr @ tr') = accepted tr + accepted tr'"
  by (induction tr rule: accepted.induct) simp_all

lemma written_append [simp]: "written (tr @ tr') = written tr @ written tr'"
  by (induction tr rule: written.induct) simp_all

definition content :: "stamped \<Rightarrow> in_addr_t \<times> bytes" where
  "content = (\<lambda>(src, dst, t, p). (dst, p))"

text \<open>
  First in, first out: the receives return the packets in the order they came in, each at most once; a
  packet is skipped only by a receive whose buffer was too small for it.
\<close>

lemma spec_fifo:
  assumes "run spec_step s tr s'" "cs_inbox (snd s) = []"
  shows "\<exists>got. delivered tr = got @ cs_inbox (snd s') \<and>
    list_all2 (\<lambda>p r. r = Ok p \<or> r = Err SizeTooBig) got (fetched tr)"
  using assms
proof (induction rule: run.induct)
  case (run_nil s)
  then show ?case by simp
next
  case (run_snoc s tr s1 e s2)
  then obtain got where got: "delivered tr = got @ cs_inbox (snd s1)"
    "list_all2 (\<lambda>p r. r = Ok p \<or> r = Err SizeTooBig) got (fetched tr)" by blast
  from run_snoc.hyps(2) show ?case
  proof (cases rule: spec_step.cases)
    case (s_recv buf a r buf' a' sl)
    show ?thesis
    proof (cases "cs_inbox a")
      case Nil
      then show ?thesis using got s_recv by (auto simp: spec_recv_def)
    next
      case (Cons x rest)
      obtain src dst p where x: "x = (src, dst, p)" by (cases x)
      have "cs_inbox a' = rest" "r = Ok x \<or> r = Err SizeTooBig"
        using s_recv(4) Cons x by (auto simp: spec_recv_def split: if_splits)
      with got s_recv(1-3) Cons show ?thesis
        by (intro exI [of _ "got @ [x]"]) (auto intro: list_all2_appendI)
    qed
  qed (use got in \<open>auto simp: spec_send_def spec_deadline_def split: if_splits option.splits\<close>)
qed

text \<open>
  Nothing is lost and nothing is made up: every message accepted is sent exactly once, or still waits.
\<close>

definition waiting :: "client_spec \<Rightarrow> (in_addr_t \<times> bytes) multiset" where
  "waiting a = image_mset content (cs_outbox a + mset (cs_upcoming a))"

lemma content_restamp [simp]: "content (restamp prev w) = content w"
  by (cases w) (simp add: content_def restamp_def)

lemma send_waiting:
  assumes "spec_send t ov dst msg a = (r, a')"
  shows "waiting a' = (case r of Inl _ \<Rightarrow> waiting a | Inr _ \<Rightarrow> add_mset (dst, msg) (waiting a))"
  using assms by (auto simp: spec_send_def waiting_def content_def split: if_splits option.splits)

lemma deadline_waiting:
  assumes "spec_wire prev cur a ws"
  shows "image_mset content (mset ws) + waiting (spec_deadline cur pkts a) = waiting a"
proof -
  let ?P = "\<lambda>w. stamp w \<le> cur"
  obtain xs where xs: "mset xs = image_mset (restamp prev) (cs_outbox a)" "ws = xs @ takeWhile ?P (cs_upcoming a)"
    using assms by (auto simp: spec_wire_def)
  have "image_mset content (mset xs) = image_mset content (cs_outbox a)"
    unfolding xs(1) by (simp add: image_mset.compositionality comp_def)
  moreover have "mset (takeWhile ?P (cs_upcoming a)) + mset (dropWhile ?P (cs_upcoming a)) = mset (cs_upcoming a)"
    by (simp flip: mset_append)
  then have "image_mset content (mset (takeWhile ?P (cs_upcoming a))) + image_mset content (mset (dropWhile ?P (cs_upcoming a))) =
      image_mset content (mset (cs_upcoming a))" by (simp flip: image_mset_union)
  ultimately show ?thesis using xs(2) by (simp add: waiting_def spec_deadline_def add.assoc)
qed

lemma spec_conserves:
  assumes "run spec_step s tr s'" "waiting (snd s) = {#}"
  shows "accepted tr = image_mset content (mset (written tr)) + waiting (snd s')"
  using assms
proof (induction rule: run.induct)
  case (run_snoc s tr s1 e s2)
  then have ih: "accepted tr = image_mset content (mset (written tr)) + waiting (snd s1)" by simp
  from run_snoc.hyps(2) show ?case
  proof (cases rule: spec_step.cases)
    case (s_send t ov dst msg a r a' cur prev)
    then show ?thesis using ih send_waiting [OF s_send(4)] by (cases r) simp_all
  next
    case (s_deadline a cur prev ws pkts after)
    then show ?thesis using ih deadline_waiting [OF s_deadline(5), of pkts] by (simp add: add.assoc)
  qed (use ih in \<open>auto simp: waiting_def spec_recv_def split: list.splits\<close>)
qed simp

text \<open>
  Time on the wire. What a deadline sends is stamped within the slice it ends, and the slices follow
  one another: time never goes back, within a client, between one deadline and the next.
\<close>

definition slice_ok :: "(duration \<times> duration) \<times> client_spec \<Rightarrow> bool" where
  "slice_ok s \<longleftrightarrow> fst (fst s) \<le> snd (fst s) \<and> sorted (map stamp (cs_upcoming (snd s))) \<and>
     (\<forall>w \<in> set (cs_upcoming (snd s)). fst (fst s) < stamp w)"

lemma slice_ok_send:
  assumes ok: "slice_ok ((prev, cur), a)" and st: "spec_send t ov dst msg a = (r, a')"
    and ov: "\<forall>t'. ov = Some t' \<longrightarrow> cur < t' \<and> t \<le> t' \<and> (cs_upcoming a \<noteq> [] \<longrightarrow> stamp (last (cs_upcoming a)) \<le> t')"
  shows "slice_ok ((prev, cur), a')"
proof (cases "cs_upcoming a' = cs_upcoming a")
  case True
  with ok show ?thesis by (simp add: slice_ok_def)
next
  case False
  then obtain t' where t': "ov = Some t'" "cs_upcoming a' = cs_upcoming a @ [(cs_address a, dst, t', msg)]"
    using st by (auto simp: spec_send_def split: if_splits option.splits)
  have "stamp w \<le> t'" if w: "w \<in> set (cs_upcoming a)" for w
  proof -
    have "stamp w \<le> stamp (last (cs_upcoming a))" using sorted_last_le [OF _ w, of stamp] ok by (simp add: slice_ok_def)
    moreover have "stamp (last (cs_upcoming a)) \<le> t'" using ov t'(1) w by auto
    ultimately show ?thesis by simp
  qed
  with ok t' ov show ?thesis by (auto simp: slice_ok_def sorted_append)
qed

lemma slice_ok_deadline:
  assumes ok: "slice_ok ((prev, cur), a)" and "goes_on cur after"
  shows "slice_ok (slice_after (prev, cur) after, spec_deadline cur pkts a)"
proof -
  let ?D = "dropWhile (\<lambda>w. stamp w \<le> cur) (cs_upcoming a)"
  have s: "sorted (map stamp ?D)" using ok by (intro sorted_map_dropWhile) (simp add: slice_ok_def)
  have "cur < stamp w" if w: "w \<in> set ?D" for w
  proof -
    obtain x xs where x: "?D = x # xs" using w by (cases ?D) auto
    then have "\<not> stamp x \<le> cur" by (metis hd_dropWhile list.sel(1) list.simps(3))
    moreover have "stamp x \<le> stamp w" using s w x by auto
    ultimately show ?thesis by simp
  qed
  moreover have "fst (slice_after (prev, cur) after) \<le> cur" using ok by (cases after) (simp_all add: slice_ok_def)
  ultimately show ?thesis
    using s goes_on_slice [OF _ assms(2), of prev] ok by (force simp: slice_ok_def spec_deadline_def)
qed

lemma slice_ok_step: "spec_step s e s' \<Longrightarrow> slice_ok s \<Longrightarrow> slice_ok s'"
proof (induction rule: spec_step.induct)
  case (s_send t overrun dst msg a r a' cur prev)
  show ?case by (rule slice_ok_send [OF s_send(3,1,2)])
next
  case (s_deadline a cur prev ws pkts after)
  show ?case by (rule slice_ok_deadline [OF s_deadline(5,4)])
qed (auto simp: slice_ok_def spec_recv_def split: list.splits)

lemma wire_in_slice:
  assumes "slice_ok ((prev, cur), a)" "\<forall>w \<in># cs_outbox a. stamp w \<le> cur" "spec_wire prev cur a ws" "w \<in> set ws"
  shows "prev \<le> stamp w \<and> stamp w \<le> cur"
proof -
  obtain xs where xs: "mset xs = image_mset (restamp prev) (cs_outbox a)"
    "ws = xs @ takeWhile (\<lambda>w. stamp w \<le> cur) (cs_upcoming a)" using assms(3) by (auto simp: spec_wire_def)
  show ?thesis
  proof (cases "w \<in> set xs")
    case True
    then have "w \<in># image_mset (restamp prev) (cs_outbox a)" by (simp flip: xs(1))
    then obtain v where "v \<in># cs_outbox a" "stamp w = max prev (stamp v)" by (auto simp: restamp_def)
    with assms(1,2) show ?thesis by (simp add: slice_ok_def)
  next
    case False
    then have "w \<in> set (takeWhile (\<lambda>w. stamp w \<le> cur) (cs_upcoming a))" using assms(4) xs(2) by simp
    with assms(1) show ?thesis by (auto simp: slice_ok_def dest!: set_takeWhileD intro: less_imp_le)
  qed
qed

fun in_slice :: "client_event \<Rightarrow> bool" where
  "in_slice (EvDeadline prev cur pkts ws after cbs) \<longleftrightarrow> (\<forall>w \<in> set ws. prev \<le> stamp w \<and> stamp w \<le> cur)"
| "in_slice e \<longleftrightarrow> True"

fun slices_follow :: "client_event \<Rightarrow> client_event \<Rightarrow> bool" where
  "slices_follow (EvDeadline prev cur pkts ws (NextDeadline d) cbs) (EvDeadline prev' cur' pkts' ws' after' cbs') \<longleftrightarrow> cur \<le> prev'"
| "slices_follow e e' \<longleftrightarrow> True"

text \<open>The slices ended so far lie before the current one.\<close>

fun slice_before :: "duration \<Rightarrow> client_event \<Rightarrow> bool" where
  "slice_before prev (EvDeadline prev' cur' pkts ws (NextDeadline d) cbs) \<longleftrightarrow> cur' \<le> prev"
| "slice_before prev e \<longleftrightarrow> True"

lemma slice_before_mono: "slice_before p e \<Longrightarrow> p \<le> q \<Longrightarrow> slice_before q e"
  by (induction p e rule: slice_before.induct) auto

lemma slice_after_prev: "prev \<le> cur \<Longrightarrow> prev \<le> fst (slice_after (prev, cur) after)"
  by (cases after) simp_all

lemma slice_before_after: "slice_before (fst (slice_after (prev, cur) after)) (EvDeadline prev cur pkts ws after cbs)"
  by (cases after) simp_all

lemma slice_before_follow: "slice_before prev x \<Longrightarrow> slices_follow x (EvDeadline prev cur pkts ws after cbs)"
  by (induction prev x rule: slice_before.induct) simp_all

lemma spec_step_prev: "spec_step s e s' \<Longrightarrow> slice_ok s \<Longrightarrow> fst (fst s) \<le> fst (fst s')"
  by (induction rule: spec_step.induct) (simp_all add: slice_ok_def slice_after_prev)

lemma spec_step_time:
  assumes "spec_step s e s'" "slice_ok s"
  shows "in_slice e \<and> slice_before (fst (fst s')) e \<and> (\<forall>x. slice_before (fst (fst s)) x \<longrightarrow> slices_follow x e)"
  using assms
proof (induction rule: spec_step.induct)
  case (s_deadline a cur prev ws pkts after)
  then show ?case
    using wire_in_slice [OF s_deadline(5,1,2)] slice_before_after slice_before_follow by simp
qed simp_all

lemma spec_time:
  assumes "run spec_step s tr s'" "slice_ok s"
  shows "slice_ok s' \<and> (\<forall>e \<in> set tr. in_slice e \<and> slice_before (fst (fst s')) e) \<and> sorted_wrt slices_follow tr"
  using assms
proof (induction rule: run.induct)
  case (run_snoc s tr s1 e s2)
  then have ok: "slice_ok s1" and ih: "\<forall>e \<in> set tr. in_slice e \<and> slice_before (fst (fst s1)) e" "sorted_wrt slices_follow tr"
    by simp_all
  have "slice_ok s2" by (rule slice_ok_step [OF run_snoc.hyps(2) ok])
  then show ?case
    using ih spec_step_time [OF run_snoc.hyps(2) ok] spec_step_prev [OF run_snoc.hyps(2) ok] by (auto simp: sorted_wrt_append intro: slice_before_mono)
qed simp

section \<open>From creation on\<close>

text \<open>The deadline of a working connection is a step of the client.\<close>

lemma deadline_client_step:
  assumes F: "fb_laws F V" and A: "array_queue_laws A items cap" and inv: "ctx_inv F V items cap ctx"
    and dl: "slice_of (timer_context ctx) = (prev, cur)"
      "t_previous_deadline T (timer_context ctx) = Some prev" "t_next_deadline T (timer_context ctx) = Some cur"
    and up: "wr_faults (actor (connector ctx)) = []" "in_time prev cur ctx"
    and rx: "rx (actor (connector ctx)) = concat frs @ fr @ rest" "packet_frames F pkts frs" "control_frame F after fr"
    and room: "length (items (input_queue ctx)) + length pkts < cap (input_queue ctx)" "goes_on cur after"
  obtains ctx1 ws cbs where "Context_at_deadline T F A ctx = Some (after, ctx1)" "timer_context ctx1 = timer_context ctx"
    "\<forall>tm'. slice_of tm' = slice_after (prev, cur) after \<longrightarrow>
       client_step T slice_of F A items cap ctx (EvDeadline prev cur pkts ws after cbs) (ctx1\<lparr>timer_context := tm'\<rparr>)"
proof -
  obtain ctx1 bs where c: "Context_at_deadline T F A ctx = Some (after, ctx1)"
    "tx (actor (connector ctx1)) = tx (actor (connector ctx)) @ bs"
    "deadline_bytes F V (output_buffer_pool ctx) (deadline_schedule prev cur ctx) bs"
    "callbacks ctx1 = callbacks ctx @ (if inbox F items ctx = [] \<and> pkts \<noteq> [] then [RecvCallback] else []) @
       (case after of NextDeadline d \<Rightarrow> [DeadlineCallback d] | AfterEndSimulation \<Rightarrow> [])"
    "timer_context ctx1 = timer_context ctx"
    by (rule at_deadline_exchange [OF F A inv dl(2,3) up rx room(1)])
  obtain ws where ws: "wire F ws bs" by (rule deadline_bytes_wire [OF c(3)])
  note step = c_deadline [where slice_of = slice_of and items = items and cap = cap, OF dl up rx room c(1,2) ws c(4)]
  show ?thesis by (rule that [OF c(1,5)]) (use step in blast)
qed

text \<open>Starting, when the actor's first message is a deadline.\<close>

lemma start_on_deadline:
  assumes F: "fb_laws F V" and inv: "ctx_inv F V items cap ctx" and once: "\<not> start_once ctx"
    and rx: "rx (actor (connector ctx)) = fr @ rest" "control_frame F (NextDeadline d) fr"
    and room: "length (items (input_queue ctx)) < cap (input_queue ctx)"
    and tm: "t_start T (timer_context ctx) now d = Some (Ok off, tm')"
  obtains conn where "Context_start T F ctx now = Some (Ok off,
      ctx\<lparr>connector := conn, start_once := True, callbacks := callbacks ctx @ [DeadlineCallback d], timer_context := tm'\<rparr>)"
    "rx (actor conn) = rest" "wr_faults (actor conn) = wr_faults (actor (connector ctx))"
    "in_inv F items cap conn (input_queue ctx)"
proof -
  have i: "in_inv F items cap (connector ctx) (input_queue ctx)" using inv by (simp add: ctx_inv_def)
  obtain conn where c: "UnixConnector_recv F (connector ctx) = Some (Ok (GoToDeadline d), conn)" "rx (actor conn) = rest"
    by (rule UnixConnector_recv_control [OF F i room rx(2,1)]) simp
  have "wr_faults (actor conn) = wr_faults (actor (connector ctx))"
    using UnixConnector_recvD [OF _ c(1)] i by (simp add: in_inv_def recv_post_def)
  with c once tm recv_other_inv [OF i c(1)] show ?thesis by (intro that [of conn]) (simp_all add: Context_start_def)
qed

text \<open>It is a step of the client.\<close>

lemma start_client_step:
  assumes F: "fb_laws F V" and rel: "client_rel F V items cap ctx a" "\<not> start_once ctx"
    and rx: "rx (actor (connector ctx)) = fr @ rest" "control_frame F (NextDeadline d) fr"
    and room: "length (items (input_queue ctx)) < cap (input_queue ctx)"
    and tm: "t_start T (timer_context ctx) now d = Some (Ok off, tm')" "slice_of (timer_context ctx) = (dur 0, dur 0)"
  obtains ctx' where "client_step T slice_of F A items cap ctx (EvStart d) ctx'" "client_rel F V items cap ctx' a"
    "rx (actor (connector ctx')) = rest" "wr_faults (actor (connector ctx')) = wr_faults (actor (connector ctx))"
    "timer_context ctx' = tm'"
proof -
  have inv: "ctx_inv F V items cap ctx" using rel by (simp add: client_rel_def)
  obtain conn where c: "Context_start T F ctx now = Some (Ok off,
      ctx\<lparr>connector := conn, start_once := True, callbacks := callbacks ctx @ [DeadlineCallback d], timer_context := tm'\<rparr>)"
    "rx (actor conn) = rest" "wr_faults (actor conn) = wr_faults (actor (connector ctx))"
    by (rule start_on_deadline [where T = T and now = now and off = off and tm' = tm', OF F inv rel(2) rx room tm(1)])
  let ?ctx = "ctx\<lparr>connector := conn, start_once := True, callbacks := callbacks ctx @ [DeadlineCallback d], timer_context := tm'\<rparr>"
  have "client_step T slice_of F A items cap ctx (EvStart d) ?ctx" by (rule c_start [OF c(1)]) (use tm(2) in simp_all)
  moreover have "client_rel F V items cap ?ctx a" by (rule start_refines [OF rel(1) c(1)])
  ultimately show ?thesis using c(2,3) by (intro that [of ?ctx]) simp_all
qed

context timer_impl
begin

lemma new_sim:
  assumes "array_queue_laws A items cap" "0 < num_buffers cfg" "prev_dl tm \<le> next_dl tm"
    and "Context_new F A connect (Ok tm) register cfg = Some (Ok ctx)"
  shows "client_sim F V items cap slice_of ctx (slice_of tm, spec_new (cfg_address cfg) (num_buffers cfg))"
proof -
  have "timer_context ctx = tm" using Context_new_inv(12) [OF assms(1,2,4)] by simp
  with new_refines [OF assms(1,2,4)] assms(3) show ?thesis by (simp add: client_sim_def)
qed

lemma client_runs:
  assumes F: "fb_laws F V" and A: "array_queue_laws A items cap" and n: "0 < num_buffers cfg"
    and new: "Context_new F A connect (Ok tm) register cfg = Some (Ok ctx)" "prev_dl tm \<le> next_dl tm"
    and r: "run (client_step T slice_of F A items cap) ctx tr ctx'"
  obtains a where "run spec_step (slice_of tm, spec_new (cfg_address cfg) (num_buffers cfg)) tr (slice_of (timer_context ctx'), a)"
    "client_rel F V items cap ctx' a"
proof -
  from client_run_sim [OF F A r new_sim [OF A n new(2,1)]] obtain s' where
    "run spec_step (slice_of tm, spec_new (cfg_address cfg) (num_buffers cfg)) tr s'" "client_sim F V items cap slice_of ctx' s'"
    by blast
  then show ?thesis by (intro that [of "snd s'"]) (auto simp: client_sim_def)
qed

lemma client_fifo:
  assumes "fb_laws F V" "array_queue_laws A items cap" "0 < num_buffers cfg"
    "Context_new F A connect (Ok tm) register cfg = Some (Ok ctx)" "prev_dl tm \<le> next_dl tm"
    "run (client_step T slice_of F A items cap) ctx tr ctx'"
  shows "\<exists>got rest. delivered tr = got @ rest \<and> inbox F items ctx' = map Some rest \<and>
    list_all2 (\<lambda>p r. r = Ok p \<or> r = Err SizeTooBig) got (fetched tr)"
proof -
  obtain a where a: "run spec_step (slice_of tm, spec_new (cfg_address cfg) (num_buffers cfg)) tr (slice_of (timer_context ctx'), a)"
    "client_rel F V items cap ctx' a" by (rule client_runs [OF assms])
  from spec_fifo [OF a(1)] a(2) show ?thesis by (auto simp: spec_new_def client_rel_def)
qed

lemma client_conserves:
  assumes "fb_laws F V" "array_queue_laws A items cap" "0 < num_buffers cfg"
    "Context_new F A connect (Ok tm) register cfg = Some (Ok ctx)" "prev_dl tm \<le> next_dl tm"
    "run (client_step T slice_of F A items cap) ctx tr ctx'"
  shows "\<exists>W. accepted tr = image_mset content (mset (written tr)) + W \<and> size W = waiting_messages ctx'"
proof -
  obtain a where a: "run spec_step (slice_of tm, spec_new (cfg_address cfg) (num_buffers cfg)) tr (slice_of (timer_context ctx'), a)"
    "client_rel F V items cap ctx' a" by (rule client_runs [OF assms])
  have "accepted tr = image_mset content (mset (written tr)) + waiting a"
    using spec_conserves [OF a(1)] by (simp add: spec_new_def waiting_def)
  moreover have "size (waiting a) = waiting_messages ctx'" using client_rel_waiting [OF a(2)] by (simp add: waiting_def)
  ultimately show ?thesis by blast
qed

lemma client_time:
  assumes "fb_laws F V" "array_queue_laws A items cap" "0 < num_buffers cfg"
    "Context_new F A connect (Ok tm) register cfg = Some (Ok ctx)" "prev_dl tm \<le> next_dl tm"
    "run (client_step T slice_of F A items cap) ctx tr ctx'"
  shows "(\<forall>e \<in> set tr. in_slice e) \<and> sorted_wrt slices_follow tr"
proof -
  obtain a where a: "run spec_step (slice_of tm, spec_new (cfg_address cfg) (num_buffers cfg)) tr (slice_of (timer_context ctx'), a)"
    by (rule client_runs [OF assms])
  with spec_time [OF a] assms(5) show ?thesis by (simp add: slice_ok_def spec_new_def)
qed

end

end
