(* ===== verification/Wire_Socket.thy ===== *)
theory Wire_Socket
  imports Connector
begin

text \<open>
  The coordinator's side of a connection, \<open>wire/socket.cpp\<close>: sending and receiving whole messages over a stream
  socket, with system calls that may be interrupted or transfer less than they were asked to.

  A socket is what the peer has written and not been read yet, what was written to the peer, and the answers the
  next system calls give. When no answer is left, a call transfers everything it was asked to, or what
  there is before the end of the stream. Descriptors lead to sockets; a call on a closed one fails.
\<close>

section \<open>Sockets\<close>

datatype sys_answer = Count nat | Interrupted | Failed

record vm_socket =
  sk_in :: bytes
  sk_out :: bytes
  sk_recv_answers :: "sys_answer list"
  sk_send_answers :: "sys_answer list"

type_synonym descriptors = "c_int \<Rightarrow> vm_socket option"

datatype socket_error = PeerClosed | BufferTooSmall | BadDescriptor | SystemError

section \<open>Sending and receiving\<close>

text \<open>
  The loop of \<open>vsg_protocol_send\<close>: the answers left, the bytes not sent yet and those sent. A count of bytes
  is what the call took; an interrupted call is made again.
\<close>

fun send_loop :: "sys_answer list \<Rightarrow> bytes \<Rightarrow> bytes \<Rightarrow> (unit, socket_error) result \<times> bytes \<times> sys_answer list" where
  "send_loop [] buf out = (Ok (), out @ buf, [])"
| "send_loop (Count k # answers) buf out =
     (if drop k buf = [] then (Ok (), out @ take k buf, answers)
      else send_loop answers (drop k buf) (out @ take k buf))"
| "send_loop (Interrupted # answers) buf out =
     (if buf = [] then (Ok (), out, answers) else send_loop answers buf out)"
| "send_loop (Failed # answers) buf out = (Err SystemError, out, answers)"

definition vsg_protocol_send :: "descriptors \<Rightarrow> c_int \<Rightarrow> bytes \<Rightarrow> (unit, socket_error) result \<times> descriptors" where
  "vsg_protocol_send fds fd buf =
     (case fds fd of
        None \<Rightarrow> (Err BadDescriptor, fds)
      | Some s \<Rightarrow>
          (let (r, out, answers) = send_loop (sk_send_answers s) buf (sk_out s)
           in (r, fds(fd \<mapsto> s\<lparr>sk_out := out, sk_send_answers := answers\<rparr>))))"

text \<open>
  The loop of \<open>vsg_protocol_recv\<close>: the answers left, the bytes there are, how many are still asked for, and those
  received. A call that returns at all gives at least one byte, unless the stream is at its end.
\<close>

fun recv_loop ::
  "sys_answer list \<Rightarrow> bytes \<Rightarrow> nat \<Rightarrow> bytes \<Rightarrow> (bytes, socket_error) result \<times> bytes \<times> sys_answer list" where
  "recv_loop [] inp curlen buf =
     (if curlen \<le> length inp then (Ok (buf @ take curlen inp), drop curlen inp, []) else (Err PeerClosed, [], []))"
| "recv_loop (Count k # answers) inp curlen buf =
     (let count = min (max 1 k) (min curlen (length inp))
      in if count = 0 \<and> 0 < curlen then (Err PeerClosed, inp, answers)
         else if count = curlen then (Ok (buf @ take count inp), drop count inp, answers)
         else recv_loop answers (drop count inp) (curlen - count) (buf @ take count inp))"
| "recv_loop (Interrupted # answers) inp curlen buf =
     (if curlen = 0 then (Ok buf, inp, answers) else recv_loop answers inp curlen buf)"
| "recv_loop (Failed # answers) inp curlen buf = (Err SystemError, inp, answers)"

definition vsg_protocol_recv :: "descriptors \<Rightarrow> c_int \<Rightarrow> nat \<Rightarrow> (bytes, socket_error) result \<times> descriptors" where
  "vsg_protocol_recv fds fd len =
     (case fds fd of
        None \<Rightarrow> (Err BadDescriptor, fds)
      | Some s \<Rightarrow>
          (let (r, inp, answers) = recv_loop (sk_recv_answers s) (sk_in s) len []
           in (r, fds(fd \<mapsto> s\<lparr>sk_in := inp, sk_recv_answers := answers\<rparr>))))"

definition fb_recv ::
  "('b, 'o) flatbuffers \<Rightarrow> descriptors \<Rightarrow> c_int \<Rightarrow> nat \<Rightarrow> (bytes, socket_error) result \<times> descriptors" where
  "fb_recv F fds sock buf_size =
     (case vsg_protocol_recv fds sock 4 of
        (Inl e, fds) \<Rightarrow> (Err e, fds)
      | (Inr len_buf, fds) \<Rightarrow>
          (let len = unat (fb_read_u32 F len_buf)
           in if buf_size < len then (Err BufferTooSmall, fds) else vsg_protocol_recv fds sock len))"

section \<open>Interrupted and partial transfers\<close>

text \<open>
  Unless a call fails for good, a transfer is as if it had been made by one call: all the bytes of a message are
  sent, and as many bytes as asked for are received if the peer sends them before it closes the connection.
\<close>

lemma send_loop_whole:
  assumes "Failed \<notin> set answers"
  shows "\<exists>answers'. send_loop answers buf out = (Ok (), out @ buf, answers') \<and> set answers' \<subseteq> set answers"
  using assms by (induction answers buf out rule: send_loop.induct) (auto simp flip: append.assoc)

lemma take_take_drop: "c \<le> n \<Longrightarrow> take c xs @ take (n - c) (drop c xs) = take n xs"
  by (metis take_add le_add_diff_inverse)

lemma recv_loop_Count:
  assumes "c = min (max 1 k) (min n (length inp))"
  shows "recv_loop (Count k # answers) inp n buf =
    (if c = 0 \<and> 0 < n then (Err PeerClosed, [], answers) else if c = n then (Ok (buf @ take n inp), drop n inp, answers)
     else recv_loop answers (drop c inp) (n - c) (buf @ take c inp))"
  using assms by (auto simp: Let_def min_def split: if_splits)

declare recv_loop.simps(2) [simp del]

lemma recv_loop_whole:
  assumes "Failed \<notin> set answers"
  shows "\<exists>answers'. recv_loop answers inp n buf =
      (if n \<le> length inp then (Ok (buf @ take n inp), drop n inp, answers') else (Err PeerClosed, [], answers')) \<and>
    set answers' \<subseteq> set answers"
  using assms
proof (induction answers arbitrary: inp n buf)
  case (Cons a answers)
  show ?case
  proof (cases a)
    case (Count k)
    define c where "c = min (max 1 k) (min n (length inp))"
    have "c \<le> n" by (simp add: c_def)
    then consider "c = 0" "0 < n" | "c = n" | "c < n" "0 < c" by linarith
    then show ?thesis
    proof cases
      case 1
      then have "inp = []" by (auto simp: c_def min_def split: if_splits)
      moreover have "recv_loop (Count k # answers) inp n buf = (Err PeerClosed, [], answers)"
        using 1 by (simp add: recv_loop_Count [OF c_def])
      ultimately show ?thesis using 1 Count by auto
    next
      case 2
      then have "n \<le> length inp" by (simp add: c_def min_def split: if_splits)
      moreover have "recv_loop (Count k # answers) inp n buf = (Ok (buf @ take n inp), drop n inp, answers)"
        using 2 by (auto simp: recv_loop_Count [OF c_def])
      ultimately show ?thesis using Count by auto
    next
      case 3
      have le: "c \<le> length inp" by (simp add: c_def)
      obtain answers' where r: "recv_loop answers (drop c inp) (n - c) (buf @ take c inp) =
          (if n - c \<le> length (drop c inp) then (Ok ((buf @ take c inp) @ take (n - c) (drop c inp)), drop (n - c) (drop c inp), answers')
           else (Err PeerClosed, [], answers'))" "set answers' \<subseteq> set answers"
        using Cons.IH [of "drop c inp" "n - c" "buf @ take c inp"] Cons.prems by auto
      have n: "n - c \<le> length (drop c inp) \<longleftrightarrow> n \<le> length inp" using le 3 by auto
      have "recv_loop (a # answers) inp n buf = recv_loop answers (drop c inp) (n - c) (buf @ take c inp)"
        using 3 by (simp add: Count recv_loop_Count [OF c_def])
      also have "\<dots> = (if n \<le> length inp then (Ok (buf @ take n inp), drop n inp, answers') else (Err PeerClosed, [], answers'))"
        using r(1) n 3(1) take_take_drop [of c n inp] by (simp del: take_drop)
      finally show ?thesis using r(2) by auto
    qed
  next
    case Interrupted
    obtain answers' where "recv_loop answers inp n buf =
        (if n \<le> length inp then (Ok (buf @ take n inp), drop n inp, answers') else (Err PeerClosed, [], answers'))"
      "set answers' \<subseteq> set answers"
      using Cons.IH [of inp n buf] Cons.prems by auto
    then show ?thesis using Interrupted by (cases "n = 0") auto
  qed (use Cons in simp)
qed simp

text \<open>A call never makes up bytes: what is received and what remains is what was there.\<close>

lemma recv_loop_split:
  assumes "recv_loop answers inp n buf = (Inr bs, inp', answers')"
  shows "bs @ inp' = buf @ inp \<and> length bs = length buf + n"
  using assms
proof (induction answers arbitrary: inp n buf)
  case (Cons a answers)
  show ?case
  proof (cases a)
    case (Count k)
    define c where "c = min (max 1 k) (min n (length inp))"
    have le: "c \<le> length inp" "c \<le> n" by (simp_all add: c_def)
    show ?thesis
      using Cons le Cons.IH [of "drop c inp" "n - c" "buf @ take c inp"]
      by (auto simp: Count recv_loop_Count [OF c_def] split: if_splits)
  qed (use Cons in \<open>auto split: if_splits\<close>)
qed (auto split: if_splits)

section \<open>Whole messages\<close>

text \<open>A connection on which no call fails for good, with \<open>inp\<close> to be read.\<close>

definition readable :: "descriptors \<Rightarrow> c_int \<Rightarrow> bytes \<Rightarrow> bool" where
  "readable fds fd inp \<longleftrightarrow> (\<exists>s. fds fd = Some s \<and> sk_in s = inp \<and> Failed \<notin> set (sk_recv_answers s))"

text \<open>Reading changes what there is to read on the descriptor and nothing else.\<close>

definition read_only :: "descriptors \<Rightarrow> c_int \<Rightarrow> descriptors \<Rightarrow> bool" where
  "read_only fds fd fds' \<longleftrightarrow> (\<forall>fd'. fd' \<noteq> fd \<longrightarrow> fds' fd' = fds fd') \<and>
     map_option sk_out (fds' fd) = map_option sk_out (fds fd) \<and>
     map_option sk_send_answers (fds' fd) = map_option sk_send_answers (fds fd)"

lemma read_only_refl [simp]: "read_only fds fd fds"
  by (simp add: read_only_def)

lemma read_only_trans: "read_only a fd b \<Longrightarrow> read_only b fd c \<Longrightarrow> read_only a fd c"
  by (simp add: read_only_def)

lemma recv_read_only:
  assumes "vsg_protocol_recv fds fd n = (r, fds')"
  shows "read_only fds fd fds'"
  using assms by (auto simp: vsg_protocol_recv_def read_only_def case_prod_beta split: option.splits)

lemma recv_readable:
  assumes "readable fds fd inp"
  obtains fds' where "vsg_protocol_recv fds fd n = (if n \<le> length inp then Ok (take n inp) else Err PeerClosed, fds')"
    "readable fds' fd (if n \<le> length inp then drop n inp else [])" "read_only fds fd fds'"
proof -
  obtain s where s: "fds fd = Some s" "sk_in s = inp" "Failed \<notin> set (sk_recv_answers s)" using assms by (auto simp: readable_def)
  obtain answers where a: "recv_loop (sk_recv_answers s) inp n [] =
      (if n \<le> length inp then (Ok (take n inp), drop n inp, answers) else (Err PeerClosed, [], answers))"
    "set answers \<subseteq> set (sk_recv_answers s)"
    using recv_loop_whole [OF s(3), of inp n "[]"] by auto
  let ?fds = "fds(fd \<mapsto> s\<lparr>sk_in := if n \<le> length inp then drop n inp else [], sk_recv_answers := answers\<rparr>)"
  have r: "vsg_protocol_recv fds fd n = (if n \<le> length inp then Ok (take n inp) else Err PeerClosed, ?fds)"
    using s a(1) by (simp add: vsg_protocol_recv_def)
  show ?thesis by (rule that [OF r _ recv_read_only [OF r]]) (use s(3) a(2) in \<open>auto simp: readable_def\<close>)
qed

lemma fb_recv_read_only:
  assumes "fb_recv F fds fd n = (r, fds')"
  shows "read_only fds fd fds'"
proof -
  obtain r1 fds1 where 1: "vsg_protocol_recv fds fd 4 = (r1, fds1)" by fastforce
  note ro = recv_read_only [OF 1]
  show ?thesis
    using assms 1 ro
    by (auto simp: fb_recv_def Let_def split: sum.splits if_splits intro: read_only_trans [OF ro recv_read_only])
qed

lemma fb_recv_frame:
  assumes F: "fb_laws F V" and r: "readable fds fd (frame body @ rest)" and len: "length body < 2 ^ 32"
  obtains fds' where "fb_recv F fds fd n = (if n < length body then Err BufferTooSmall else Ok body, fds')"
    "readable fds' fd (if n < length body then body @ rest else rest)" "read_only fds fd fds'"
proof -
  have fr: "frame body @ rest = le32 (word_of_nat (length body)) @ body @ rest" by (simp add: frame_def)
  obtain fds1 where 1: "vsg_protocol_recv fds fd 4 = (Ok (le32 (word_of_nat (length body))), fds1)" "readable fds1 fd (body @ rest)"
    by (rule recv_readable [OF r, of 4]) (simp add: fr)
  obtain fds2 where 2: "vsg_protocol_recv fds1 fd (length body) = (Ok body, fds2)" "readable fds2 fd rest"
    by (rule recv_readable [OF 1(2), of "length body"]) simp
  have u: "unat (fb_read_u32 F (le32 (word_of_nat (length body)))) = length body"
    using fb_read_u32D [OF F] len by (simp add: unat_of_nat)
  have "fb_recv F fds fd n = (if n < length body then Err BufferTooSmall else Ok body, if n < length body then fds1 else fds2)"
    using 1(1) 2(1) u by (simp add: fb_recv_def)
  from that [OF this _ fb_recv_read_only [OF this]] 1(2) 2(2) show ?thesis by simp
qed

text \<open>Every message received takes its size field at least.\<close>

abbreviation unread :: "descriptors \<Rightarrow> c_int \<Rightarrow> nat" where
  "unread fds fd \<equiv> (case fds fd of None \<Rightarrow> 0 | Some s \<Rightarrow> length (sk_in s))"

lemma recv_unread:
  assumes "vsg_protocol_recv fds fd n = (Inr bs, fds')"
  shows "unread fds' fd + n = unread fds fd"
proof -
  obtain s inp answers where s: "fds fd = Some s" "recv_loop (sk_recv_answers s) (sk_in s) n [] = (Inr bs, inp, answers)"
    "fds' = fds(fd \<mapsto> s\<lparr>sk_in := inp, sk_recv_answers := answers\<rparr>)"
    using assms by (auto simp: vsg_protocol_recv_def split: option.splits prod.splits)
  have "bs @ inp = sk_in s" "length bs = n" using recv_loop_split [OF s(2)] by simp_all
  then have "n + length inp = length (sk_in s)" by (metis length_append)
  then show ?thesis using s(1,3) by simp
qed

lemma fb_recv_progress:
  assumes "fb_recv F fds fd n = (Inr body, fds')"
  shows "unread fds' fd < unread fds fd"
proof -
  obtain len_buf fds1 where 1: "vsg_protocol_recv fds fd 4 = (Ok len_buf, fds1)"
    using assms by (auto simp: fb_recv_def split: sum.splits prod.splits)
  then have "vsg_protocol_recv fds1 fd (unat (fb_read_u32 F len_buf)) = (Inr body, fds')"
    using assms by (simp add: fb_recv_def Let_def split: if_splits)
  from recv_unread [OF this] recv_unread [OF 1] show ?thesis by linarith
qed

end
