(* ===== verification/Float64.thy ===== *)
theory Float64
  imports Tansiv_Prelude
begin

text \<open>
  Double-precision numbers, as the KVM timer and the coordinator compute with them. An \<open>f64\<close> is a rational,
  an infinity or not-a-number. The function \<open>rnd\<close> rounds an exact result to the nearest representable number; it
  is an argument of every operation that rounds, with what is used of it in \<open>rounding\<close>. Signed zeros and the overflow of a
  finite result to an infinity are not told apart.
\<close>

datatype f64 = Finite rat | PosInf | NegInf | NotANumber

definition f64_of_u64 :: "(rat \<Rightarrow> rat) \<Rightarrow> u64 \<Rightarrow> f64" where
  "f64_of_u64 rnd w = Finite (rnd (of_nat (unat w)))"

definition f64_of_i64 :: "(rat \<Rightarrow> rat) \<Rightarrow> i64 \<Rightarrow> f64" where
  "f64_of_i64 rnd w = Finite (rnd (of_int (sint w)))"

definition f64_inf :: "bool \<Rightarrow> f64" where
  "f64_inf positive = (if positive then PosInf else NegInf)"

fun f64_mul :: "(rat \<Rightarrow> rat) \<Rightarrow> f64 \<Rightarrow> f64 \<Rightarrow> f64" where
  "f64_mul rnd (Finite a) (Finite b) = Finite (rnd (a * b))"
| "f64_mul rnd NotANumber y = NotANumber"
| "f64_mul rnd x NotANumber = NotANumber"
| "f64_mul rnd (Finite a) y = (if a = 0 then NotANumber else f64_inf ((0 < a) = (y = PosInf)))"
| "f64_mul rnd x (Finite b) = (if b = 0 then NotANumber else f64_inf ((0 < b) = (x = PosInf)))"
| "f64_mul rnd x y = f64_inf (x = y)"

fun f64_div :: "(rat \<Rightarrow> rat) \<Rightarrow> f64 \<Rightarrow> f64 \<Rightarrow> f64" where
  "f64_div rnd (Finite a) (Finite b) =
     (if b = 0 then (if a = 0 then NotANumber else f64_inf (0 < a)) else Finite (rnd (a / b)))"
| "f64_div rnd NotANumber y = NotANumber"
| "f64_div rnd x NotANumber = NotANumber"
| "f64_div rnd (Finite a) y = Finite 0"
| "f64_div rnd x (Finite b) = f64_inf ((0 \<le> b) = (x = PosInf))"
| "f64_div rnd x y = NotANumber"

text \<open>\<open>as u64\<close>: truncation, saturating at both ends, and 0 for not-a-number.\<close>

fun u64_of_f64 :: "f64 \<Rightarrow> u64" where
  "u64_of_f64 NotANumber = 0"
| "u64_of_f64 PosInf = - 1"
| "u64_of_f64 NegInf = 0"
| "u64_of_f64 (Finite q) = (if q \<le> 0 then 0 else if 2 ^ 64 \<le> q then - 1 else word_of_int \<lfloor>q\<rfloor>)"

text \<open>Addition, subtraction, rounding down, and comparison, which is false when a number is missing.\<close>

fun f64_neg :: "f64 \<Rightarrow> f64" where
  "f64_neg (Finite a) = Finite (- a)"
| "f64_neg PosInf = NegInf"
| "f64_neg NegInf = PosInf"
| "f64_neg NotANumber = NotANumber"

fun f64_add :: "(rat \<Rightarrow> rat) \<Rightarrow> f64 \<Rightarrow> f64 \<Rightarrow> f64" where
  "f64_add rnd (Finite a) (Finite b) = Finite (rnd (a + b))"
| "f64_add rnd NotANumber y = NotANumber"
| "f64_add rnd x NotANumber = NotANumber"
| "f64_add rnd (Finite a) y = y"
| "f64_add rnd x (Finite b) = x"
| "f64_add rnd x y = (if x = y then x else NotANumber)"

definition f64_sub :: "(rat \<Rightarrow> rat) \<Rightarrow> f64 \<Rightarrow> f64 \<Rightarrow> f64" where
  "f64_sub rnd x y = f64_add rnd x (f64_neg y)"

fun f64_floor :: "f64 \<Rightarrow> f64" where
  "f64_floor (Finite a) = Finite (of_int \<lfloor>a\<rfloor>)"
| "f64_floor x = x"

fun f64_less :: "f64 \<Rightarrow> f64 \<Rightarrow> bool" where
  "f64_less (Finite a) (Finite b) \<longleftrightarrow> a < b"
| "f64_less NotANumber y \<longleftrightarrow> False"
| "f64_less x NotANumber \<longleftrightarrow> False"
| "f64_less x y \<longleftrightarrow> x \<noteq> y \<and> (x = NegInf \<or> y = PosInf)"

lemma f64_less_asym: "f64_less x y \<Longrightarrow> \<not> f64_less y x"
  by (cases x; cases y) auto

definition f64_le :: "f64 \<Rightarrow> f64 \<Rightarrow> bool" where
  "f64_le x y \<longleftrightarrow> f64_less x y \<or> x = y \<and> x \<noteq> NotANumber"

text \<open>The cast \<open>(uint64_t)x\<close> of C++, which is undefined outside of the range of the type.\<close>

fun u64_cast :: "f64 \<Rightarrow> u64 option" where
  "u64_cast (Finite q) = (if -1 < q \<and> q < 2 ^ 64 then Some (if q \<le> 0 then 0 else word_of_int \<lfloor>q\<rfloor>) else None)"
| "u64_cast _ = None"

text \<open>What is used of rounding: it keeps the order and does not move what is representable, of which there are at least 0, 1 and the powers of two.\<close>

definition rounding :: "(rat \<Rightarrow> rat) \<Rightarrow> bool" where
  "rounding rnd \<longleftrightarrow> mono rnd \<and> (\<forall>x. rnd (rnd x) = rnd x) \<and> rnd 0 = 0 \<and> (\<forall>n. rnd (2 ^ n) = 2 ^ n)"

lemma u64_of_f64_mono:
  assumes "q \<le> r"
  shows "u64_of_f64 (Finite q) \<le> u64_of_f64 (Finite r)"
proof -
  have v: "uint (word_of_int \<lfloor>a\<rfloor> :: u64) = \<lfloor>a\<rfloor>" if "0 < a" "a < 2 ^ 64" for a :: rat
  proof -
    have "\<lfloor>a\<rfloor> < 2 ^ 64" using that(2) by (simp add: floor_less_iff)
    moreover have "0 \<le> \<lfloor>a\<rfloor>" using that(1) by simp
    ultimately show ?thesis by (simp add: uint_word_of_int)
  qed
  have top: "w \<le> (- 1 :: u64)" for w by simp
  show ?thesis
  proof (cases "q \<le> 0 \<or> 2 ^ 64 \<le> r")
    case True
    then show ?thesis using assms top by auto
  next
    case False
    then have "0 < q" "q < 2 ^ 64" "0 < r" "r < 2 ^ 64" using assms by auto
    moreover have "\<lfloor>q\<rfloor> \<le> \<lfloor>r\<rfloor>" using assms by (rule floor_mono)
    ultimately have "(word_of_int \<lfloor>q\<rfloor> :: u64) \<le> word_of_int \<lfloor>r\<rfloor>" by (simp add: word_le_def v)
    with \<open>0 < q\<close> \<open>q < 2 ^ 64\<close> \<open>0 < r\<close> \<open>r < 2 ^ 64\<close> show ?thesis by simp
  qed
qed

end
