(* ===== verification/Vsg_Address.thy ===== *)
theory Vsg_Address
  imports Tansiv_Prelude
begin

text \<open>
  The addresses of \<open>vsg_address.rs\<close>: the dotted text of the command line and the \<open>in_addr_t\<close> in
  network byte order the client works with.

  \<open>Ipv4Addr\<close> and its \<open>FromStr\<close> are the standard library's: four decimal numbers of one to three digits
  without leading zeros, at most 255 each, separated by dots, and nothing else. \<open>to_be\<close> and \<open>from_be\<close>
  are those of a little-endian machine, the only kind the emulator code supports.
\<close>

record ipv4addr =
  ip_a :: u8
  ip_b :: u8
  ip_c :: u8
  ip_d :: u8

section \<open>The text form\<close>

text \<open>The digits at the head of the text, and the rest.\<close>

fun span_digits :: "string \<Rightarrow> int list \<times> string" where
  "span_digits [] = ([], [])"
| "span_digits (c # cs) =
     (case digit c of
        None \<Rightarrow> ([], c # cs)
      | Some d \<Rightarrow> (let (ds, rest) = span_digits cs in (d # ds, rest)))"

definition read_octet :: "string \<Rightarrow> (u8 \<times> string) option" where
  "read_octet s =
     (let (ds, rest) = span_digits s;
          v = foldl (\<lambda>acc d. 10 * acc + d) 0 ds
      in if ds = [] \<or> 3 < length ds \<or> (1 < length ds \<and> hd ds = 0) \<or> 255 < v then None
         else Some (word_of_int v, rest))"

definition read_dot :: "string \<Rightarrow> string option" where
  "read_dot s = (case s of c # cs \<Rightarrow> if c = CHR ''.'' then Some cs else None | [] \<Rightarrow> None)"

definition Ipv4Addr_from_str :: "string \<Rightarrow> ipv4addr option" where
  "Ipv4Addr_from_str s = do {
     (a, s) \<leftarrow> read_octet s;
     s \<leftarrow> read_dot s;
     (b, s) \<leftarrow> read_octet s;
     s \<leftarrow> read_dot s;
     (c, s) \<leftarrow> read_octet s;
     s \<leftarrow> read_dot s;
     (d, s) \<leftarrow> read_octet s;
     (if s = [] then Some \<lparr>ip_a = a, ip_b = b, ip_c = c, ip_d = d\<rparr> else None)
   }"

section \<open>The numeric form\<close>

text \<open>\<open>u32::from(Ipv4Addr)\<close>: the first number is the most significant byte.\<close>

definition of_octets :: "u8 \<Rightarrow> u8 \<Rightarrow> u8 \<Rightarrow> u8 \<Rightarrow> u32" where
  "of_octets a b c d = word_of_nat (((unat a * 256 + unat b) * 256 + unat c) * 256 + unat d)"

definition octet_a :: "u32 \<Rightarrow> u8" where
  "octet_a w = word_of_nat (unat w div 256 div 256 div 256)"

definition octet_b :: "u32 \<Rightarrow> u8" where
  "octet_b w = word_of_nat (unat w div 256 div 256)"

definition octet_c :: "u32 \<Rightarrow> u8" where
  "octet_c w = word_of_nat (unat w div 256)"

definition octet_d :: "u32 \<Rightarrow> u8" where
  "octet_d w = word_of_nat (unat w)"

lemmas octet_defs = octet_a_def octet_b_def octet_c_def octet_d_def

definition u32_of_ipv4addr :: "ipv4addr \<Rightarrow> u32" where
  "u32_of_ipv4addr ip = of_octets (ip_a ip) (ip_b ip) (ip_c ip) (ip_d ip)"

definition ipv4addr_of_u32 :: "u32 \<Rightarrow> ipv4addr" where
  "ipv4addr_of_u32 w = \<lparr>ip_a = octet_a w, ip_b = octet_b w, ip_c = octet_c w, ip_d = octet_d w\<rparr>"

text \<open>\<open>swap_bytes\<close>, which is both \<open>to_be\<close> and \<open>from_be\<close>.\<close>

definition swap_bytes :: "u32 \<Rightarrow> u32" where
  "swap_bytes w = of_octets (octet_d w) (octet_c w) (octet_b w) (octet_a w)"

definition vsg_address_from_str :: "string \<Rightarrow> (in_addr_t, unit) result" where
  "vsg_address_from_str ip =
     (case Ipv4Addr_from_str ip of
        None \<Rightarrow> Err ()
      | Some ipv4 \<Rightarrow> Ok (swap_bytes (u32_of_ipv4addr ipv4)))"

definition vsg_address_to_ipv4addr :: "in_addr_t \<Rightarrow> ipv4addr" where
  "vsg_address_to_ipv4addr address = ipv4addr_of_u32 (swap_bytes address)"

section \<open>Round trips\<close>

lemma unat_of_octets:
  "unat (of_octets a b c d) = ((unat a * 256 + unat b) * 256 + unat c) * 256 + unat d"
proof -
  have "((unat a * 256 + unat b) * 256 + unat c) * 256 + unat d < 2 ^ 32"
    using unat_u8_less [of a] unat_u8_less [of b] unat_u8_less [of c] unat_u8_less [of d] by simp
  then show ?thesis unfolding of_octets_def by (subst unat_of_nat) simp
qed

lemma octet_of_octets [simp]:
  "octet_d (of_octets a b c d) = d" "octet_c (of_octets a b c d) = c"
  "octet_b (of_octets a b c d) = b" "octet_a (of_octets a b c d) = a"
proof -
  have w: "(word_of_nat (n * 256 + unat x) :: u8) = x" for n x
    using unat_u8_less [of x] by (simp only: word_unat_eq_iff unat_of_nat) simp
  have q: "(n * 256 + unat x) div 256 = n" for n and x :: u8 using unat_u8_less [of x] by simp
  have "(word_of_nat (unat a) :: u8) = a" by simp
  with w q show "octet_d (of_octets a b c d) = d" "octet_c (of_octets a b c d) = c"
    "octet_b (of_octets a b c d) = b" "octet_a (of_octets a b c d) = a"
    unfolding octet_defs unat_of_octets by (simp_all only:)
qed

lemma of_octets_octet [simp]: "of_octets (octet_a w) (octet_b w) (octet_c w) (octet_d w) = w"
proof -
  let ?n = "unat w"
  have m: "unat (word_of_nat n :: u8) = n mod 256" for n by (simp add: unat_of_nat)
  have "?n div 256 div 256 div 256 < 256" using unat_u32_less [of w] by (simp flip: div_mult2_eq)
  then have "unat (octet_a w) = ?n div 256 div 256 div 256" by (simp only: octet_defs m mod_less)
  moreover have "unat (octet_b w) = ?n div 256 div 256 mod 256" "unat (octet_c w) = ?n div 256 mod 256"
    "unat (octet_d w) = ?n mod 256"
    by (simp_all only: octet_defs m)
  ultimately have "unat (of_octets (octet_a w) (octet_b w) (octet_c w) (octet_d w)) = ?n"
    unfolding unat_of_octets by (simp only: div_mult_mod_eq)
  then show ?thesis by (simp only: word_unat_eq_iff)
qed

lemma swap_bytes_swap [simp]: "swap_bytes (swap_bytes w) = w"
  by (simp add: swap_bytes_def)

lemma ipv4addr_u32 [simp]: "ipv4addr_of_u32 (u32_of_ipv4addr ip) = ip" "u32_of_ipv4addr (ipv4addr_of_u32 w) = w"
  by (simp_all add: ipv4addr_of_u32_def u32_of_ipv4addr_def)

lemma address_of_ipv4addr:
  "vsg_address_to_ipv4addr (swap_bytes (u32_of_ipv4addr ip)) = ip"
  by (simp add: vsg_address_to_ipv4addr_def)

text \<open>
  The text of an address (its \<open>Display\<close>): every number without leading zeros. What is printed is read
  back.
\<close>

definition digit_char :: "nat \<Rightarrow> char" where
  "digit_char n = char_of (48 + int n)"

definition show_octet :: "u8 \<Rightarrow> string" where
  "show_octet w = (let n = unat w in
     if n < 10 then [digit_char n]
     else if n < 100 then [digit_char (n div 10), digit_char (n mod 10)]
     else [digit_char (n div 100), digit_char (n div 10 mod 10), digit_char (n mod 10)])"

definition Ipv4Addr_fmt :: "ipv4addr \<Rightarrow> string" where
  "Ipv4Addr_fmt ip = show_octet (ip_a ip) @ ''.'' @ show_octet (ip_b ip) @ ''.'' @
     show_octet (ip_c ip) @ ''.'' @ show_octet (ip_d ip)"

lemma digit_digit_char [simp]: "n < 10 \<Longrightarrow> digit (digit_char n) = Some (int n)"
  by (simp add: digit_def digit_char_def Let_def)

definition digit_free :: "string \<Rightarrow> bool" where
  "digit_free s \<longleftrightarrow> (case s of [] \<Rightarrow> True | c # _ \<Rightarrow> digit c = None)"

lemma span_digits_free [simp]: "digit_free s \<Longrightarrow> span_digits s = ([], s)"
  by (cases s) (simp_all add: digit_free_def)

lemma read_octet_digits:
  assumes n: "unat w = n" "n < 256" and rest: "digit_free rest"
  shows "read_octet (show_octet w @ rest) = Some (word_of_int (int n), rest)"
proof -
  consider "n < 10" | "10 \<le> n" "n < 100" | "100 \<le> n" by linarith
  then show ?thesis
  proof cases
    case 1
    then show ?thesis using n rest by (simp add: show_octet_def read_octet_def)
  next
    case 2
    have "10 * (n div 10) + n mod 10 = n" by (rule mult_div_mod_eq)
    then have v: "10 * int (n div 10) + int (n mod 10) = int n" by (metis of_nat_add of_nat_mult of_nat_numeral)
    have "0 < n div 10" "n div 10 < 10" using 2 by simp_all
    with 2 n rest v show ?thesis by (simp add: show_octet_def read_octet_def)
  next
    case 3
    have q: "n div 100 = n div 10 div 10" by (simp flip: div_mult2_eq)
    have "10 * (10 * (n div 10 div 10) + n div 10 mod 10) + n mod 10 = n" by (simp only: mult_div_mod_eq)
    then have "int (10 * (10 * (n div 100) + n div 10 mod 10) + n mod 10) = int n" by (simp only: q)
    then have v: "10 * (10 * int (n div 100) + int (n div 10 mod 10)) + int (n mod 10) = int n"
      by (simp only: of_nat_add of_nat_mult of_nat_numeral)
    have "0 < n div 100" "n div 100 < 10" using 3 n by simp_all
    with 3 n rest v show ?thesis by (simp add: show_octet_def read_octet_def)
  qed
qed

lemma read_show_octet [simp]: "digit_free rest \<Longrightarrow> read_octet (show_octet w @ rest) = Some (w, rest)"
  using read_octet_digits [OF refl unat_u8_less] by simp

lemma from_str_fmt: "Ipv4Addr_from_str (Ipv4Addr_fmt ip) = Some ip"
proof -
  have f: "digit_free (CHR ''.'' # s)" "digit_free []" for s by (simp_all add: digit_free_def digit_def)
  have "read_octet (show_octet w) = Some (w, [])" for w using read_show_octet [OF f(2), of w] by simp
  then show ?thesis
    using f(1) by (simp add: Ipv4Addr_from_str_def Ipv4Addr_fmt_def read_dot_def)
qed

end
