(* ===== verification/Vms_Interface.thy ===== *)
theory Vms_Interface
  imports Wire_Socket Float64 Vsg_Address "HOL-Library.Multiset"
begin

text \<open>
  The coordinator's connections to the virtual machines, \<open>coordinator/VmsInterface.hpp\<close> and \<open>.cpp\<close>: the
  machines that run, the hosts they are on, the exchange of a slice (\<open>goTo\<close>) and the delivery of a message.

  The result \<open>None\<close> is the end of the process: a call of \<open>exit\<close>, a failed assertion, an uncaught exception or
  behaviour that C++ leaves undefined. What C++ leaves open is an argument, in \<open>cpp_lib\<close>: the
  rounding of doubles, the order in which an unordered map is traversed, and the order in which \<open>std::sort\<close> leaves
  equal elements. The FlatBuffers library and the code it generates are the argument \<open>F\<close>, as for the client.
\<close>

section \<open>Messages and times\<close>

record vsg_time =
  vt_seconds :: u64
  vt_nseconds :: u64

record message =
  msg_seconds :: u64
  msg_nseconds :: u64
  src_enc :: in_addr_t
  dst_enc :: in_addr_t
  msg_size :: u32
  sent_time :: f64
  msg_src :: string
  msg_dst :: string
  msg_data :: bytes

record cpp_lib =
  cpp_rnd :: "rat \<Rightarrow> rat"
  cpp_order :: "(string \<times> c_int) list \<Rightarrow> (string \<times> c_int) list"
  cpp_sort :: "message list \<Rightarrow> message list"

definition sortMessages :: "message \<Rightarrow> message \<Rightarrow> bool" where
  "sortMessages i j \<longleftrightarrow> f64_less (sent_time i) (sent_time j)"

definition simgridToVmTime :: "(rat \<Rightarrow> rat) \<Rightarrow> f64 \<Rightarrow> vsg_time option" where
  "simgridToVmTime rnd simgrid_time =
     (if f64_less (Finite (rnd (2 ^ 64 - 1))) simgrid_time
      then Some \<lparr>vt_seconds = - 1, vt_nseconds = - 1\<rparr>
      else do {
        s \<leftarrow> u64_cast (f64_floor simgrid_time);
        n \<leftarrow> u64_cast (f64_floor (f64_mul rnd (f64_sub rnd simgrid_time (f64_floor simgrid_time)) (Finite (10 ^ 9))));
        Some \<lparr>vt_seconds = s, vt_nseconds = n\<rparr>
      })"

definition vmToSimgridTime :: "(rat \<Rightarrow> rat) \<Rightarrow> u64 \<Rightarrow> u64 \<Rightarrow> f64" where
  "vmToSimgridTime rnd seconds nseconds =
     f64_add rnd (f64_of_u64 rnd seconds) (f64_mul rnd (f64_of_u64 rnd nseconds) (Finite (rnd (1 / 10 ^ 9))))"

text \<open>\<open>inet_ntop\<close> prints an address in network order.\<close>

definition Message_new :: "(rat \<Rightarrow> rat) \<Rightarrow> u64 \<Rightarrow> u64 \<Rightarrow> in_addr_t \<Rightarrow> in_addr_t \<Rightarrow> u32 \<Rightarrow> bytes \<Rightarrow> message" where
  "Message_new rnd seconds nseconds src dst sz payload =
     \<lparr>msg_seconds = seconds, msg_nseconds = nseconds, src_enc = src, dst_enc = dst, msg_size = sz,
      sent_time = vmToSimgridTime rnd seconds nseconds,
      msg_src = Ipv4Addr_fmt (vsg_address_to_ipv4addr src), msg_dst = Ipv4Addr_fmt (vsg_address_to_ipv4addr dst),
      msg_data = take (unat sz) payload\<rparr>"

section \<open>State\<close>

text \<open>
  The maps are association lists without double keys. \<open>vi_fds\<close> are the open descriptors of the process, \<open>vi_launched\<close> the
  commands started, and \<open>vi_unlinked\<close> tells whether the listening socket's file was removed.
\<close>

record vms_interface =
  a_vm_stopped :: bool
  simulate_until_any_stop :: bool
  socket_name :: string
  connection_socket :: c_int
  vm_sockets :: "(string \<times> c_int) list"
  vm_sockets_trash :: "string list"
  vm_deployments :: "(string \<times> string) list"
  vi_fds :: descriptors
  vi_launched :: "(string \<times> string option list) list"
  vi_unlinked :: bool

definition assign :: "'k \<Rightarrow> 'v \<Rightarrow> ('k \<times> 'v) list \<Rightarrow> ('k \<times> 'v) list" where
  "assign k v xs = (k, v) # filter (\<lambda>(k', _). k' \<noteq> k) xs"

section \<open>Operations\<close>

definition end_simulation :: "vms_interface \<Rightarrow> bool \<Rightarrow> bool \<Rightarrow> vms_interface option" where
  "end_simulation self must_unlink must_exit =
     (let self = self\<lparr>vi_fds := foldl (\<lambda>fds fd. fds(fd := None)) (vi_fds self) (connection_socket self # map snd (vm_sockets self)),
                      vi_unlinked := vi_unlinked self \<or> must_unlink\<rparr>
      in if must_exit then None else Some self)"

text \<open>The constructor; \<open>bound\<close> and \<open>listening\<close> tell whether the system calls succeed.\<close>

definition VmsInterface_new :: "c_int \<Rightarrow> bool \<Rightarrow> bool \<Rightarrow> string \<Rightarrow> bool \<Rightarrow> vms_interface option" where
  "VmsInterface_new sock bound listening connection_socket_name stop_at_any_stop = do {
     self \<leftarrow> Some \<lparr>a_vm_stopped = False, simulate_until_any_stop = stop_at_any_stop,
       socket_name = connection_socket_name, connection_socket = sock, vm_sockets = [], vm_sockets_trash = [],
       vm_deployments = [], vi_fds = (\<lambda>_. None), vi_launched = [], vi_unlinked = True\<rparr>;
     self \<leftarrow> (if bound then Some self else end_simulation self True True);
     self \<leftarrow> (if listening then Some self else end_simulation self True True);
     Some (self\<lparr>vi_unlinked := False\<rparr>)
   }"

text \<open>The arguments of the program started: those given, with the socket's name after the first and a null at the end.\<close>

definition vm_command :: "string \<Rightarrow> string list \<Rightarrow> string option list" where
  "vm_command socket argv =
     (let command = map Some argv @ [None] in take 1 command @ [Some socket] @ drop 1 command)"

text \<open>
  \<open>forked\<close> tells whether \<open>fork\<close> succeeds (this is the parent), and \<open>accepted\<close> is the connection \<open>accept\<close> returns, if it
  succeeds; if not, the descriptor kept is -1.
\<close>

definition register_vm ::
  "vms_interface \<Rightarrow> bool \<Rightarrow> (c_int \<times> vm_socket) option \<Rightarrow> string \<Rightarrow> string \<Rightarrow> string \<Rightarrow> string list \<Rightarrow> vms_interface option" where
  "register_vm self forked accepted host_name vm_name file argv = do {
     self \<leftarrow> Some (self\<lparr>vm_deployments := assign vm_name host_name (vm_deployments self)\<rparr>);
     self \<leftarrow> (if forked then Some (self\<lparr>vi_launched := vi_launched self @ [(file, vm_command (socket_name self) argv)]\<rparr>)
              else end_simulation self True True);
     Some (case accepted of
         None \<Rightarrow> self\<lparr>vm_sockets := assign vm_name (- 1) (vm_sockets self)\<rparr>
       | Some (fd, s) \<Rightarrow> self\<lparr>vi_fds := (vi_fds self)(fd \<mapsto> s), vm_sockets := assign vm_name fd (vm_sockets self)\<rparr>)
   }"

definition vmActive :: "vms_interface \<Rightarrow> bool" where
  "vmActive self \<longleftrightarrow> vm_sockets self \<noteq> [] \<and> \<not> simulate_until_any_stop self \<or>
     \<not> a_vm_stopped self \<and> simulate_until_any_stop self"

definition getHostOfVm :: "vms_interface \<Rightarrow> string \<Rightarrow> string" where
  "getHostOfVm self vm_name = (case map_of (vm_deployments self) vm_name of None \<Rightarrow> '''' | Some host \<Rightarrow> host)"

definition close_vm_socket :: "vms_interface \<Rightarrow> string \<Rightarrow> vms_interface option" where
  "close_vm_socket self vm_name = do {
     vm_socket \<leftarrow> map_of (vm_sockets self) vm_name;
     Some (self\<lparr>vi_fds := (vi_fds self)(vm_socket := None), vm_sockets_trash := vm_sockets_trash self @ [vm_name],
                a_vm_stopped := True\<rparr>)
   }"

definition get_dead_vm_hosts :: "vms_interface \<Rightarrow> string list" where
  "get_dead_vm_hosts self = map (getHostOfVm self) (vm_sockets_trash self)"

definition deliverMessage :: "('b, 'o) flatbuffers \<Rightarrow> vms_interface \<Rightarrow> message \<Rightarrow> vms_interface option" where
  "deliverMessage F self m =
     (case map_of (vm_sockets self) (msg_dst m) of
        None \<Rightarrow> Some self
      | Some socket \<Rightarrow>
          (let packet_meta = \<lparr>pm_src = src_enc m, pm_dst = dst_enc m\<rparr>;
               (b, payload_offset) = fb_create_vector F (fb_with_capacity F 2048) (msg_data m);
               (b, deliver_packet) = fb_create_deliver_packet F b packet_meta payload_offset;
               (b, msg) = fb_create_from_tansiv_msg F b FromDeliverPacket deliver_packet
           in do {
             buffer \<leftarrow> fb_finished_data F (fb_finish_size_prefixed F b msg);
             Some (self\<lparr>vi_fds := snd (vsg_protocol_send (vi_fds self) socket buffer)\<rparr>)
           }))"

section \<open>The exchange of a slice\<close>

definition SCRATCH_BUFFER_LEN :: nat where
  "SCRATCH_BUFFER_LEN = 2048"

definition goto_message :: "('b, 'o) flatbuffers \<Rightarrow> vsg_time \<Rightarrow> bytes option" where
  "goto_message F vm_deadline =
     (let time = \<lparr>tm_seconds = vt_seconds vm_deadline, tm_nseconds = vt_nseconds vm_deadline\<rparr>;
          (b, goto_deadline) = fb_create_goto_deadline F (fb_with_capacity F 128) time;
          (b, msg) = fb_create_from_tansiv_msg F b FromGotoDeadline goto_deadline
      in fb_finished_data F (fb_finish_size_prefixed F b msg))"

text \<open>The deadline is sent to every machine; what \<open>vsg_protocol_send\<close> returns is not looked at.\<close>

fun send_to_all :: "descriptors \<Rightarrow> (string \<times> c_int) list \<Rightarrow> bytes \<Rightarrow> descriptors" where
  "send_to_all fds [] buffer = fds"
| "send_to_all fds ((_, fd) # vms) buffer = send_to_all (snd (vsg_protocol_send fds fd buffer)) vms buffer"

text \<open>A message from a packet, unless a part of the packet is missing (which is only logged).\<close>

definition read_packet :: "(rat \<Rightarrow> rat) \<Rightarrow> to_tansiv_msg \<Rightarrow> message option" where
  "read_packet rnd msg = do {
     (metadata, time, payload) \<leftarrow> content_as_send_packet msg;
     metadata \<leftarrow> metadata;
     time \<leftarrow> time;
     payload \<leftarrow> payload;
     Some (Message_new rnd (tm_seconds time) (tm_nseconds time) (pm_src metadata) (pm_dst metadata)
             (word_of_nat (length payload)) payload)
   }"

text \<open>
  What one machine has sent until its deadline. A machine that cannot be read is given up; an unknown message
  ends the program.
\<close>

function collect ::
  "('b, 'o) flatbuffers \<Rightarrow> (rat \<Rightarrow> rat) \<Rightarrow> string \<Rightarrow> c_int \<Rightarrow> message list \<Rightarrow> vms_interface \<Rightarrow>
     (message list \<times> vms_interface) option" where
  "collect F rnd vm_name vm_socket messages self =
     (case fb_recv F (vi_fds self) vm_socket SCRATCH_BUFFER_LEN of
        (Inl _, fds) \<Rightarrow> do {
          self \<leftarrow> close_vm_socket (self\<lparr>vi_fds := fds\<rparr>) vm_name;
          Some (messages, self)
        }
      | (Inr scratch_buffer, fds) \<Rightarrow>
          (case fb_root_to_tansiv F scratch_buffer of
             None \<Rightarrow> None
           | Some msg \<Rightarrow>
               (case to_content_type msg of
                  ToAtDeadline \<Rightarrow> Some (messages, self\<lparr>vi_fds := fds\<rparr>)
                | ToSendPacket \<Rightarrow>
                    collect F rnd vm_name vm_socket
                      (case read_packet rnd msg of None \<Rightarrow> messages | Some m \<Rightarrow> messages @ [m]) (self\<lparr>vi_fds := fds\<rparr>)
                | _ \<Rightarrow> None)))"
  by pat_completeness auto
termination
  by (relation "measure (\<lambda>(_, _, _, fd, _, self). unread (vi_fds self) fd)") (auto intro: fb_recv_progress [OF sym])

fun collect_all ::
  "('b, 'o) flatbuffers \<Rightarrow> (rat \<Rightarrow> rat) \<Rightarrow> (string \<times> c_int) list \<Rightarrow> message list \<Rightarrow> vms_interface \<Rightarrow>
     (message list \<times> vms_interface) option" where
  "collect_all F rnd [] messages self = Some (messages, self)"
| "collect_all F rnd ((vm_name, vm_socket) # vms) messages self = do {
     (messages, self) \<leftarrow> collect F rnd vm_name vm_socket messages self;
     collect_all F rnd vms messages self
   }"

definition goTo ::
  "('b, 'o) flatbuffers \<Rightarrow> cpp_lib \<Rightarrow> vms_interface \<Rightarrow> f64 \<Rightarrow> (message list \<times> vms_interface) option" where
  "goTo F L self deadline = do {
     self \<leftarrow> Some (self\<lparr>vm_sockets_trash := []\<rparr>);
     vm_deadline \<leftarrow> simgridToVmTime (cpp_rnd L) deadline;
     buffer \<leftarrow> goto_message F vm_deadline;
     vms \<leftarrow> Some (cpp_order L (vm_sockets self));
     self \<leftarrow> Some (self\<lparr>vi_fds := send_to_all (vi_fds self) vms buffer\<rparr>);
     (messages, self) \<leftarrow> collect_all F (cpp_rnd L) vms [] self;
     self \<leftarrow> Some (self\<lparr>vm_sockets := filter (\<lambda>(vm, _). vm \<notin> set (vm_sockets_trash self)) (vm_sockets self)\<rparr>);
     Some (cpp_sort L messages, self)
   }"

declare collect.simps [simp del]

section \<open>What the library promises\<close>

definition cpp_laws :: "cpp_lib \<Rightarrow> bool" where
  "cpp_laws L \<longleftrightarrow> rounding (cpp_rnd L) \<and> (\<forall>xs. mset (cpp_order L xs) = mset xs) \<and>
     (\<forall>ms. mset (cpp_sort L ms) = mset ms \<and>
        ((\<forall>m \<in> set ms. sent_time m \<noteq> NotANumber) \<longrightarrow> sorted_wrt (\<lambda>i j. \<not> sortMessages j i) (cpp_sort L ms)))"

lemma cpp_lawsD:
  assumes "cpp_laws L"
  shows "rounding (cpp_rnd L)" "mset (cpp_order L xs) = mset xs" "mset (cpp_sort L ms) = mset ms"
    "(\<And>m. m \<in> set ms \<Longrightarrow> sent_time m \<noteq> NotANumber) \<Longrightarrow> sorted_wrt (\<lambda>i j. \<not> sortMessages j i) (cpp_sort L ms)"
  using assms by (simp_all add: cpp_laws_def)

lemma sent_time_finite: "\<exists>q. sent_time (Message_new rnd s n src dst sz p) = Finite q"
  by (simp add: Message_new_def vmToSimgridTime_def f64_of_u64_def)

section \<open>The machines' connections\<close>

text \<open>Every machine has one connection, and no two share one.\<close>

definition vi_ok :: "vms_interface \<Rightarrow> bool" where
  "vi_ok self \<longleftrightarrow> distinct (map fst (vm_sockets self)) \<and> distinct (map snd (vm_sockets self))"

lemma vi_okD:
  assumes "vi_ok self" "(n, fd) \<in> set (vm_sockets self)"
  shows "map_of (vm_sockets self) n = Some fd"
  using assms by (simp add: vi_ok_def)

lemma set_assign: "set (assign k v xs) = insert (k, v) {(k', v') \<in> set xs. k' \<noteq> k}"
  by (auto simp: assign_def)

lemma distinct_assign:
  assumes "distinct (map fst xs)" "distinct (map snd xs)" "v \<notin> snd ` set xs"
  shows "distinct (map fst (assign k v xs))" "distinct (map snd (assign k v xs))"
  using assms by (auto simp: assign_def distinct_map inj_on_def)

lemma map_of_assign: "map_of (assign k v xs) x = (if x = k then Some v else map_of xs x)"
  by (induction xs) (auto simp: assign_def)

text \<open>Registering a machine whose connection is accepted with a descriptor not in use.\<close>

lemma register_vm_ok:
  assumes "vi_ok self" "fd \<notin> snd ` set (vm_sockets self)"
    and "register_vm self True (Some (fd, s)) host_name vm_name file argv = Some self'"
  shows "vi_ok self'" "map_of (vm_sockets self') vm_name = Some fd" "vi_fds self' fd = Some s"
    "getHostOfVm self' vm_name = host_name"
    "\<And>vm. vm \<noteq> vm_name \<Longrightarrow> map_of (vm_sockets self') vm = map_of (vm_sockets self) vm \<and> getHostOfVm self' vm = getHostOfVm self vm"
  using assms by (auto simp: register_vm_def vi_ok_def distinct_assign map_of_assign getHostOfVm_def)

section \<open>Sending to the machines\<close>

definition writable :: "descriptors \<Rightarrow> c_int \<Rightarrow> bool" where
  "writable fds fd \<longleftrightarrow> (\<exists>s. fds fd = Some s \<and> Failed \<notin> set (sk_send_answers s))"

text \<open>What was written, and what there is to read.\<close>

definition written_to :: "descriptors \<Rightarrow> c_int \<Rightarrow> bytes" where
  "written_to fds fd = (case fds fd of None \<Rightarrow> [] | Some s \<Rightarrow> sk_out s)"

definition write_only :: "descriptors \<Rightarrow> c_int \<Rightarrow> descriptors \<Rightarrow> bool" where
  "write_only fds fd fds' \<longleftrightarrow> (\<forall>fd'. fd' \<noteq> fd \<longrightarrow> fds' fd' = fds fd') \<and> (\<forall>fd' inp. readable fds' fd' inp = readable fds fd' inp)"

lemma send_write_only: "write_only fds fd (snd (vsg_protocol_send fds fd buf))"
  by (auto simp: vsg_protocol_send_def write_only_def readable_def case_prod_beta split: option.splits)

lemma send_writable:
  assumes "writable fds fd"
  shows "fst (vsg_protocol_send fds fd buf) = Ok ()" "written_to (snd (vsg_protocol_send fds fd buf)) fd = written_to fds fd @ buf"
    "writable (snd (vsg_protocol_send fds fd buf)) fd"
proof -
  obtain s where s: "fds fd = Some s" "Failed \<notin> set (sk_send_answers s)" using assms by (auto simp: writable_def)
  obtain answers where "send_loop (sk_send_answers s) buf (sk_out s) = (Ok (), sk_out s @ buf, answers)"
    "set answers \<subseteq> set (sk_send_answers s)"
    using send_loop_whole [OF s(2), of buf "sk_out s"] by auto
  with s show "fst (vsg_protocol_send fds fd buf) = Ok ()" "written_to (snd (vsg_protocol_send fds fd buf)) fd = written_to fds fd @ buf"
    "writable (snd (vsg_protocol_send fds fd buf)) fd"
    by (auto simp: vsg_protocol_send_def written_to_def writable_def)
qed

lemma send_to_all_readable: "readable (send_to_all fds vms buf) fd inp = readable fds fd inp"
proof (induction vms arbitrary: fds)
  case (Cons vm vms)
  then show ?case using send_write_only [of fds "snd vm" buf] by (cases vm) (simp add: write_only_def)
qed simp

lemma send_to_all_other: "fd \<notin> snd ` set vms \<Longrightarrow> send_to_all fds vms buf fd = fds fd"
proof (induction vms arbitrary: fds)
  case (Cons vm vms)
  then show ?case using send_write_only [of fds "snd vm" buf] by (cases vm) (auto simp: write_only_def)
qed simp

lemma descriptor_cong:
  assumes "fds fd = fds' fd"
  shows "written_to fds fd = written_to fds' fd" "writable fds fd = writable fds' fd" "readable fds fd inp = readable fds' fd inp"
  using assms by (simp_all add: written_to_def writable_def readable_def)

lemma send_to_all_written:
  assumes "distinct (map snd vms)" "fd \<in> snd ` set vms" "writable fds fd"
  shows "written_to (send_to_all fds vms buf) fd = written_to fds fd @ buf \<and> writable (send_to_all fds vms buf) fd"
  using assms
proof (induction vms arbitrary: fds)
  case (Cons vm vms)
  obtain n fd' where vm: "vm = (n, fd')" by fastforce
  let ?fds = "snd (vsg_protocol_send fds fd' buf)"
  show ?case
  proof (cases "fd = fd'")
    case True
    then have "send_to_all ?fds vms buf fd = ?fds fd" using Cons.prems vm by (intro send_to_all_other) auto
    from descriptor_cong [of "send_to_all ?fds vms buf" fd ?fds, OF this] show ?thesis using Cons.prems vm True send_writable(2,3) [of fds fd buf] by simp
  next
    case False
    then have "?fds fd = fds fd" using send_write_only [of fds fd' buf] by (simp add: write_only_def)
    from descriptor_cong [of ?fds fd fds, OF this] show ?thesis using Cons.IH [of ?fds] Cons.prems vm False by auto
  qed
qed simp

section \<open>Receiving from the machines\<close>

text \<open>The message of a packet with the time stamp of the machine that sent it.\<close>

definition message_of :: "(rat \<Rightarrow> rat) \<Rightarrow> in_addr_t \<times> in_addr_t \<times> duration \<times> bytes \<Rightarrow> message" where
  "message_of rnd = (\<lambda>(src, dst, t, p).
     Message_new rnd (as_secs t) (ucast (subsec_nanos t)) src dst (word_of_nat (length p)) p)"

text \<open>The bytes of a slice: a frame for each packet and the mark that ends it, each small enough for the buffer.\<close>

definition slice_bytes :: "('b, 'o) flatbuffers \<Rightarrow> (in_addr_t \<times> in_addr_t \<times> duration \<times> bytes) list \<Rightarrow> bytes \<Rightarrow> bool" where
  "slice_bytes F ws bs \<longleftrightarrow>
     (\<exists>frs fr. list_all2 (\<lambda>(src, dst, t, p) fr. to_frame F fr (send_packet_msg src dst t p) \<and>
          length fr \<le> SCRATCH_BUFFER_LEN + 4 \<and> length p \<le> fb_payload_limit) ws frs \<and>
        to_frame F fr at_deadline_msg \<and> length fr \<le> SCRATCH_BUFFER_LEN + 4 \<and> bs = concat frs @ fr)"

lemma slice_bytes_ConsE:
  assumes "slice_bytes F ((src, dst, t, p) # ws) bs"
  obtains fr bs' where "bs = fr @ bs'" "to_frame F fr (send_packet_msg src dst t p)" "length fr \<le> SCRATCH_BUFFER_LEN + 4"
    "length p \<le> fb_payload_limit" "slice_bytes F ws bs'"
proof -
  let ?R = "\<lambda>(src, dst, t, p) fr. to_frame F fr (send_packet_msg src dst t p) \<and>
    length fr \<le> SCRATCH_BUFFER_LEN + 4 \<and> length p \<le> fb_payload_limit"
  obtain fr frs e where f: "?R (src, dst, t, p) fr" "list_all2 ?R ws frs" "to_frame F e at_deadline_msg"
    "length e \<le> SCRATCH_BUFFER_LEN + 4" "bs = fr @ concat frs @ e"
    using assms by (auto simp: slice_bytes_def list_all2_Cons1)
  then have "slice_bytes F ws (concat frs @ e)" by (auto simp: slice_bytes_def)
  with f that show ?thesis by auto
qed

lemma fb_recv_to_frame:
  assumes F: "fb_laws F V" and fr: "to_frame F fr m" "length fr \<le> SCRATCH_BUFFER_LEN + 4" and r: "readable fds fd (fr @ rest)"
  obtains body fds' where "fb_recv F fds fd SCRATCH_BUFFER_LEN = (Ok body, fds')" "fb_root_to_tansiv F body = Some m"
    "readable fds' fd rest" "read_only fds fd fds'"
proof -
  obtain body where b: "fr = frame body" "length body < 2 ^ 32" "fb_root_to_tansiv F body = Some m"
    using fr(1) by (auto simp: to_frame_def)
  then have "\<not> SCRATCH_BUFFER_LEN < length body" using fr(2) by (simp add: frame_def)
  with fb_recv_frame [OF F r [unfolded b(1)] b(2), of SCRATCH_BUFFER_LEN] that b(3) show ?thesis by auto
qed

lemma read_packet_send: "read_packet rnd (send_packet_msg src dst t p) = Some (message_of rnd (src, dst, t, p))"
  by (simp add: read_packet_def send_packet_msg_def content_as_send_packet_def message_of_def fb_time_of_def)

lemma to_content_type_send: "to_content_type (send_packet_msg src dst t p) = ToSendPacket"
  by (simp add: send_packet_msg_def)

lemma collect_slice:
  assumes F: "fb_laws F V" and bs: "slice_bytes F ws bs" and r: "readable (vi_fds self) fd (bs @ rest)"
  shows "\<exists>fds. collect F rnd n fd ms self = Some (ms @ map (message_of rnd) ws, self\<lparr>vi_fds := fds\<rparr>) \<and>
    readable fds fd rest \<and> read_only (vi_fds self) fd fds"
  using bs r
proof (induction ws arbitrary: bs ms self)
  case Nil
  then have fr: "to_frame F bs at_deadline_msg" "length bs \<le> SCRATCH_BUFFER_LEN + 4" by (auto simp: slice_bytes_def)
  obtain body fds where "fb_recv F (vi_fds self) fd SCRATCH_BUFFER_LEN = (Ok body, fds)" "fb_root_to_tansiv F body = Some at_deadline_msg"
    "readable fds fd rest" "read_only (vi_fds self) fd fds"
    by (rule fb_recv_to_frame [OF F fr Nil.prems(2)])
  then show ?case by (subst collect.simps) (auto simp: at_deadline_msg_def)
next
  case (Cons w ws)
  obtain src dst t p where w: "w = (src, dst, t, p)" by (cases w) auto
  obtain fr bs' where fr: "bs = fr @ bs'" "to_frame F fr (send_packet_msg src dst t p)" "length fr \<le> SCRATCH_BUFFER_LEN + 4" "slice_bytes F ws bs'"
    by (rule slice_bytes_ConsE [OF Cons.prems(1) [unfolded w]])
  have r: "readable (vi_fds self) fd (fr @ bs' @ rest)" using Cons.prems(2) fr(1) by simp
  obtain body fds where 1: "fb_recv F (vi_fds self) fd SCRATCH_BUFFER_LEN = (Ok body, fds)"
    "fb_root_to_tansiv F body = Some (send_packet_msg src dst t p)" "readable fds fd (bs' @ rest)" "read_only (vi_fds self) fd fds"
    by (rule fb_recv_to_frame [OF F fr(2,3) r])
  have "collect F rnd n fd ms self = collect F rnd n fd (ms @ [message_of rnd w]) (self\<lparr>vi_fds := fds\<rparr>)"
    using 1(1,2) w by (subst collect.simps) (simp add: read_packet_send to_content_type_send)
  with Cons.IH [OF fr(4), of "self\<lparr>vi_fds := fds\<rparr>" "ms @ [message_of rnd w]"] 1(3,4) read_only_trans [OF 1(4)]
  show ?case by auto
qed

text \<open>The order in which the machines are visited.\<close>

lemma order_ok:
  assumes "cpp_laws L"
  shows "set (cpp_order L (vm_sockets self)) = set (vm_sockets self)"
    "vi_ok self \<Longrightarrow> distinct (map snd (cpp_order L (vm_sockets self)))"
proof -
  have m: "mset (cpp_order L (vm_sockets self)) = mset (vm_sockets self)" by (rule cpp_lawsD(2) [OF assms])
  then show "set (cpp_order L (vm_sockets self)) = set (vm_sockets self)" by (rule mset_eq_setD)
  have "mset (map snd (cpp_order L (vm_sockets self))) = mset (map snd (vm_sockets self))" using m by simp
  then show "distinct (map snd (cpp_order L (vm_sockets self)))" if "vi_ok self"
    using that mset_eq_imp_distinct_iff vi_ok_def by blast
qed

lemma order_sockets:
  assumes "cpp_laws L" "vi_ok self" "(n, fd) \<in> set (cpp_order L (vm_sockets self))"
  shows "map_of (vm_sockets (self\<lparr>vm_sockets_trash := t, vi_fds := fds\<rparr>)) n = Some fd"
  using assms vi_okD [OF assms(2)] order_ok(1) [OF assms(1)] by simp

lemma goToE:
  assumes "goTo F L self deadline = Some (messages, self')"
  obtains buf ms self1 where "collect_all F (cpp_rnd L) (cpp_order L (vm_sockets self)) []
      (self\<lparr>vm_sockets_trash := [], vi_fds := send_to_all (vi_fds self) (cpp_order L (vm_sockets self)) buf\<rparr>) = Some (ms, self1)"
    "self' = self1\<lparr>vm_sockets := filter (\<lambda>(vm, _). vm \<notin> set (vm_sockets_trash self1)) (vm_sockets self1)\<rparr>"
  using assms by (auto simp: goTo_def bind_eq_Some_conv)

lemma mset_concat_pairs: "mset (concat (map (\<lambda>(n, _). f n) xs)) = (\<Sum>(n, _) \<in># mset xs. mset (f n))"
  by (induction xs) auto

lemma read_only_output:
  assumes "read_only fds fd fds'"
  shows "written_to fds' fd' = written_to fds fd'" "writable fds' fd' = writable fds fd'"
proof -
  have "map_option sk_out (fds' fd') = map_option sk_out (fds fd')"
    "map_option sk_send_answers (fds' fd') = map_option sk_send_answers (fds fd')"
    using assms by (cases "fd' = fd"; simp add: read_only_def)+
  then show "written_to fds' fd' = written_to fds fd'" "writable fds' fd' = writable fds fd'"
    by (cases "fds fd'"; cases "fds' fd'"; simp add: written_to_def writable_def)+
qed

lemma collect_all_slices:
  assumes F: "fb_laws F V" and d: "distinct (map snd vms)"
    and vms: "\<And>n fd. (n, fd) \<in> set vms \<Longrightarrow> slice_bytes F (ws n) (bs n) \<and> readable (vi_fds self) fd (bs n @ rest n)"
  shows "\<exists>fds. collect_all F rnd vms ms self =
      Some (ms @ concat (map (\<lambda>(n, _). map (message_of rnd) (ws n)) vms), self\<lparr>vi_fds := fds\<rparr>) \<and>
    (\<forall>(n, fd) \<in> set vms. readable fds fd (rest n)) \<and> (\<forall>fd. fd \<notin> snd ` set vms \<longrightarrow> fds fd = vi_fds self fd) \<and>
    (\<forall>fd. written_to fds fd = written_to (vi_fds self) fd \<and> writable fds fd = writable (vi_fds self) fd)"
  using d vms
proof (induction vms arbitrary: ms self)
  case Nil
  then show ?case by (intro exI [of _ "vi_fds self"]) simp
next
  case (Cons vm vms)
  obtain n fd where vm: "vm = (n, fd)" by fastforce
  have "slice_bytes F (ws n) (bs n)" "readable (vi_fds self) fd (bs n @ rest n)" using Cons.prems(2) [of n fd] vm by auto
  then obtain fds1 where 1: "collect F rnd n fd ms self = Some (ms @ map (message_of rnd) (ws n), self\<lparr>vi_fds := fds1\<rparr>)"
    "readable fds1 fd (rest n)" "read_only (vi_fds self) fd fds1"
    using collect_slice [OF F] by blast
  have other: "fd' \<noteq> fd \<Longrightarrow> fds1 fd' = vi_fds self fd'" for fd' using 1(3) by (simp add: read_only_def)
  have h: "slice_bytes F (ws n') (bs n') \<and> readable (vi_fds (self\<lparr>vi_fds := fds1\<rparr>)) fd' (bs n' @ rest n')"
    if "(n', fd') \<in> set vms" for n' fd'
  proof -
    have "fd' \<noteq> fd" using that Cons.prems(1) vm by force
    from descriptor_cong(3) [of fds1 fd' "vi_fds self", OF other [OF this]] show ?thesis using Cons.prems(2) [of n' fd'] that by simp
  qed
  have "distinct (map snd vms)" using Cons.prems(1) by simp
  from Cons.IH [OF this h, of "ms @ map (message_of rnd) (ws n)"] obtain fds where 2: "collect_all F rnd vms (ms @ map (message_of rnd) (ws n)) (self\<lparr>vi_fds := fds1\<rparr>) =
      Some ((ms @ map (message_of rnd) (ws n)) @ concat (map (\<lambda>(n, _). map (message_of rnd) (ws n)) vms), self\<lparr>vi_fds := fds\<rparr>)"
    "\<forall>(n, fd) \<in> set vms. readable fds fd (rest n)" "\<forall>fd. fd \<notin> snd ` set vms \<longrightarrow> fds fd = fds1 fd"
    "\<forall>fd. written_to fds fd = written_to fds1 fd \<and> writable fds fd = writable fds1 fd"
    by auto
  have "fds fd = fds1 fd" using 2(3) Cons.prems(1) vm by auto
  then have "readable fds fd (rest n)" using 1(2) descriptor_cong(3) [of fds fd fds1] by simp
  then show ?case using 1(1) 2 other vm read_only_output [OF 1(3)] by auto
qed

text \<open>
  The exchange of a slice with machines that follow the protocol: all of them are told the deadline, and the messages are those
  of their packets, in the order of their times.
\<close>

lemma goTo_slices:
  assumes F: "fb_laws F V" and L: "cpp_laws L" and ok: "vi_ok self"
    and t: "simgridToVmTime (cpp_rnd L) deadline = Some vt" "goto_message F vt = Some buf"
    and vms: "\<And>n fd. (n, fd) \<in> set (vm_sockets self) \<Longrightarrow>
      slice_bytes F (ws n) (bs n) \<and> readable (vi_fds self) fd (bs n @ rest n) \<and> writable (vi_fds self) fd"
  obtains messages fds where "goTo F L self deadline = Some (messages, self\<lparr>vm_sockets_trash := [], vi_fds := fds\<rparr>)"
    "mset messages = (\<Sum>(n, _) \<in># mset (vm_sockets self). mset (map (message_of (cpp_rnd L)) (ws n)))"
    "sorted_wrt (\<lambda>i j. \<not> sortMessages j i) messages"
    "\<And>n fd. (n, fd) \<in> set (vm_sockets self) \<Longrightarrow>
      readable fds fd (rest n) \<and> written_to fds fd = written_to (vi_fds self) fd @ buf \<and> writable fds fd"
proof -
  let ?vms = "cpp_order L (vm_sockets self)"
  let ?self = "self\<lparr>vm_sockets_trash := [], vi_fds := send_to_all (vi_fds self) ?vms buf\<rparr>"
  note m = cpp_lawsD(2) [OF L, of "vm_sockets self"] and s = order_ok(1) [OF L, of self] and d = order_ok(2) [OF L ok]
  have "slice_bytes F (ws n) (bs n) \<and> readable (vi_fds ?self) fd (bs n @ rest n)" if "(n, fd) \<in> set ?vms" for n fd
    using vms that s by (simp add: send_to_all_readable)
  then obtain fds where c: "collect_all F (cpp_rnd L) ?vms [] ?self =
      Some (concat (map (\<lambda>(n, _). map (message_of (cpp_rnd L)) (ws n)) ?vms), ?self\<lparr>vi_fds := fds\<rparr>)"
    "\<forall>(n, fd) \<in> set ?vms. readable fds fd (rest n)" 
    "\<forall>fd. written_to fds fd = written_to (vi_fds ?self) fd \<and> writable fds fd = writable (vi_fds ?self) fd"
    using collect_all_slices [OF F d, of ws bs ?self rest "cpp_rnd L" "[]"] by auto
  let ?ms = "concat (map (\<lambda>(n, _). map (message_of (cpp_rnd L)) (ws n)) ?vms)"
  have g: "goTo F L self deadline = Some (cpp_sort L ?ms, self\<lparr>vm_sockets_trash := [], vi_fds := fds\<rparr>)"
    using t c(1) by (simp add: goTo_def)
  have "mset ?ms = (\<Sum>(n, _) \<in># mset ?vms. mset (map (message_of (cpp_rnd L)) (ws n)))"
    by (rule mset_concat_pairs)
  then have ms: "mset (cpp_sort L ?ms) = (\<Sum>(n, _) \<in># mset (vm_sockets self). mset (map (message_of (cpp_rnd L)) (ws n)))"
    using cpp_lawsD(3) [OF L] m by simp
  have srt: "sorted_wrt (\<lambda>i j. \<not> sortMessages j i) (cpp_sort L ?ms)"
  proof (rule cpp_lawsD(4) [OF L])
    fix m assume "m \<in> set ?ms"
    then obtain src dst t p where "m = message_of (cpp_rnd L) (src, dst, t, p)" by auto
    then show "sent_time m \<noteq> NotANumber" using sent_time_finite by (auto simp: message_of_def) (metis f64.distinct(5))
  qed
  have "readable fds fd (rest n) \<and> written_to fds fd = written_to (vi_fds self) fd @ buf \<and> writable fds fd"
    if "(n, fd) \<in> set (vm_sockets self)" for n fd
  proof -
    have "(n, fd) \<in> set ?vms" "fd \<in> snd ` set ?vms" "writable (vi_fds self) fd" using that s vms [OF that] by force+
    moreover have "readable fds fd (rest n)" using c(2) calculation(1) by blast
    ultimately show ?thesis using c(3) send_to_all_written [OF d, of fd "vi_fds self" buf] by simp
  qed
  with that [OF g ms srt] show ?thesis by blast
qed

section \<open>Machines that are given up\<close>

text \<open>Reading from one machine leaves the others alone.\<close>

lemma collect_effect:
  assumes "collect F rnd n fd ms self = Some (ms', self')" "map_of (vm_sockets self) n = Some fd"
  shows "vm_sockets self' = vm_sockets self \<and> vm_deployments self' = vm_deployments self \<and>
    simulate_until_any_stop self' = simulate_until_any_stop self \<and> (\<forall>fd'. fd' \<noteq> fd \<longrightarrow> vi_fds self' fd' = vi_fds self fd') \<and> set (vm_sockets_trash self) \<subseteq> set (vm_sockets_trash self') \<and>
    (a_vm_stopped self \<longrightarrow> a_vm_stopped self')"
  using assms
proof (induction F rnd n fd ms self rule: collect.induct)
  case (1 F rnd n fd ms self)
  obtain r fds where r: "fb_recv F (vi_fds self) fd SCRATCH_BUFFER_LEN = (r, fds)" by fastforce
  have ro: "fd' \<noteq> fd \<Longrightarrow> fds fd' = vi_fds self fd'" for fd'
    using fb_recv_read_only [OF r] by (simp add: read_only_def)
  show ?case
  proof (cases r)
    case (Inl e)
    then show ?thesis using "1.prems" r ro by (subst (asm) collect.simps) (auto simp: close_vm_socket_def)
  next
    case (Inr body)
    then obtain msg where msg: "fb_root_to_tansiv F body = Some msg"
      using "1.prems"(1) r by (subst (asm) collect.simps) (auto split: option.splits)
    show ?thesis
    proof (cases "to_content_type msg = ToSendPacket")
      case True
      let ?ms = "case read_packet rnd msg of None \<Rightarrow> ms | Some m \<Rightarrow> ms @ [m]"
      have "collect F rnd n fd ?ms (self\<lparr>vi_fds := fds\<rparr>) = Some (ms', self')"
        using "1.prems"(1) r Inr msg True by (subst (asm) collect.simps) simp
      from "1.IH" [OF r [symmetric] Inr msg True this] "1.prems"(2) ro show ?thesis by simp
    next
      case False
      then show ?thesis
        using "1.prems"(1) r Inr msg ro by (subst (asm) collect.simps) (auto split: to_tansiv_type.splits)
    qed
  qed
qed

lemma collect_oversized:
  assumes F: "fb_laws F V" and r: "readable (vi_fds self) fd (frame body @ rest)"
    and len: "SCRATCH_BUFFER_LEN < length body" "length body < 2 ^ 32" and fd: "map_of (vm_sockets self) n = Some fd"
  shows "\<exists>fds. collect F rnd n fd ms self = Some (ms, self\<lparr>vi_fds := fds(fd := None),
    vm_sockets_trash := vm_sockets_trash self @ [n], a_vm_stopped := True\<rparr>)"
proof -
  obtain fds where "fb_recv F (vi_fds self) fd SCRATCH_BUFFER_LEN = (Err BufferTooSmall, fds)"
    by (rule fb_recv_frame [OF F r len(2), of SCRATCH_BUFFER_LEN]) (use len(1) in simp)
  with fd show ?thesis by (subst collect.simps) (auto simp: close_vm_socket_def)
qed

lemma collect_all_effect:
  assumes "collect_all F rnd vms ms self = Some (ms', self')" "\<And>n fd. (n, fd) \<in> set vms \<Longrightarrow> map_of (vm_sockets self) n = Some fd"
  shows "vm_sockets self' = vm_sockets self \<and> vm_deployments self' = vm_deployments self \<and>
    simulate_until_any_stop self' = simulate_until_any_stop self \<and> (\<forall>fd. fd \<notin> snd ` set vms \<longrightarrow> vi_fds self' fd = vi_fds self fd) \<and> set (vm_sockets_trash self) \<subseteq> set (vm_sockets_trash self') \<and>
    (a_vm_stopped self \<longrightarrow> a_vm_stopped self')"
  using assms
proof (induction vms arbitrary: ms self)
  case (Cons vm vms)
  obtain n fd where vm: "vm = (n, fd)" by fastforce
  obtain ms1 self1 where 1: "collect F rnd n fd ms self = Some (ms1, self1)" "collect_all F rnd vms ms1 self1 = Some (ms', self')"
    using Cons.prems(1) vm by (auto simp: bind_eq_Some_conv)
  have e: "vm_sockets self1 = vm_sockets self" using collect_effect [OF 1(1)] Cons.prems(2) [of n fd] vm by simp
  from Cons.IH [OF 1(2)] Cons.prems(2) e have "vm_sockets self' = vm_sockets self1 \<and> vm_deployments self' = vm_deployments self1 \<and>
    simulate_until_any_stop self' = simulate_until_any_stop self1 \<and> (\<forall>fd. fd \<notin> snd ` set vms \<longrightarrow> vi_fds self' fd = vi_fds self1 fd) \<and> set (vm_sockets_trash self1) \<subseteq> set (vm_sockets_trash self') \<and>
    (a_vm_stopped self1 \<longrightarrow> a_vm_stopped self')" by auto
  with collect_effect [OF 1(1)] Cons.prems(2) [of n fd] vm show ?case by auto
qed simp

lemma collect_all_oversized:
  assumes F: "fb_laws F V" and d: "distinct (map snd vms)" and vm: "(n, fd) \<in> set vms"
    and fds: "\<And>n fd. (n, fd) \<in> set vms \<Longrightarrow> map_of (vm_sockets self) n = Some fd"
    and r: "readable (vi_fds self) fd (frame body @ rest)" "SCRATCH_BUFFER_LEN < length body" "length body < 2 ^ 32"
    and c: "collect_all F rnd vms ms self = Some (ms', self')"
  shows "n \<in> set (vm_sockets_trash self') \<and> a_vm_stopped self'"
  using d vm fds r c
proof (induction vms arbitrary: ms self)
  case (Cons v vms)
  obtain n1 fd1 where v: "v = (n1, fd1)" by fastforce
  obtain ms1 self1 where 1: "collect F rnd n1 fd1 ms self = Some (ms1, self1)" "collect_all F rnd vms ms1 self1 = Some (ms', self')"
    using Cons.prems(7) v by (auto simp: bind_eq_Some_conv)
  have m1: "map_of (vm_sockets self) n1 = Some fd1" using Cons.prems(3) v by simp
  have e: "vm_sockets self1 = vm_sockets self" "\<And>fd'. fd' \<noteq> fd1 \<Longrightarrow> vi_fds self1 fd' = vi_fds self fd'"
    using collect_effect [OF 1(1) m1] by simp_all
  have m2: "map_of (vm_sockets self1) n' = Some fd'" if "(n', fd') \<in> set vms" for n' fd' using Cons.prems(3) that e(1) by simp
  show ?case
  proof (cases "(n, fd) = v")
    case True
    then have "n \<in> set (vm_sockets_trash self1)" "a_vm_stopped self1"
      using collect_oversized [OF F Cons.prems(4-6), of n rnd ms] m1 1(1) v by auto
    with collect_all_effect [OF 1(2) m2] show ?thesis by auto
  next
    case False
    then have i: "(n, fd) \<in> set vms" "fd \<noteq> fd1" using Cons.prems(1,2) v by force+
    have "readable (vi_fds self1) fd (frame body @ rest)"
      using descriptor_cong(3) [of "vi_fds self1" fd "vi_fds self", OF e(2) [OF i(2)]] Cons.prems(4) by simp
    with Cons.IH [OF _ i(1) m2 _ Cons.prems(5,6) 1(2)] Cons.prems(1) show ?thesis by simp
  qed
qed simp

text \<open>A machine that sends a message too big for the buffer is given up.\<close>

lemma goTo_oversized:
  assumes F: "fb_laws F V" and L: "cpp_laws L" and ok: "vi_ok self" and vm: "(n, fd) \<in> set (vm_sockets self)"
    and r: "readable (vi_fds self) fd (frame body @ rest)" "SCRATCH_BUFFER_LEN < length body" "length body < 2 ^ 32"
    and g: "goTo F L self deadline = Some (messages, self')"
  shows "n \<notin> fst ` set (vm_sockets self') \<and> n \<in> set (vm_sockets_trash self') \<and> a_vm_stopped self'"
proof -
  let ?vms = "cpp_order L (vm_sockets self)"
  note s = order_ok(1) [OF L, of self] and d = order_ok(2) [OF L ok]
  obtain buf ms self1 where c: "collect_all F (cpp_rnd L) ?vms []
      (self\<lparr>vm_sockets_trash := [], vi_fds := send_to_all (vi_fds self) ?vms buf\<rparr>) = Some (ms, self1)"
    "self' = self1\<lparr>vm_sockets := filter (\<lambda>(vm, _). vm \<notin> set (vm_sockets_trash self1)) (vm_sockets self1)\<rparr>"
    by (rule goToE [OF g])
  note fds = order_sockets [OF L ok]
  have r1: "readable (vi_fds (self\<lparr>vm_sockets_trash := [], vi_fds := send_to_all (vi_fds self) ?vms buf\<rparr>)) fd (frame body @ rest)"
    using r(1) by (simp add: send_to_all_readable)
  have vm1: "(n, fd) \<in> set ?vms" using vm s by simp
  from collect_all_oversized [OF F d vm1 fds r1 r(2,3) c(1)] c(2) show ?thesis by auto
qed

section \<open>Messages to the machines\<close>

text \<open>The message that sets a deadline can be read, with the time it was made of.\<close>

definition goto_time_msg :: "vsg_time \<Rightarrow> from_tansiv_msg" where
  "goto_time_msg vt = \<lparr>from_content_type = FromGotoDeadline,
     from_content = Some (GotoDeadlineT (Some \<lparr>tm_seconds = vt_seconds vt, tm_nseconds = vt_nseconds vt\<rparr>))\<rparr>"

lemma goto_message_frame:
  assumes F: "fb_laws F V"
  shows "\<exists>buf. goto_message F vt = Some buf \<and> from_frame F buf (goto_time_msg vt)"
proof -
  let ?time = "\<lparr>tm_seconds = vt_seconds vt, tm_nseconds = vt_nseconds vt\<rparr>"
  obtain b1 o1 where c1: "fb_create_goto_deadline F (fb_with_capacity F 128) ?time = (b1, o1)" by fastforce
  obtain b2 o2 where c2: "fb_create_from_tansiv_msg F b1 FromGotoDeadline o1 = (b2, o2)" by fastforce
  have "fv_fresh V (fb_with_capacity F 128)" using F by (simp add: fb_laws_def)
  note t = fb_goto_deadlineD [OF F this c1]
  show ?thesis using from_frameI [OF F fb_from_msgD [OF F t c2]] c1 c2 by (simp add: goto_message_def goto_time_msg_def)
qed

text \<open>A time with less than a second of nanoseconds is a deadline of the client.\<close>

lemma goto_time_deadline:
  assumes "unat (vt_nseconds vt) < 10 ^ 9"
  obtains d where "goto_time_msg vt = goto_deadline_msg d" "as_nanos d = unat (vt_seconds vt) * 10 ^ 9 + unat (vt_nseconds vt)"
proof -
  have n: "unat (ucast (vt_nseconds vt) :: u32) = unat (vt_nseconds vt)" using assms by simp
  obtain d where d: "Duration_new (vt_seconds vt) (ucast (vt_nseconds vt)) = Some d"
    by (rule Duration_new_defined [of "ucast (vt_nseconds vt)" "vt_seconds vt"]) (use assms n in simp)
  have v: "as_nanos d = unat (vt_seconds vt) * 10 ^ 9 + unat (vt_nseconds vt)" using Duration_new_Some [OF d] n by simp
  have s: "as_secs d = vt_seconds vt" using unat_as_secs [of d] v assms by (simp add: word_unat_eq_iff)
  have "unat (ucast (subsec_nanos d) :: u64) = unat (vt_nseconds vt)" using unat_subsec_nanos [of d] v assms by simp
  then have "(ucast (subsec_nanos d) :: u64) = vt_nseconds vt" by (simp add: word_unat_eq_iff)
  with s have "goto_time_msg vt = goto_deadline_msg d" by (simp add: goto_time_msg_def goto_deadline_msg_def fb_time_of_def)
  with v show ?thesis by (rule that [rotated])
qed

text \<open>A message that is delivered is written, whole, to the machine it is for, if that is still connected.\<close>

lemma deliverMessage_frame:
  assumes F: "fb_laws F V" and fd: "map_of (vm_sockets self) (msg_dst m) = Some fd" and w: "writable (vi_fds self) fd"
    and len: "length (msg_data m) \<le> fb_payload_limit"
  obtains fr fds where "deliverMessage F self m = Some (self\<lparr>vi_fds := fds\<rparr>)"
    "from_frame F fr (deliver_packet_msg (src_enc m) (dst_enc m) (msg_data m))"
    "written_to fds fd = written_to (vi_fds self) fd @ fr" "write_only (vi_fds self) fd fds"
proof -
  have "fv_fresh V (fb_with_capacity F 2048)" using F by (simp add: fb_laws_def)
  from create_deliver_packet_frame [OF F this len, of "src_enc m" "dst_enc m"] obtain fr where
    fr: "fb_finished_data F (create_deliver_packet F (fb_with_capacity F 2048) (src_enc m) (dst_enc m) (msg_data m)) = Some fr"
    "from_frame F fr (deliver_packet_msg (src_enc m) (dst_enc m) (msg_data m))" by blast
  have "deliverMessage F self m = Some (self\<lparr>vi_fds := snd (vsg_protocol_send (vi_fds self) fd fr)\<rparr>)"
    using fr(1) fd by (simp add: deliverMessage_def create_deliver_packet_def prepare_deliver_packet_def Let_def case_prod_beta)
  with that [OF _ fr(2)] send_writable(2) [OF w] send_write_only show ?thesis by blast
qed

lemma deliverMessage_gone: "map_of (vm_sockets self) (msg_dst m) = None \<Longrightarrow> deliverMessage F self m = Some self"
  by (simp add: deliverMessage_def)

lemma deliverMessage_same:
  assumes "deliverMessage F self m = Some self'"
  shows "self' = self\<lparr>vi_fds := vi_fds self'\<rparr>"
  using assms by (auto simp: deliverMessage_def Let_def bind_eq_Some_conv split: option.splits prod.splits)

lemma deliverMessage_defined:
  assumes F: "fb_laws F V" and len: "length (msg_data m) \<le> fb_payload_limit"
  shows "\<exists>self'. deliverMessage F self m = Some self'"
proof -
  have "fv_fresh V (fb_with_capacity F 2048)" using F by (simp add: fb_laws_def)
  from create_deliver_packet_frame [OF F this len, of "src_enc m" "dst_enc m"] show ?thesis
    by (auto simp: deliverMessage_def create_deliver_packet_def prepare_deliver_packet_def Let_def case_prod_beta split: option.splits)
qed

lemma message_of_data:
  assumes "length p \<le> fb_payload_limit"
  shows "msg_data (message_of rnd (src, dst, t, p)) = p" "src_enc (message_of rnd (src, dst, t, p)) = src"
    "dst_enc (message_of rnd (src, dst, t, p)) = dst" "unat (msg_size (message_of rnd (src, dst, t, p))) = length p"
  using assms by (simp_all add: message_of_def Message_new_def unat_of_nat fb_payload_limit_def)

section \<open>Progress\<close>

text \<open>In every exchange each machine is given up or at least one message of it is read.\<close>

lemma collect_progress:
  assumes "collect F rnd n fd ms self = Some (ms', self')" "map_of (vm_sockets self) n = Some fd"
  shows "n \<in> set (vm_sockets_trash self') \<or> unread (vi_fds self') fd < unread (vi_fds self) fd"
  using assms
proof (induction F rnd n fd ms self rule: collect.induct)
  case (1 F rnd n fd ms self)
  obtain r fds where r: "fb_recv F (vi_fds self) fd SCRATCH_BUFFER_LEN = (r, fds)" by fastforce
  show ?case
  proof (cases r)
    case (Inl e)
    then show ?thesis using "1.prems" r by (subst (asm) collect.simps) (auto simp: close_vm_socket_def)
  next
    case (Inr body)
    have p: "unread fds fd < unread (vi_fds self) fd" using fb_recv_progress [OF r [unfolded Inr]] .
    obtain msg where msg: "fb_root_to_tansiv F body = Some msg"
      using "1.prems"(1) r Inr by (subst (asm) collect.simps) (auto split: option.splits)
    show ?thesis
    proof (cases "to_content_type msg = ToSendPacket")
      case True
      let ?ms = "case read_packet rnd msg of None \<Rightarrow> ms | Some m \<Rightarrow> ms @ [m]"
      have "collect F rnd n fd ?ms (self\<lparr>vi_fds := fds\<rparr>) = Some (ms', self')"
        using "1.prems"(1) r Inr msg True by (subst (asm) collect.simps) simp
      from "1.IH" [OF r [symmetric] Inr msg True this] "1.prems"(2) p show ?thesis by (auto intro: less_trans)
    next
      case False
      then show ?thesis
        using "1.prems"(1) r Inr msg p by (subst (asm) collect.simps) (auto split: to_tansiv_type.splits)
    qed
  qed
qed

lemma collect_all_progress:
  assumes "collect_all F rnd vms ms self = Some (ms', self')" "distinct (map snd vms)" "(n, fd) \<in> set vms"
    and "\<And>n fd. (n, fd) \<in> set vms \<Longrightarrow> map_of (vm_sockets self) n = Some fd"
  shows "n \<in> set (vm_sockets_trash self') \<or> unread (vi_fds self') fd < unread (vi_fds self) fd"
  using assms
proof (induction vms arbitrary: ms self)
  case (Cons v vms)
  obtain n1 fd1 where v: "v = (n1, fd1)" by fastforce
  obtain ms1 self1 where 1: "collect F rnd n1 fd1 ms self = Some (ms1, self1)" "collect_all F rnd vms ms1 self1 = Some (ms', self')"
    using Cons.prems(1) v by (auto simp: bind_eq_Some_conv)
  have m1: "map_of (vm_sockets self) n1 = Some fd1" using Cons.prems(4) v by simp
  note e = collect_effect [OF 1(1) m1]
  have m2: "map_of (vm_sockets self1) n' = Some fd'" if "(n', fd') \<in> set vms" for n' fd' using Cons.prems(4) that e by simp
  note e' = collect_all_effect [OF 1(2) m2]
  show ?case
  proof (cases "(n, fd) = v")
    case True
    then have "fd \<notin> snd ` set vms" "fd = fd1" "n = n1" using Cons.prems(2) v by auto
    then have same: "vi_fds self' fd = vi_fds self1 fd" using e' by blast
    from collect_progress [OF 1(1) m1] \<open>fd = fd1\<close> \<open>n = n1\<close> e' same show ?thesis by auto
  next
    case False
    then have i: "(n, fd) \<in> set vms" "fd \<noteq> fd1" using Cons.prems(2,3) v by force+
    then have "vi_fds self1 fd = vi_fds self fd" using e by blast
    with Cons.IH [OF 1(2) _ i(1) m2] Cons.prems(2) show ?thesis by simp
  qed
qed simp

lemma send_unread: "unread (snd (vsg_protocol_send fds fd buf)) fd' = unread fds fd'"
  by (auto simp: vsg_protocol_send_def case_prod_beta split: option.splits)

lemma send_to_all_unread: "unread (send_to_all fds vms buf) fd = unread fds fd"
proof (induction vms arbitrary: fds)
  case (Cons vm vms)
  then show ?case using send_unread by (cases vm) simp
qed simp

text \<open>How much the machines can still say: the bytes to be read from each, and its end.\<close>

definition vm_weight :: "vms_interface \<Rightarrow> nat" where
  "vm_weight self = sum_list (map (\<lambda>(_, fd). Suc (unread (vi_fds self) fd)) (vm_sockets self))"

lemma sum_list_filter_less:
  assumes "xs \<noteq> []" "\<And>x. x \<in> set xs \<Longrightarrow> 0 < f x" "\<And>x. x \<in> set xs \<Longrightarrow> P x \<Longrightarrow> g x < (f x :: nat)"
  shows "sum_list (map g (filter P xs)) < sum_list (map f xs)"
  using assms
proof (induction xs)
  case (Cons x xs)
  have "(if P x then g x else 0) < f x" using Cons.prems(2,3) by simp
  moreover have "sum_list (map g (filter P xs)) \<le> sum_list (map f xs)"
    using Cons by (cases "xs = []") (auto intro: less_imp_le)
  ultimately show ?case by (simp split: if_splits)
qed simp

lemma goTo_progress:
  assumes L: "cpp_laws L" and ok: "vi_ok self" and g: "goTo F L self deadline = Some (messages, self')"
  shows "vi_ok self'" "vm_sockets self \<noteq> [] \<Longrightarrow> vm_weight self' < vm_weight self"
    "simulate_until_any_stop self' = simulate_until_any_stop self" "vm_deployments self' = vm_deployments self"
proof -
  let ?vms = "cpp_order L (vm_sockets self)"
  note s = order_ok(1) [OF L, of self] and d = order_ok(2) [OF L ok]
  obtain buf ms self1 where c: "collect_all F (cpp_rnd L) ?vms []
      (self\<lparr>vm_sockets_trash := [], vi_fds := send_to_all (vi_fds self) ?vms buf\<rparr>) = Some (ms, self1)"
    "self' = self1\<lparr>vm_sockets := filter (\<lambda>(vm, _). vm \<notin> set (vm_sockets_trash self1)) (vm_sockets self1)\<rparr>"
    by (rule goToE [OF g])
  note fds = order_sockets [OF L ok]
  have e: "vm_sockets self1 = vm_sockets self" "simulate_until_any_stop self1 = simulate_until_any_stop self"
    "vm_deployments self1 = vm_deployments self"
    using collect_all_effect [OF c(1) fds] by simp_all
  then show "simulate_until_any_stop self' = simulate_until_any_stop self" "vm_deployments self' = vm_deployments self" using c(2) by simp_all
  show "vi_ok self'" using ok c(2) e(1) by (auto simp: vi_ok_def distinct_map_filter)
  have "unread (vi_fds self1) fd < unread (vi_fds self) fd"
    if "(n, fd) \<in> set (vm_sockets self)" "n \<notin> set (vm_sockets_trash self1)" for n fd
    using collect_all_progress [OF c(1) d _ fds, of n fd] that s by (auto simp: send_to_all_unread)
  then show "vm_weight self' < vm_weight self" if "vm_sockets self \<noteq> []"
    using that c(2) e(1) by (auto simp: vm_weight_def intro!: sum_list_filter_less)
qed

lemma deliverMessage_weight: "deliverMessage F self m = Some self' \<Longrightarrow> vm_weight self' = vm_weight self"
  by (auto simp: deliverMessage_def vm_weight_def send_unread Let_def bind_eq_Some_conv split: option.splits prod.splits)

section \<open>What the coordinator relies on\<close>

text \<open>
  The machines as the coordinator sees them: it advances them to a deadline and delivers messages to them. \<open>weight\<close> bounds
  what they can still say.
\<close>

fun deliver_all :: "('i \<Rightarrow> 'm \<Rightarrow> 'i option) \<Rightarrow> 'm list \<Rightarrow> 'i \<Rightarrow> 'i option" where
  "deliver_all deliver [] i = Some i"
| "deliver_all deliver (m # ms) i = do { i \<leftarrow> deliver i m; deliver_all deliver ms i }"

locale machines =
  fixes advance :: "'i \<Rightarrow> f64 \<Rightarrow> ('m list \<times> 'i) option" and deliver :: "'i \<Rightarrow> 'm \<Rightarrow> 'i option"
    and ok :: "'i \<Rightarrow> bool" and live :: "'i \<Rightarrow> bool" and weight :: "'i \<Rightarrow> nat"
  assumes advance_ok: "ok i \<Longrightarrow> advance i d = Some (ms, i') \<Longrightarrow> ok i'"
    and advance_weight: "ok i \<Longrightarrow> live i \<Longrightarrow> advance i d = Some (ms, i') \<Longrightarrow> weight i' < weight i"
    and deliver_ok: "ok i \<Longrightarrow> deliver i m = Some i' \<Longrightarrow> ok i'"
    and deliver_weight: "deliver i m = Some i' \<Longrightarrow> weight i' = weight i"
begin

lemma deliver_all_keeps: "deliver_all deliver ms i = Some i' \<Longrightarrow> weight i' = weight i \<and> (ok i \<longrightarrow> ok i')"
proof (induction ms arbitrary: i)
  case (Cons m ms)
  then obtain i1 where d: "deliver i m = Some i1" "deliver_all deliver ms i1 = Some i'" by (auto split: bind_splits)
  then show ?case using Cons.IH deliver_ok deliver_weight by metis
qed simp

lemma exchange:
  assumes "ok i" "advance i d = Some (ms, i1)" "deliver_all deliver ms' i1 = Some i'"
  shows "ok i'" "live i \<Longrightarrow> weight i' < weight i"
  using deliver_all_keeps [OF assms(3)] advance_ok [OF assms(1,2)] advance_weight [OF assms(1) _ assms(2)] by simp_all

end

interpretation vms: machines "goTo F L" "deliverMessage F" "\<lambda>i. cpp_laws L \<and> vi_ok i" "\<lambda>i. vm_sockets i \<noteq> []" vm_weight
  for F :: "('b, 'o) flatbuffers" and L
proof unfold_locales
  fix self self' d ms m
  show "cpp_laws L \<and> vi_ok self \<Longrightarrow> goTo F L self d = Some (ms, self') \<Longrightarrow> cpp_laws L \<and> vi_ok self'"
    "cpp_laws L \<and> vi_ok self \<Longrightarrow> vm_sockets self \<noteq> [] \<Longrightarrow> goTo F L self d = Some (ms, self') \<Longrightarrow> vm_weight self' < vm_weight self"
    using goTo_progress by blast+
  show "cpp_laws L \<and> vi_ok self'" if "cpp_laws L \<and> vi_ok self" "deliverMessage F self m = Some self'"
  proof -
    have "vm_sockets self' = vm_sockets self" using arg_cong [OF deliverMessage_same [OF that(2)], of vm_sockets] by simp
    with that(1) show ?thesis by (simp add: vi_ok_def)
  qed
  show "deliverMessage F self m = Some self' \<Longrightarrow> vm_weight self' = vm_weight self" by (rule deliverMessage_weight)
qed

end
