(* ===== verification/Vms_Coordinator.thy ===== *)
theory Vms_Coordinator
  imports Vms_Interface
begin

text \<open>
  The coordinator, \<open>coordinator/VmsCoordinator.cpp\<close>: it advances the machines and the simulated network in turns. The
  simulator (SimGrid) is the argument \<open>G\<close>, a record of the functions the coordinator calls, on a state of its own; what
  is used of their behaviour is in \<open>simgrid_laws\<close>. The actors of the simulator that stand for the machines are pairs of an
  identity and the name of their host. As in \<open>Vms_Interface\<close>, \<open>None\<close> is the end of the process.
\<close>

section \<open>The simulator\<close>

record ('g, 'c) simgrid =
  sg_clock :: "'g \<Rightarrow> f64"
  sg_next_events :: "'g \<Rightarrow> f64 \<Rightarrow> f64 list"
  sg_latency :: "'g \<Rightarrow> string \<Rightarrow> string \<Rightarrow> f64"
  sg_sleep_until :: "'g \<Rightarrow> f64 \<Rightarrow> 'g"
  sg_sendto_async :: "'g \<Rightarrow> string \<Rightarrow> string \<Rightarrow> u64 \<Rightarrow> 'c \<times> 'g"
  sg_test_any :: "'g \<Rightarrow> 'c list \<Rightarrow> int \<times> 'g"

text \<open>
  Sleeping until a later time sets the clock to it, and only sleeping moves the clock; \<open>test_any\<close> returns the index of a
  communication of its argument, or a negative number.
\<close>

definition simgrid_laws :: "('g, 'c) simgrid \<Rightarrow> bool" where
  "simgrid_laws G \<longleftrightarrow>
     (\<forall>g t. sg_clock G (sg_sleep_until G g t) = (if f64_less (sg_clock G g) t then t else sg_clock G g)) \<and>
     (\<forall>g a b n. sg_clock G (snd (sg_sendto_async G g a b n)) = sg_clock G g) \<and>
     (\<forall>g cs. sg_clock G (snd (sg_test_any G g cs)) = sg_clock G g \<and> fst (sg_test_any G g cs) < int (length cs))"

section \<open>State\<close>

record ('g, 'c) coordinator =
  vms_interface :: vms_interface
  co_engine :: 'g
  pending_comms :: "'c list"
  pending_messages :: "message list"
  tansiv_actors :: "(nat \<times> string) list"
  force_min_latency :: f64
  co_min_latency :: f64

section \<open>Operations\<close>

text \<open>\<open>std::min\<close>.\<close>

definition f64_min :: "f64 \<Rightarrow> f64 \<Rightarrow> f64" where
  "f64_min a b = (if f64_less b a then b else a)"

definition compute_min_latency :: "('g, 'c) simgrid \<Rightarrow> ('g, 'c) coordinator \<Rightarrow> f64 option" where
  "compute_min_latency G self =
     (if f64_le (Finite 0) (force_min_latency self) then Some (force_min_latency self)
      else do {
        min_latency \<leftarrow> Some (foldl (\<lambda>min_latency (sender, receiver).
            if sender \<noteq> receiver then
              (let latency = sg_latency G (co_engine self) (snd sender) (snd receiver)
               in if f64_less latency min_latency then latency else min_latency)
            else min_latency) PosInf (List.product (tansiv_actors self) (tansiv_actors self)));
        assert_that (f64_less (Finite 0) min_latency);
        Some min_latency
      })"

definition get_next_event :: "(rat \<Rightarrow> rat) \<Rightarrow> ('g, 'c) simgrid \<Rightarrow> 'g \<Rightarrow> f64" where
  "get_next_event rnd G g =
     (let time = sg_clock G g
      in foldl (\<lambda>next_event_time e.
           let model_event = f64_add rnd time e
           in if f64_less model_event next_event_time \<and> f64_less time model_event then model_event else next_event_time)
         PosInf (sg_next_events G g time))"

text \<open>The function of the actor that stands for a machine; \<open>i\<close> is its identity and \<open>mailbox_name\<close> its host.\<close>

definition tansiv_actor ::
  "('g, 'c) coordinator \<Rightarrow> bool \<Rightarrow> (c_int \<times> vm_socket) option \<Rightarrow> nat \<Rightarrow> string \<Rightarrow> string list \<Rightarrow> ('g, 'c) coordinator option" where
  "tansiv_actor self forked accepted i mailbox_name args = do {
     assert_that (3 \<le> length args);
     fork_command \<leftarrow> Some (drop 2 args);
     vms \<leftarrow> register_vm (vms_interface self) forked accepted mailbox_name (args ! 1) (args ! 2) fork_command;
     Some (self\<lparr>vms_interface := vms, tansiv_actors := tansiv_actors self @ [(i, mailbox_name)]\<rparr>)
   }"

text \<open>The actors of machines that stopped are forgotten, and the latency is computed anew.\<close>

definition forget_dead :: "('g, 'c) simgrid \<Rightarrow> ('g, 'c) coordinator \<Rightarrow> ('g, 'c) coordinator option" where
  "forget_dead G self =
     (let dead = get_dead_vm_hosts (vms_interface self);
          self = self\<lparr>tansiv_actors := foldl (\<lambda>actors host. filter (\<lambda>a. snd a \<noteq> host) actors) (tansiv_actors self) dead\<rparr>
      in if dead \<noteq> [] then do {
           min_latency \<leftarrow> compute_min_latency G self;
           Some (self\<lparr>co_min_latency := min_latency\<rparr>)
         } else Some self)"

text \<open>The check of a message's time against the clock, with the machine epsilon.\<close>

definition causality_check :: "(rat \<Rightarrow> rat) \<Rightarrow> message \<Rightarrow> f64 \<Rightarrow> bool" where
  "causality_check rnd m time \<longleftrightarrow>
     (let send_timeeps = f64_add rnd (sent_time m) (Finite (1 / 2 ^ 52))
      in f64_le time (f64_add rnd (sent_time m) send_timeeps))"

text \<open>The messages of a slice are handed to the simulated network, each at its time.\<close>

fun forward_messages ::
  "('g, 'c) simgrid \<Rightarrow> cpp_lib \<Rightarrow> message list \<Rightarrow> ('g, 'c) coordinator \<Rightarrow> ('g, 'c) coordinator option" where
  "forward_messages G L [] self = Some self"
| "forward_messages G L (m # ms) self = do {
     time \<leftarrow> Some (sg_clock G (co_engine self));
     assert_that (causality_check (cpp_rnd L) m time);
     self \<leftarrow> Some (if f64_less time (sent_time m) then self\<lparr>co_engine := sg_sleep_until G (co_engine self) (sent_time m)\<rparr> else self);
     src_host_name \<leftarrow> Some (getHostOfVm (vms_interface self) (msg_src m));
     assert_that (src_host_name \<noteq> '''');
     dest_host_name \<leftarrow> Some (getHostOfVm (vms_interface self) (msg_dst m));
     self \<leftarrow> Some (if dest_host_name \<noteq> '''' then
         (let (comm, g) = sg_sendto_async G (co_engine self) src_host_name dest_host_name (ucast (msg_size m + 24))
          in self\<lparr>co_engine := g, pending_comms := pending_comms self @ [comm],
                  pending_messages := pending_messages self @ [m]\<rparr>)
       else self);
     forward_messages G L ms self
   }"

definition erase :: "nat \<Rightarrow> 'a list \<Rightarrow> 'a list" where
  "erase i xs = take i xs @ drop (Suc i) xs"

text \<open>
  What has arrived is delivered. The result has the messages delivered, in order. An index that is not one of both lists
  would be undefined behaviour.
\<close>

function deliver_arrived ::
  "('g, 'c) simgrid \<Rightarrow> ('b, 'o) flatbuffers \<Rightarrow> ('g, 'c) coordinator \<Rightarrow> (message list \<times> ('g, 'c) coordinator) option" where
  "deliver_arrived G F self =
     (case sg_test_any G (co_engine self) (pending_comms self) of
        (changed_pos, g) \<Rightarrow>
          (let i = nat changed_pos
           in if changed_pos < 0 then Some ([], self\<lparr>co_engine := g\<rparr>)
              else if length (pending_comms self) \<le> i \<or> length (pending_messages self) \<le> i then None
              else (case deliverMessage F (vms_interface self) (pending_messages self ! i) of
                      None \<Rightarrow> None
                    | Some vms \<Rightarrow>
                        map_option (\<lambda>(ms, self'). (pending_messages self ! i # ms, self'))
                          (deliver_arrived G F (self\<lparr>vms_interface := vms, co_engine := g,
                             pending_comms := erase i (pending_comms self),
                             pending_messages := erase i (pending_messages self)\<rparr>)))))"
  by pat_completeness auto
termination
  by (relation "measure (\<lambda>(_, _, self). length (pending_comms self))") (auto simp: erase_def)

declare deliver_arrived.simps [simp del]

text \<open>With an infinite deadline only one machine is left, and it has stopped: there is nothing to wait for.\<close>

definition sleep_to_deadline :: "('g, 'c) simgrid \<Rightarrow> f64 \<Rightarrow> ('g, 'c) coordinator \<Rightarrow> ('g, 'c) coordinator" where
  "sleep_to_deadline G deadline self =
     (if deadline \<noteq> PosInf then self\<lparr>co_engine := sg_sleep_until G (co_engine self) deadline\<rparr> else self)"

text \<open>
  One turn of the loop. It returns the deadline, the messages the machines sent in the slice and those delivered at its end, and the
  state after it.
\<close>

definition coordinator_turn ::
  "('g, 'c) simgrid \<Rightarrow> ('b, 'o) flatbuffers \<Rightarrow> cpp_lib \<Rightarrow> ('g, 'c) coordinator \<Rightarrow>
     ((f64 \<times> message list \<times> message list) \<times> ('g, 'c) coordinator) option" where
  "coordinator_turn G F L self = do {
     self \<leftarrow> forget_dead G self;
     time \<leftarrow> Some (sg_clock G (co_engine self));
     next_reception_time \<leftarrow> Some (get_next_event (cpp_rnd L) G (co_engine self));
     deadline \<leftarrow> Some (f64_min (f64_add (cpp_rnd L) time (co_min_latency self)) next_reception_time);
     (messages, vms) \<leftarrow> goTo F L (vms_interface self) deadline;
     self \<leftarrow> forward_messages G L messages (self\<lparr>vms_interface := vms\<rparr>);
     self \<leftarrow> Some (sleep_to_deadline G deadline self);
     (delivered, self) \<leftarrow> deliver_arrived G F self;
     Some ((deadline, messages, delivered), self)
   }"

partial_function (option) coordinator_loop ::
  "('g, 'c) simgrid \<Rightarrow> ('b, 'o) flatbuffers \<Rightarrow> cpp_lib \<Rightarrow> ('g, 'c) coordinator \<Rightarrow> ('g, 'c) coordinator option" where
  "coordinator_loop G F L self =
     (if vmActive (vms_interface self) then do {
        (_, self) \<leftarrow> coordinator_turn G F L self;
        coordinator_loop G F L self
      } else Some self)"

definition vm_coordinator ::
  "('g, 'c) simgrid \<Rightarrow> ('b, 'o) flatbuffers \<Rightarrow> cpp_lib \<Rightarrow> ('g, 'c) coordinator \<Rightarrow> ('g, 'c) coordinator option" where
  "vm_coordinator G F L self = do {
     min_latency \<leftarrow> compute_min_latency G self;
     self \<leftarrow> coordinator_loop G F L (self\<lparr>co_min_latency := min_latency\<rparr>);
     vms \<leftarrow> end_simulation (vms_interface self) True False;
     Some (self\<lparr>vms_interface := vms\<rparr>)
   }"

text \<open>
  The options of the program; \<open>argv\<close> has the program's name first. The value of an option that is the last argument would be
  read from the null pointer behind them.
\<close>

fun lookup_args_from :: "int \<Rightarrow> string \<Rightarrow> string list \<Rightarrow> int" where
  "lookup_args_from i argname [] = - 1"
| "lookup_args_from i argname (arg # args) = (if arg = argname then i + 1 else lookup_args_from (i + 1) argname args)"

definition lookup_args :: "string \<Rightarrow> string list \<Rightarrow> int" where
  "lookup_args argname argv = lookup_args_from 1 argname (drop 1 argv)"

definition lookup_args_str :: "string \<Rightarrow> string \<Rightarrow> string list \<Rightarrow> string option" where
  "lookup_args_str argname default_value argv =
     (let idx = lookup_args argname argv
      in if idx = - 1 then Some default_value else if nat idx < length argv then Some (argv ! nat idx) else None)"

definition lookup_args_double :: "(string \<Rightarrow> f64 option) \<Rightarrow> string \<Rightarrow> f64 \<Rightarrow> string list \<Rightarrow> f64 option" where
  "lookup_args_double stod argname default_value argv =
     (let idx = lookup_args argname argv
      in if idx = - 1 then Some default_value else if nat idx < length argv then stod (argv ! nat idx) else None)"

section \<open>Messages in flight\<close>

lemma simgrid_lawsD:
  assumes "simgrid_laws G"
  shows "sg_clock G (sg_sleep_until G g t) = (if f64_less (sg_clock G g) t then t else sg_clock G g)"
    "sg_clock G (snd (sg_sendto_async G g a b n)) = sg_clock G g"
    "sg_clock G (snd (sg_test_any G g cs)) = sg_clock G g" "fst (sg_test_any G g cs) < int (length cs)"
  using assms by (simp_all add: simgrid_laws_def)

text \<open>Every communication in flight has its message.\<close>

definition co_ok :: "('g, 'c) coordinator \<Rightarrow> bool" where
  "co_ok self \<longleftrightarrow> length (pending_comms self) = length (pending_messages self)"

text \<open>A message is known to be for a machine that was registered.\<close>

abbreviation known_dst :: "vms_interface \<Rightarrow> message \<Rightarrow> bool" where
  "known_dst vms m \<equiv> getHostOfVm vms (msg_dst m) \<noteq> ''''"

lemma forward_messages_effect:
  assumes "forward_messages G L ms self = Some self'"
  shows "vms_interface self' = vms_interface self" "co_ok self \<Longrightarrow> co_ok self'"
    "pending_messages self' = pending_messages self @ filter (known_dst (vms_interface self)) ms"
    "co_min_latency self' = co_min_latency self"
  using assms
  by (induction G L ms self rule: forward_messages.induct)
     (auto simp: co_ok_def bind_eq_Some_conv case_prod_beta Let_def split: if_splits)

lemma length_erase [simp]: "i < length xs \<Longrightarrow> length (erase i xs) = length xs - 1"
  by (simp add: erase_def)

lemma mset_erase: "i < length xs \<Longrightarrow> mset xs = add_mset (xs ! i) (mset (erase i xs))"
  by (metis erase_def id_take_nth_drop mset_append mset.simps(2) union_mset_add_mset_right)

text \<open>Induction over the deliveries.\<close>

lemma deliver_arrived_induct [consumes 1, case_names nothing deliver]:
  assumes "deliver_arrived G F self = Some (delivered, self')"
    and "\<And>self pos g. sg_test_any G (co_engine self) (pending_comms self) = (pos, g) \<Longrightarrow> P self [] (self\<lparr>co_engine := g\<rparr>)"
    and "\<And>self pos g i vms ms self'. sg_test_any G (co_engine self) (pending_comms self) = (pos, g) \<Longrightarrow>
      i < length (pending_comms self) \<Longrightarrow> i < length (pending_messages self) \<Longrightarrow>
      deliverMessage F (vms_interface self) (pending_messages self ! i) = Some vms \<Longrightarrow>
      P (self\<lparr>vms_interface := vms, co_engine := g, pending_comms := erase i (pending_comms self),
        pending_messages := erase i (pending_messages self)\<rparr>) ms self' \<Longrightarrow>
      P self (pending_messages self ! i # ms) self'"
  shows "P self delivered self'"
  using assms(1)
proof (induction "length (pending_comms self)" arbitrary: self delivered rule: less_induct)
  case less
  obtain pos g where t: "sg_test_any G (co_engine self) (pending_comms self) = (pos, g)" by fastforce
  let ?i = "nat pos"
  show ?case
  proof (cases "pos < 0")
    case True
    then have "delivered = []" "self' = self\<lparr>co_engine := g\<rparr>" using less.prems t by (auto simp: deliver_arrived.simps [of G F self])
    with assms(2) [OF t] show ?thesis by simp
  next
    case False
    let ?self = "\<lambda>vms. self\<lparr>vms_interface := vms, co_engine := g, pending_comms := erase ?i (pending_comms self),
      pending_messages := erase ?i (pending_messages self)\<rparr>"
    obtain vms ms where d: "?i < length (pending_comms self)" "?i < length (pending_messages self)"
      "deliverMessage F (vms_interface self) (pending_messages self ! ?i) = Some vms"
      "deliver_arrived G F (?self vms) = Some (ms, self')" "delivered = pending_messages self ! ?i # ms"
      using less.prems t False by (subst (asm) deliver_arrived.simps) (auto simp: Let_def split: if_splits option.splits)
    have "length (pending_comms (?self vms)) < length (pending_comms self)" using d(1) by simp
    from assms(3) [OF t d(1-3) less.hyps [OF this d(4)]] d(5) show ?thesis by simp
  qed
qed

text \<open>What is delivered was in flight, and is no longer; the rest still is.\<close>

lemma deliver_arrived_effect:
  assumes "deliver_arrived G F self = Some (delivered, self')" "co_ok self"
  shows "co_ok self' \<and> mset (pending_messages self) = mset delivered + mset (pending_messages self') \<and>
    vms_interface self' = (vms_interface self)\<lparr>vi_fds := vi_fds (vms_interface self')\<rparr> \<and> co_min_latency self' = co_min_latency self \<and>
    vm_weight (vms_interface self') = vm_weight (vms_interface self)"
  using assms
proof (induction rule: deliver_arrived_induct)
  case (deliver self pos g i vms ms self')
  obtain fds where v: "vms = (vms_interface self)\<lparr>vi_fds := fds\<rparr>" using deliverMessage_same [OF deliver(4)] by blast
  have "co_ok (self\<lparr>vms_interface := vms, co_engine := g, pending_comms := erase i (pending_comms self),
      pending_messages := erase i (pending_messages self)\<rparr>)"
    using deliver(2,3,6) by (simp add: co_ok_def)
  from deliver(5) [OF this] v mset_erase [OF deliver(3)] deliverMessage_weight [OF deliver(4)] show ?case by simp
qed (simp add: co_ok_def)

text \<open>With the simulator's promise on \<open>test_any\<close>, no index is out of range.\<close>

lemma deliver_arrived_total:
  assumes F: "fb_laws F V" and G: "simgrid_laws G" and ok: "co_ok self"
    and len: "\<And>m. m \<in> set (pending_messages self) \<Longrightarrow> length (msg_data m) \<le> fb_payload_limit"
  shows "\<exists>delivered self'. deliver_arrived G F self = Some (delivered, self')"
  using ok len
proof (induction "length (pending_comms self)" arbitrary: self rule: less_induct)
  case less
  obtain pos g where t: "sg_test_any G (co_engine self) (pending_comms self) = (pos, g)" by fastforce
  let ?i = "nat pos"
  show ?case
  proof (cases "pos < 0")
    case True
    then show ?thesis using t by (subst deliver_arrived.simps) simp
  next
    case False
    have i: "?i < length (pending_comms self)" using simgrid_lawsD(4) [OF G, of "co_engine self" "pending_comms self"] t False by simp
    then have j: "?i < length (pending_messages self)" using less.prems(1) by (simp add: co_ok_def)
    let ?m = "pending_messages self ! ?i"
    obtain vms where v: "deliverMessage F (vms_interface self) ?m = Some vms"
      using deliverMessage_defined [OF F less.prems(2) [OF nth_mem [OF j]]] by blast
    let ?self = "self\<lparr>vms_interface := vms, co_engine := g, pending_comms := erase ?i (pending_comms self),
      pending_messages := erase ?i (pending_messages self)\<rparr>"
    have "length (pending_comms ?self) < length (pending_comms self)" "co_ok ?self"
      using i j less.prems(1) by (simp_all add: co_ok_def)
    moreover have "length (msg_data m) \<le> fb_payload_limit" if "m \<in> set (pending_messages ?self)" for m
      using that less.prems(2) by (auto simp: erase_def dest: in_set_takeD in_set_dropD)
    ultimately obtain ms self' where "deliver_arrived G F ?self = Some (ms, self')" using less.hyps by blast
    then show ?thesis using t False i j v by (subst deliver_arrived.simps) (simp add: Let_def)
  qed
qed

section \<open>A turn\<close>

lemma forget_dead_effect:
  assumes "forget_dead G self = Some self'"
  shows "vms_interface self' = vms_interface self" "co_engine self' = co_engine self" "pending_comms self' = pending_comms self"
    "pending_messages self' = pending_messages self"
  using assms by (auto simp: forget_dead_def Let_def bind_eq_Some_conv split: if_splits)

lemma coordinator_turnE:
  assumes "coordinator_turn G F L self = Some ((deadline, received, delivered), self')"
  obtains self1 vms self2 self3 where "forget_dead G self = Some self1"
    "deadline = f64_min (f64_add (cpp_rnd L) (sg_clock G (co_engine self)) (co_min_latency self1))
       (get_next_event (cpp_rnd L) G (co_engine self))"
    "goTo F L (vms_interface self) deadline = Some (received, vms)"
    "forward_messages G L received (self1\<lparr>vms_interface := vms\<rparr>) = Some self2"
    "self3 = sleep_to_deadline G deadline self2"
    "deliver_arrived G F self3 = Some (delivered, self')"
proof -
  obtain self1 where 1: "forget_dead G self = Some self1" using assms by (auto simp: coordinator_turn_def bind_eq_Some_conv)
  note e = forget_dead_effect(1,2) [OF 1]
  show ?thesis using assms that [OF 1] by (auto simp: coordinator_turn_def 1 e bind_eq_Some_conv)
qed

lemma sleep_to_deadline_simps [simp]:
  "vms_interface (sleep_to_deadline G deadline self) = vms_interface self"
  "pending_comms (sleep_to_deadline G deadline self) = pending_comms self"
  "pending_messages (sleep_to_deadline G deadline self) = pending_messages self"
  "co_min_latency (sleep_to_deadline G deadline self) = co_min_latency self"
  by (simp_all add: sleep_to_deadline_def)

text \<open>
  No message is lost or made up: what was in flight and what was received for a known machine is what is
  delivered and what is in flight afterwards.
\<close>

lemma turn_conserves:
  assumes "coordinator_turn G F L self = Some ((deadline, received, delivered), self')" "co_ok self" "cpp_laws L" "vi_ok (vms_interface self)"
  shows "co_ok self'" "mset (pending_messages self) + mset (filter (known_dst (vms_interface self)) received) =
      mset delivered + mset (pending_messages self')"
    "vi_ok (vms_interface self')" "simulate_until_any_stop (vms_interface self') = simulate_until_any_stop (vms_interface self)"
    "vm_deployments (vms_interface self') = vm_deployments (vms_interface self)"
proof -
  obtain self1 vms self2 self3 where t: "forget_dead G self = Some self1"
    "goTo F L (vms_interface self) deadline = Some (received, vms)"
    "forward_messages G L received (self1\<lparr>vms_interface := vms\<rparr>) = Some self2"
    "self3 = sleep_to_deadline G deadline self2"
    "deliver_arrived G F self3 = Some (delivered, self')"
    by (rule coordinator_turnE [OF assms(1)])
  note fd = forget_dead_effect [OF t(1)] and g = goTo_progress [OF assms(3,4) t(2)] and fw = forward_messages_effect [OF t(3)]
  have same: "known_dst vms = known_dst (vms_interface self)" using g(4) by (simp add: getHostOfVm_def fun_eq_iff)
  have ok3: "co_ok self3" using fw(2) fd assms(2) t(4) by (simp add: co_ok_def)
  note d = deliver_arrived_effect [OF t(5) ok3]
  have v: "vms_interface self3 = vms" "pending_messages self3 = pending_messages self2" using fw(1) t(4) by simp_all
  obtain fds where v': "vms_interface self' = vms\<lparr>vi_fds := fds\<rparr>" using d v(1) by metis
  show "co_ok self'" using d by simp
  show "mset (pending_messages self) + mset (filter (known_dst (vms_interface self)) received) = mset delivered + mset (pending_messages self')"
    using d fw(3) fd(4) same v(2) by simp
  show "vi_ok (vms_interface self')" "simulate_until_any_stop (vms_interface self') = simulate_until_any_stop (vms_interface self)"
    "vm_deployments (vms_interface self') = vm_deployments (vms_interface self)"
    using g v' by (simp_all add: vi_ok_def)
qed

section \<open>Time\<close>

text \<open>The clock while the messages of a slice are handed over: never beyond the latest of their times.\<close>

lemma forward_messages_clock:
  assumes G: "simgrid_laws G" and f: "forward_messages G L ms self = Some self'"
    and c: "sg_clock G (co_engine self) = Finite c" "c \<le> d"
    and ms: "\<And>m. m \<in> set ms \<Longrightarrow> \<exists>q. sent_time m = Finite q \<and> q \<le> d"
  shows "\<exists>c'. sg_clock G (co_engine self') = Finite c' \<and> c \<le> c' \<and> c' \<le> d"
  using f c ms
proof (induction ms arbitrary: self c)
  case (Cons m ms)
  obtain q where q: "sent_time m = Finite q" "q \<le> d" using Cons.prems(4) [of m] by auto
  let ?self = "if c < q then self\<lparr>co_engine := sg_sleep_until G (co_engine self) (sent_time m)\<rparr> else self"
  let ?host = "getHostOfVm (vms_interface self)"
  let ?sent = "sg_sendto_async G (co_engine ?self) (?host (msg_src m)) (?host (msg_dst m)) (ucast (msg_size m + 24))"
  let ?self2 = "if ?host (msg_dst m) \<noteq> '''' then ?self\<lparr>co_engine := snd ?sent,
      pending_comms := pending_comms ?self @ [fst ?sent], pending_messages := pending_messages ?self @ [m]\<rparr> else ?self"
  have "forward_messages G L ms ?self2 = Some self'"
    using Cons.prems(1,2) q by (auto simp: bind_eq_Some_conv case_prod_beta Let_def split: if_splits)
  moreover have "sg_clock G (co_engine ?self2) = Finite (max c q)"
    using Cons.prems(2) q simgrid_lawsD(1,2) [OF G] by (auto simp: max_def)
  ultimately show ?case
    using Cons.IH [of ?self2 "max c q"] Cons.prems(3,4) q by fastforce
qed simp

lemma deliver_arrived_clock:
  assumes "deliver_arrived G F self = Some (delivered, self')" and G: "simgrid_laws G"
  shows "sg_clock G (co_engine self') = sg_clock G (co_engine self)"
  using assms(1)
proof (induction rule: deliver_arrived_induct)
  case (nothing self pos g)
  then show ?case using simgrid_lawsD(3) [OF G, of "co_engine self" "pending_comms self"] by simp
next
  case (deliver self pos g i vms ms self')
  then show ?case using simgrid_lawsD(3) [OF G, of "co_engine self" "pending_comms self"] by simp
qed

text \<open>At the end of a turn the clock is at the deadline, which is no later than the least latency after the beginning.\<close>

lemma turn_clock:
  assumes G: "simgrid_laws G" and t: "coordinator_turn G F L self = Some ((Finite d, received, delivered), self')"
    and c: "sg_clock G (co_engine self) = Finite c" "c \<le> d"
    and ms: "\<And>m. m \<in> set received \<Longrightarrow> \<exists>q. sent_time m = Finite q \<and> q \<le> d"
  shows "sg_clock G (co_engine self') = Finite d"
proof -
  obtain self1 vms self2 self3 where t: "forget_dead G self = Some self1"
    "forward_messages G L received (self1\<lparr>vms_interface := vms\<rparr>) = Some self2"
    "self3 = sleep_to_deadline G (Finite d) self2"
    "deliver_arrived G F self3 = Some (delivered, self')"
    by (rule coordinator_turnE [OF t])
  obtain c' where "sg_clock G (co_engine self2) = Finite c'" "c' \<le> d"
    using forward_messages_clock [OF G t(2), of c d] ms c forget_dead_effect [OF t(1)] by auto
  then have "sg_clock G (co_engine self3) = Finite d" using t(3) simgrid_lawsD(1) [OF G] by (auto simp: sleep_to_deadline_def)
  then show ?thesis using deliver_arrived_clock [OF t(4) G] by simp
qed

lemma turn_deadline:
  assumes t: "coordinator_turn G F L self = Some ((deadline, received, delivered), self')" and ok: "co_ok self" "cpp_laws L" "vi_ok (vms_interface self)"
  shows "\<not> f64_less (f64_add (cpp_rnd L) (sg_clock G (co_engine self)) (co_min_latency self')) deadline"
    "\<not> f64_less (get_next_event (cpp_rnd L) G (co_engine self)) deadline"
proof -
  obtain self1 vms self2 self3 where t: "forget_dead G self = Some self1"
    "deadline = f64_min (f64_add (cpp_rnd L) (sg_clock G (co_engine self)) (co_min_latency self1)) (get_next_event (cpp_rnd L) G (co_engine self))"
    "forward_messages G L received (self1\<lparr>vms_interface := vms\<rparr>) = Some self2"
    "self3 = sleep_to_deadline G deadline self2"
    "deliver_arrived G F self3 = Some (delivered, self')"
    by (rule coordinator_turnE [OF t])
  have "co_ok self3" using forward_messages_effect(2) [OF t(3)] forget_dead_effect [OF t(1)] ok(1) t(4) by (simp add: co_ok_def)
  then have l: "co_min_latency self' = co_min_latency self1"
    using deliver_arrived_effect [OF t(5)] forward_messages_effect(4) [OF t(3)] t(4) by simp
  show "\<not> f64_less (f64_add (cpp_rnd L) (sg_clock G (co_engine self)) (co_min_latency self')) deadline"
    "\<not> f64_less (get_next_event (cpp_rnd L) G (co_engine self)) deadline"
    using t(2) l f64_less_asym by (auto simp: f64_min_def)
qed

section \<open>The loop ends\<close>

text \<open>\<open>n\<close> turns of the loop.\<close>

fun turns ::
  "('g, 'c) simgrid \<Rightarrow> ('b, 'o) flatbuffers \<Rightarrow> cpp_lib \<Rightarrow> nat \<Rightarrow> ('g, 'c) coordinator \<Rightarrow> ('g, 'c) coordinator option" where
  "turns G F L 0 self = Some self"
| "turns G F L (Suc n) self = do {
     assert_that (vmActive (vms_interface self));
     (_, self) \<leftarrow> coordinator_turn G F L self;
     turns G F L n self
   }"

text \<open>Until any machine stops or all have, every turn takes something from what the machines can say.\<close>

lemma deliver_arrived_interface:
  assumes "deliver_arrived G F self = Some (delivered, self')"
  shows "deliver_all (deliverMessage F) delivered (vms_interface self) = Some (vms_interface self')"
  using assms by (induction rule: deliver_arrived_induct) simp_all

lemma turn_interface:
  assumes "coordinator_turn G F L self = Some ((deadline, received, delivered), self')"
  obtains vms where "goTo F L (vms_interface self) deadline = Some (received, vms)"
    "deliver_all (deliverMessage F) delivered vms = Some (vms_interface self')"
proof (rule coordinator_turnE [OF assms])
  fix self1 vms self2 self3
  assume t: "goTo F L (vms_interface self) deadline = Some (received, vms)"
    "forward_messages G L received (self1\<lparr>vms_interface := vms\<rparr>) = Some self2"
    "self3 = sleep_to_deadline G deadline self2" "deliver_arrived G F self3 = Some (delivered, self')"
  then show thesis using that forward_messages_effect(1) [OF t(2)] deliver_arrived_interface [OF t(4)] by simp
qed

lemma turn_weight:
  assumes "coordinator_turn G F L self = Some (e, self')" "cpp_laws L" "vi_ok (vms_interface self)"
    and "vm_sockets (vms_interface self) \<noteq> []"
  shows "vm_weight (vms_interface self') < vm_weight (vms_interface self)"
proof -
  obtain deadline received delivered where e: "e = (deadline, received, delivered)" by (cases e) auto
  show ?thesis
    by (rule turn_interface [OF assms(1) [unfolded e]], rule vms.exchange(2)) (use assms(2-4) in auto)
qed

text \<open>
  The loop does not run forever on what the machines have sent: it returns, or the process ends in one of its turns.
\<close>

lemma loop_ends:
  assumes "co_ok self" "cpp_laws L" "vi_ok (vms_interface self)" "\<not> simulate_until_any_stop (vms_interface self)"
  shows "(\<exists>self'. coordinator_loop G F L self = Some self' \<and> \<not> vmActive (vms_interface self')) \<or>
    (\<exists>n self'. n \<le> vm_weight (vms_interface self) \<and> turns G F L n self = Some self' \<and> vmActive (vms_interface self') \<and>
       coordinator_turn G F L self' = None)"
  using assms
proof (induction "vm_weight (vms_interface self)" arbitrary: self rule: less_induct)
  case less
  show ?case
  proof (cases "vmActive (vms_interface self)")
    case False
    then show ?thesis by (auto simp: coordinator_loop.simps [of G F L self])
  next
    case True
    show ?thesis
    proof (cases "coordinator_turn G F L self")
      case None
      with True show ?thesis by (intro disjI2 exI [of _ 0] exI [of _ self]) simp
    next
      case (Some r)
      obtain e self1 where r: "r = (e, self1)" by fastforce
      obtain deadline received delivered where e: "e = (deadline, received, delivered)" by (cases e) auto
      have t: "coordinator_turn G F L self = Some ((deadline, received, delivered), self1)" using Some r e by simp
      have "vm_sockets (vms_interface self) \<noteq> []" using True less.prems(4) by (simp add: vmActive_def)
      then have w: "vm_weight (vms_interface self1) < vm_weight (vms_interface self)"
        using turn_weight [OF t less.prems(2,3)] by simp
      note i = turn_conserves [OF t less.prems(1-3)]
      have l: "coordinator_loop G F L self = coordinator_loop G F L self1" using True t by (simp add: coordinator_loop.simps [of G F L self])
      have n: "turns G F L (Suc n) self = turns G F L n self1" for n using True t by simp
      from less.hyps [OF w i(1) less.prems(2) i(3)] i(4) less.prems(4) consider
        (ends) self' where "coordinator_loop G F L self1 = Some self'" "\<not> vmActive (vms_interface self')"
        | (aborts) n self' where "n \<le> vm_weight (vms_interface self1)" "turns G F L n self1 = Some self'"
          "vmActive (vms_interface self')" "coordinator_turn G F L self' = None"
        by auto
      then show ?thesis
      proof cases
        case ends
        with l show ?thesis by auto
      next
        case aborts
        then show ?thesis using w n by (intro disjI2 exI [of _ "Suc n"] exI [of _ self']) auto
      qed
    qed
  qed
qed

section \<open>The check of causality\<close>

text \<open>
  The check adds the time of the message twice: with exact arithmetic it lets through every message that is not older than
  half of the clock.
\<close>

lemma causality_check_exact:
  assumes "sent_time m = Finite s" "time = Finite c"
  shows "causality_check (\<lambda>x. x) m time \<longleftrightarrow> c \<le> 2 * s + 1 / 2 ^ 52"
  using assms by (auto simp: causality_check_def f64_le_def)

end
