(* ===== verification/Client_Coordinator.thy ===== *)
theory Client_Coordinator
  imports Client_Run Vms_Coordinator "HOL-Library.Sublist"
begin

text \<open>
  The client and the coordinator together: what one writes is what the other reads. The deadlines and the packets the
  coordinator sends are those of the client's deadline exchange, and a packet that a client sends reaches the
  connection of the client it is for. Of the deadlines, the infinite one is not understood.
\<close>

section \<open>Deadlines\<close>

text \<open>The times of the simulator, up to the rounding of doubles, are rounded down to nanoseconds.\<close>

lemma simgridToVmTime_exact:
  assumes "0 \<le> q" "q \<le> 2 ^ 64 - 1"
  obtains vt where "simgridToVmTime (\<lambda>x. x) (Finite q) = Some vt" "unat (vt_nseconds vt) < 10 ^ 9"
    "int (unat (vt_seconds vt) * 10 ^ 9 + unat (vt_nseconds vt)) = \<lfloor>q * 10 ^ 9\<rfloor>"
proof -
  let ?s = "\<lfloor>q\<rfloor>" and ?f = "(q - of_int \<lfloor>q\<rfloor>) * 10 ^ 9"
  have "0 \<le> q - of_int ?s" "q - of_int ?s < 1" by linarith+
  then have f: "0 \<le> ?f" "?f < 10 ^ 9" by simp_all
  have s: "0 \<le> ?s" "?s < 2 ^ 64" using assms by (simp_all add: floor_less_iff)
  have n: "0 \<le> \<lfloor>?f\<rfloor>" "\<lfloor>?f\<rfloor> < 10 ^ 9" using f by (simp_all add: floor_less_iff)
  have us: "int (unat (word_of_int ?s :: u64)) = ?s" using s by (simp add: uint_word_of_int)
  have un: "int (unat (word_of_int \<lfloor>?f\<rfloor> :: u64)) = \<lfloor>?f\<rfloor>" using n by (simp add: uint_word_of_int)
  have fl: "\<lfloor>q * 10 ^ 9\<rfloor> = ?s * 10 ^ 9 + \<lfloor>?f\<rfloor>"
  proof -
    have "q * 10 ^ 9 = ?f + of_int (?s * 10 ^ 9)" by (simp add: algebra_simps)
    then show ?thesis by (metis floor_add_int add.commute)
  qed
  have c: "u64_cast (Finite (of_int i)) = Some (word_of_int i)" if "0 \<le> i" "i < 2 ^ 64" for i
  proof -
    have "(of_int i :: rat) < 2 ^ 64" using that(2) by (metis of_int_less_iff of_int_numeral of_int_power)
    then show ?thesis using that by (auto simp: order.order_iff_strict)
  qed
  have "simgridToVmTime (\<lambda>x. x) (Finite q) = Some \<lparr>vt_seconds = word_of_int ?s, vt_nseconds = word_of_int \<lfloor>?f\<rfloor>\<rparr>"
    using assms(2) c [OF s] c [of "\<lfloor>?f\<rfloor>"] n by (simp add: simgridToVmTime_def f64_sub_def)
  moreover have "int (unat (word_of_int \<lfloor>?f\<rfloor> :: u64)) < int (10 ^ 9)" using un n(2) by simp
  then have "unat (word_of_int \<lfloor>?f\<rfloor> :: u64) < 10 ^ 9" by (simp only: of_nat_less_iff)
  ultimately show ?thesis using that us un fl by simp
qed

text \<open>A finite deadline reaches the client.\<close>

lemma goto_message_control:
  assumes F: "fb_laws F V" and n: "unat (vt_nseconds vt) < 10 ^ 9" and b: "goto_message F vt = Some buf" "length buf \<le> MAX_PACKET_SIZE + 4"
  obtains d where "control_frame F (NextDeadline d) buf" "as_nanos d = unat (vt_seconds vt) * 10 ^ 9 + unat (vt_nseconds vt)"
proof -
  obtain d where d: "goto_time_msg vt = goto_deadline_msg d" "as_nanos d = unat (vt_seconds vt) * 10 ^ 9 + unat (vt_nseconds vt)"
    by (rule goto_time_deadline [OF n])
  have "from_frame F buf (goto_deadline_msg d)" using goto_message_frame [OF F, of vt] b(1) d(1) by auto
  with b(2) d(2) that show ?thesis by (simp add: control_frame_def)
qed

text \<open>The infinite deadline does not: its nanoseconds are no nanoseconds.\<close>

lemma recv_bad_time:
  assumes "fb_laws F V" "bytes_ib.wf_pool pool" "card (pool_busy pool) < num_buffers_of pool"
    and "from_frame F data (goto_time_msg vt)" "length data \<le> buffer_size pool + 4" "rx s = data @ rest"
    and n: "10 ^ 9 \<le> unat (vt_nseconds vt)"
  obtains pool' where "MsgIn_recv F s pool = Some (Err (IoErr InvalidData ''Time out of bounds''), s\<lparr>rx := rest\<rparr>, pool')"
proof (rule MsgIn_recv_frame [OF assms(1-6)])
  fix b body pool1 pool2
  assume r: "BufferPool_allocate_buffer BytesBuffer pool (length body) = Some (Ok b, pool1)"
    "Buffer_deref_mut BytesBuffer pool1 b body = Some pool2" "bb_size (buf_inner b) = length body"
    "MsgIn_recv F s pool = do { (r, pool) \<leftarrow> MsgIn_dispatch F pool2 b (goto_time_msg vt); Some (r, s\<lparr>rx := rest\<rparr>, pool) }"
  obtain pool3 where "Buffer_drop pool2 b = Some pool3"
    by (rule drop_live [OF alloc_drop_keeps(3) [OF assms(2) r(1,2,3)]])
  with n have "MsgIn_dispatch F pool2 b (goto_time_msg vt) = Some (Err (IoErr InvalidData ''Time out of bounds''), pool3)"
    by (simp add: MsgIn_dispatch_def goto_time_msg_def content_as_goto_deadline_def duration_of_fb_time_def)
  with r(4) that show ?thesis by simp
qed

lemma deadline_bad_time:
  assumes F: "fb_laws F V" and inv: "ctx_inv F V items cap ctx"
    and dl: "t_previous_deadline T (timer_context ctx) = Some prev" "t_next_deadline T (timer_context ctx) = Some cur"
    and b: "goto_message F vt = Some buf" "length buf \<le> MAX_PACKET_SIZE + 4" "10 ^ 9 \<le> unat (vt_nseconds vt)"
    and rx: "rx (actor (connector ctx)) = buf @ rest" and room: "length (items (input_queue ctx)) < cap (input_queue ctx)"
  shows "\<exists>ctx'. Context_at_deadline T F A ctx = Some (AfterEndSimulation, ctx')"
proof (rule deadline_gives_up [OF F inv dl])
  fix ctx1 assume c: "ctx_inv F V items cap ctx1" "sent_only ctx ctx1"
  have fr: "from_frame F buf (goto_time_msg vt)" using goto_message_frame [OF F, of vt] b(1) by auto
  have i: "in_inv F items cap (connector ctx1) (input_queue ctx1)" using c(1) by (simp add: ctx_inv_def)
  have s: "rx (actor (connector ctx1)) = buf @ rest" "input_queue ctx1 = input_queue ctx"
    using c(2) rx by (simp_all add: sent_only_def same_input_def)
  let ?pool = "in_pool ctx1"
  have p: "bytes_ib.wf_pool ?pool" "buffer_size ?pool = MAX_PACKET_SIZE" "card (pool_busy ?pool) < num_buffers_of ?pool"
    using i room s(2) in_inv_count [OF i] by (simp_all add: in_inv_def connector_ok_def)
  obtain pool' where "MsgIn_recv F (actor (connector ctx1)) ?pool =
      Some (Err (IoErr InvalidData ''Time out of bounds''), (actor (connector ctx1))\<lparr>rx := rest\<rparr>, pool')"
    by (rule recv_bad_time [OF F p(1,3) fr _ s(1) b(3)]) (use b(2) p(2) in simp_all)
  then show "\<exists>ctx2. receive_messages F A ctx1 = Some (AfterEndSimulation, ctx2)"
    by (simp add: receive_messages.simps [of F A ctx1] UnixConnector_recv_def)
qed

lemma infinite_deadline: "simgridToVmTime rnd PosInf = Some \<lparr>vt_seconds = - 1, vt_nseconds = - 1\<rparr>"
  by (simp add: simgridToVmTime_def)

section \<open>Packets\<close>

text \<open>What a client writes at a deadline is a slice for the coordinator, provided that its frames fit there.\<close>

lemma wire_slice_bytes:
  assumes "wire F ws bs" "\<forall>(src, dst, t, p) \<in> set ws. length p \<le> fb_payload_limit"
    and fit: "\<And>fr m. to_frame F fr m \<Longrightarrow> sublist fr bs \<Longrightarrow> length fr \<le> SCRATCH_BUFFER_LEN + 4"
  shows "slice_bytes F ws bs"
proof -
  obtain frs fr where w: "list_all2 (\<lambda>(src, dst, t, p) fr. to_frame F fr (send_packet_msg src dst t p)) ws frs"
    "to_frame F fr at_deadline_msg" "bs = concat frs @ fr"
    using assms(1) by (auto simp: wire_def)
  have s: "sublist x (concat frs @ fr)" if "x \<in> set frs" for x
  proof -
    from split_list [OF that] obtain ys zs where "frs = ys @ x # zs" by blast
    then have "concat frs @ fr = concat ys @ x @ concat zs @ fr" by simp
    then show ?thesis by (auto simp: sublist_def)
  qed
  have "list_all2 (\<lambda>(src, dst, t, p) fr. to_frame F fr (send_packet_msg src dst t p) \<and>
      length fr \<le> SCRATCH_BUFFER_LEN + 4 \<and> length p \<le> fb_payload_limit) ws frs"
    by (rule list.rel_mono_strong [OF w(1)]) (use assms(2) fit s w(3) in auto)
  moreover have "length fr \<le> SCRATCH_BUFFER_LEN + 4" using fit [OF w(2)] w(3) by simp
  ultimately show ?thesis using w(2,3) by (auto simp: slice_bytes_def)
qed

text \<open>
  Machines that follow the protocol on connections that work: there is a whole slice to read from each, with the packets \<open>ws\<close>, and \<open>rest\<close>
  after it.
\<close>

definition in_protocol ::
  "('b, 'o) flatbuffers \<Rightarrow> (string \<Rightarrow> stamped list) \<Rightarrow> (string \<Rightarrow> bytes) \<Rightarrow> (string \<Rightarrow> bytes) \<Rightarrow> vms_interface \<Rightarrow> bool" where
  "in_protocol F ws bs rest self \<longleftrightarrow> list_all (\<lambda>(n, fd). slice_bytes F (ws n) (bs n) \<and>
     readable (vi_fds self) fd (bs n @ rest n) \<and> writable (vi_fds self) fd) (vm_sockets self)"

lemma in_protocolD:
  assumes "in_protocol F ws bs rest self" "(n, fd) \<in> set (vm_sockets self)"
  shows "slice_bytes F (ws n) (bs n) \<and> readable (vi_fds self) fd (bs n @ rest n) \<and> writable (vi_fds self) fd"
  using assms by (auto simp: in_protocol_def list_all_iff)

lemma goTo_in_protocol:
  assumes "fb_laws F V" "cpp_laws L" "vi_ok self"
    and "simgridToVmTime (cpp_rnd L) deadline = Some vt" "goto_message F vt = Some buf" "in_protocol F ws bs rest self"
  obtains messages fds where "goTo F L self deadline = Some (messages, self\<lparr>vm_sockets_trash := [], vi_fds := fds\<rparr>)"
    "mset messages = (\<Sum>(n, _) \<in># mset (vm_sockets self). mset (map (message_of (cpp_rnd L)) (ws n)))"
    "sorted_wrt (\<lambda>i j. \<not> sortMessages j i) messages"
    "list_all (\<lambda>(n, fd). readable fds fd (rest n) \<and> written_to fds fd = written_to (vi_fds self) fd @ buf \<and> writable fds fd)
       (vm_sockets self)"
proof (rule goTo_slices [where ws = ws and bs = bs and rest = rest, OF assms(1-5) in_protocolD [OF assms(6)]])
  fix messages fds
  assume g: "goTo F L self deadline = Some (messages, self\<lparr>vm_sockets_trash := [], vi_fds := fds\<rparr>)"
    "mset messages = (\<Sum>(n, _) \<in># mset (vm_sockets self). mset (map (message_of (cpp_rnd L)) (ws n)))"
    "sorted_wrt (\<lambda>i j. \<not> sortMessages j i) messages"
    "\<And>n fd. (n, fd) \<in> set (vm_sockets self) \<Longrightarrow>
      readable fds fd (rest n) \<and> written_to fds fd = written_to (vi_fds self) fd @ buf \<and> writable fds fd"
  show thesis by (rule that [OF g(1-3)]) (use g(4) in \<open>auto simp: list_all_iff\<close>)
qed

text \<open>A packet of the slice of one client is delivered, after the deadline, on the connection of the client it is for.\<close>

lemma packet_relayed:
  assumes F: "fb_laws F V" and L: "cpp_laws L" and ok: "vi_ok self"
    and t: "simgridToVmTime (cpp_rnd L) deadline = Some vt" "goto_message F vt = Some buf"
    and vms: "in_protocol F ws bs rest self"
    and p: "(n, fd) \<in> set (vm_sockets self)" "(src, dst, time, pl) \<in> set (ws n)" "length pl \<le> fb_payload_limit"
    and d: "(Ipv4Addr_fmt (vsg_address_to_ipv4addr dst), fd') \<in> set (vm_sockets self)"
  obtains messages self1 m self2 fr where "goTo F L self deadline = Some (messages, self1)" "m \<in> set messages"
    "deliverMessage F self1 m = Some self2" "from_frame F fr (deliver_packet_msg src dst pl)"
    "written_to (vi_fds self2) fd' = written_to (vi_fds self) fd' @ buf @ fr"
proof (rule goTo_in_protocol [OF F L ok t vms])
  fix messages fds
  let ?self = "self\<lparr>vm_sockets_trash := [], vi_fds := fds\<rparr>" and ?m = "message_of (cpp_rnd L) (src, dst, time, pl)"
  assume g: "goTo F L self deadline = Some (messages, ?self)"
    "mset messages = (\<Sum>(n, _) \<in># mset (vm_sockets self). mset (map (message_of (cpp_rnd L)) (ws n)))"
    "list_all (\<lambda>(n, fd). readable fds fd (rest n) \<and> written_to fds fd = written_to (vi_fds self) fd @ buf \<and> writable fds fd)
       (vm_sockets self)"
  have "?m \<in># mset messages" using p(1,2) by (auto simp: g(2) intro!: bexI [of _ "(n, fd)"])
  then have m: "?m \<in> set messages" by simp
  have "msg_dst ?m = Ipv4Addr_fmt (vsg_address_to_ipv4addr dst)" by (simp add: message_of_def Message_new_def)
  then have fd': "map_of (vm_sockets ?self) (msg_dst ?m) = Some fd'" using vi_okD [OF ok d] by simp
  have w: "writable (vi_fds ?self) fd'" "written_to fds fd' = written_to (vi_fds self) fd' @ buf" using g(3) d by (auto simp: list_all_iff)
  note data = message_of_data [OF p(3)]
  show thesis
  proof (rule deliverMessage_frame [OF F fd' w(1)])
    fix fr fds' assume f: "deliverMessage F ?self ?m = Some (?self\<lparr>vi_fds := fds'\<rparr>)"
      "from_frame F fr (deliver_packet_msg (src_enc ?m) (dst_enc ?m) (msg_data ?m))"
      "written_to fds' fd' = written_to (vi_fds ?self) fd' @ fr"
    then show thesis using that [OF g(1) m f(1), of fr] w(2) data by simp
  qed (use data p(3) in simp)
qed

section \<open>The last machine\<close>

text \<open>With one machine left and nothing on its way, the deadline is infinite.\<close>

lemma last_machine_deadline:
  assumes "tansiv_actors self = [a]" "force_min_latency self = Finite f" "f < 0"
    and "sg_clock G (co_engine self) = Finite c" "sg_next_events G (co_engine self) (Finite c) = []"
    and "compute_min_latency G self = Some min_latency"
  shows "f64_min (f64_add rnd (Finite c) min_latency) (get_next_event rnd G (co_engine self)) = PosInf"
  using assms by (auto simp: compute_min_latency_def f64_le_def f64_min_def get_next_event_def)

text \<open>
  A message is handed to the simulated network although the clock has passed its time: of the two times it may be the
  clock that is the later one, up to twice the other.
\<close>

lemma late_message_forwarded:
  assumes rnd: "cpp_rnd L = (\<lambda>x. x)" and t: "sent_time m = Finite s" "sg_clock G (co_engine self) = Finite c" "s < c" "c \<le> 2 * s"
    and h: "getHostOfVm (vms_interface self) (msg_src m) \<noteq> ''''" "getHostOfVm (vms_interface self) (msg_dst m) \<noteq> ''''"
    and G: "simgrid_laws G"
  obtains self' where "forward_messages G L [m] self = Some self'" "pending_messages self' = pending_messages self @ [m]"
    "sg_clock G (co_engine self') = Finite c"
proof -
  obtain comm g where sd: "sg_sendto_async G (co_engine self) (getHostOfVm (vms_interface self) (msg_src m))
      (getHostOfVm (vms_interface self) (msg_dst m)) (ucast (msg_size m + 24)) = (comm, g)"
    by (rule prod.exhaust)
  let ?self = "self\<lparr>co_engine := g, pending_comms := pending_comms self @ [comm], pending_messages := pending_messages self @ [m]\<rparr>"
  have "causality_check (cpp_rnd L) m (Finite c)"
    using causality_check_exact [OF t(1) refl, of c] t(4) by (simp add: rnd add_increasing2)
  then have "forward_messages G L [m] self = Some ?self" using t h sd by simp
  moreover have "sg_clock G g = Finite c" using simgrid_lawsD(2) [OF G] sd t(2) by (metis snd_conv)
  ultimately show ?thesis using that by simp
qed

end
