(* ===== verification/Libc_Timer.thy ===== *)
theory Libc_Timer
  imports Rust_Time
begin

text \<open>
  The wrappers of \<open>libc_timer\<close> around the clock and timer system calls.

  The system calls are the operating system's. A call is an argument of the wrapper that makes
  it, the function from its arguments to its return code and what it stores through its pointers
  at the moment of the call; \<open>os_error\<close> is what \<open>Error::last_os_error\<close> then returns. The type
  \<open>'tid\<close> is the C type \<open>timer_t\<close> and \<open>'ev\<close> a \<open>sigevent\<close>.
\<close>

datatype ClockId =
    Realtime | RealtimeCoarse | Monotonic | MonotonicCoarse | MonotonicRaw
  | ProcessCputimeId | ThreadCputimeId | Boottime | RealtimeAlarm | BoottimeAlarm

text \<open>The constants of the C library, by name.\<close>

datatype clockid_t =
    CLOCK_REALTIME | CLOCK_REALTIME_COARSE | CLOCK_MONOTONIC | CLOCK_MONOTONIC_COARSE
  | CLOCK_MONOTONIC_RAW | CLOCK_PROCESS_CPUTIME_ID | CLOCK_THREAD_CPUTIME_ID | CLOCK_BOOTTIME
  | CLOCK_REALTIME_ALARM | CLOCK_BOOTTIME_ALARM

fun ClockId_into :: "ClockId \<Rightarrow> clockid_t" where
  "ClockId_into Realtime = CLOCK_REALTIME"
| "ClockId_into RealtimeCoarse = CLOCK_REALTIME_COARSE"
| "ClockId_into Monotonic = CLOCK_MONOTONIC"
| "ClockId_into MonotonicCoarse = CLOCK_MONOTONIC_COARSE"
| "ClockId_into MonotonicRaw = CLOCK_MONOTONIC_RAW"
| "ClockId_into ProcessCputimeId = CLOCK_PROCESS_CPUTIME_ID"
| "ClockId_into ThreadCputimeId = CLOCK_THREAD_CPUTIME_ID"
| "ClockId_into Boottime = CLOCK_BOOTTIME"
| "ClockId_into RealtimeAlarm = CLOCK_REALTIME_ALARM"
| "ClockId_into BoottimeAlarm = CLOCK_BOOTTIME_ALARM"

record timespec =
  tv_sec :: i64
  tv_nsec :: i64

definition duration_to_timespec :: "duration \<Rightarrow> timespec" where
  "duration_to_timespec d = \<lparr>tv_sec = as_secs d, tv_nsec = ucast (subsec_nanos d)\<rparr>"

definition timespec_to_duration :: "timespec \<Rightarrow> duration option" where
  "timespec_to_duration ts = Duration_new (tv_sec ts) (ucast (tv_nsec ts))"

definition timespec_zero :: timespec where
  "timespec_zero = \<lparr>tv_sec = 0, tv_nsec = 0\<rparr>"

definition gettime ::
  "(clockid_t \<Rightarrow> c_int \<times> timespec) \<Rightarrow> io_error \<Rightarrow> ClockId \<Rightarrow> (duration, io_error) result option" where
  "gettime clock_gettime os_error clock_id =
     (let (res, time) = clock_gettime (ClockId_into clock_id) in
      if res = 0 then map_option Ok (timespec_to_duration time)
      else Some (Err os_error))"

section \<open>Timers\<close>

datatype SettimeFlags = RelativeTime | AbsoluteTime

text \<open>\<open>TIMER_ABSTIME\<close> of the C library, left as an argument.\<close>

fun SettimeFlags_into_raw :: "c_int \<Rightarrow> SettimeFlags \<Rightarrow> c_int" where
  "SettimeFlags_into_raw TIMER_ABSTIME RelativeTime = 0"
| "SettimeFlags_into_raw TIMER_ABSTIME AbsoluteTime = TIMER_ABSTIME"

record itimerspec =
  it_interval :: timespec
  it_value :: timespec

definition timer_create_wrapper ::
  "(clockid_t \<Rightarrow> 'ev option \<Rightarrow> c_int \<times> 'tid) \<Rightarrow> io_error \<Rightarrow> ClockId \<Rightarrow> 'ev option \<Rightarrow> ('tid, io_error) result" where
  "timer_create_wrapper timer_create os_error clock_id sigev_notify =
     (let (res, timerid) = timer_create (ClockId_into clock_id) sigev_notify in
      if res = 0 then Ok timerid else Err os_error)"

definition timer_delete_wrapper :: "('tid \<Rightarrow> c_int) \<Rightarrow> 'tid \<Rightarrow> unit" where
  "timer_delete_wrapper timer_delete timer_id = (let _ = timer_delete timer_id in ())"

definition itimerspec_of :: "duration option \<Rightarrow> duration \<Rightarrow> itimerspec" where
  "itimerspec_of new_interval new_value =
     \<lparr>it_interval = (case new_interval of Some i \<Rightarrow> duration_to_timespec i | None \<Rightarrow> timespec_zero),
      it_value = duration_to_timespec new_value\<rparr>"

definition settime ::
  "c_int \<Rightarrow> ('tid \<Rightarrow> c_int \<Rightarrow> itimerspec \<Rightarrow> c_int \<times> itimerspec) \<Rightarrow> io_error \<Rightarrow>
     'tid \<Rightarrow> SettimeFlags \<Rightarrow> duration option \<Rightarrow> duration \<Rightarrow> (duration \<times> duration, io_error) result option" where
  "settime TIMER_ABSTIME timer_settime os_error timer_id flags new_interval new_value =
     (let (res, old_value) =
        timer_settime timer_id (SettimeFlags_into_raw TIMER_ABSTIME flags) (itimerspec_of new_interval new_value) in
      if res = 0 then do {
        i \<leftarrow> timespec_to_duration (it_interval old_value);
        v \<leftarrow> timespec_to_duration (it_value old_value);
        Some (Ok (i, v))
      } else Some (Err os_error))"

section \<open>Conversions\<close>

text \<open>
  A \<open>timespec\<close> as the kernel returns it: not negative, less than a second of nanoseconds.
\<close>

definition normal_timespec :: "timespec \<Rightarrow> bool" where
  "normal_timespec ts \<longleftrightarrow> 0 \<le> sint (tv_sec ts) \<and> 0 \<le> sint (tv_nsec ts) \<and> sint (tv_nsec ts) < 10 ^ 9"

definition timespec_nanos :: "timespec \<Rightarrow> int" where
  "timespec_nanos ts = sint (tv_sec ts) * 10 ^ 9 + sint (tv_nsec ts)"

lemma timespec_round_trip: "timespec_to_duration (duration_to_timespec d) = Some d"
proof -
  have "unat (subsec_nanos d) < 2 ^ 32" by (rule unat_u32_less)
  then have "(ucast (ucast (subsec_nanos d) :: u64) :: u32) = subsec_nanos d"
    by (intro word_unat_eq_iff [THEN iffD2]) simp
  then show ?thesis by (simp add: timespec_to_duration_def duration_to_timespec_def)
qed

lemma duration_to_timespec_normal:
  assumes "as_nanos d < 2 ^ 63 * 10 ^ 9"
  shows "normal_timespec (duration_to_timespec d)" "timespec_nanos (duration_to_timespec d) = int (as_nanos d)"
proof -
  have s: "sint (as_secs d) = int (as_nanos d div 10 ^ 9)"
  proof -
    have "unat (as_secs d) < 2 ^ 63"
      using assms by (simp add: unat_as_secs less_mult_imp_div_less)
    then show ?thesis by (simp add: sint_of_unat unat_as_secs)
  qed
  have n: "sint (ucast (subsec_nanos d) :: i64) = int (as_nanos d mod 10 ^ 9)"
  proof -
    have "as_nanos d mod 10 ^ 9 < 10 ^ 9" by simp
    then have "as_nanos d mod 10 ^ 9 < 2 ^ 63" by (rule less_trans) simp
    then show ?thesis by (subst sint_of_unat) (simp_all add: unat_subsec_nanos)
  qed
  have "as_nanos d mod 10 ^ 9 < 10 ^ 9" by simp
  then have "int (as_nanos d mod 10 ^ 9) < 10 ^ 9" by (metis of_nat_less_iff of_nat_numeral of_nat_power)
  with s n show "normal_timespec (duration_to_timespec d)"
    by (simp add: normal_timespec_def duration_to_timespec_def)
  have "int (as_nanos d div 10 ^ 9 * 10 ^ 9 + as_nanos d mod 10 ^ 9) = int (as_nanos d)"
    by (simp only: div_mult_mod_eq)
  then have "int (as_nanos d div 10 ^ 9) * 10 ^ 9 + int (as_nanos d mod 10 ^ 9) = int (as_nanos d)"
    by (simp only: of_nat_add of_nat_mult of_nat_power of_nat_numeral)
  with s n show "timespec_nanos (duration_to_timespec d) = int (as_nanos d)"
    by (simp only: timespec_nanos_def duration_to_timespec_def timespec.simps)
qed

lemma timespec_to_duration_normal:
  assumes "normal_timespec ts"
  obtains d where "timespec_to_duration ts = Some d" "int (as_nanos d) = timespec_nanos ts"
proof -
  have s: "int (unat (tv_sec ts)) = sint (tv_sec ts)" and n: "int (unat (tv_nsec ts)) = sint (tv_nsec ts)"
    using assms by (simp_all only: normal_timespec_def unat_of_sint)
  have "int (unat (tv_nsec ts)) < 10 ^ 9" using assms by (simp only: n normal_timespec_def)
  then have lt: "unat (tv_nsec ts) < 10 ^ 9" by (metis of_nat_less_iff of_nat_numeral of_nat_power)
  then have u: "unat (ucast (tv_nsec ts) :: u32) = unat (tv_nsec ts)" by simp
  obtain d where d: "Duration_new (tv_sec ts) (ucast (tv_nsec ts)) = Some d"
    using Duration_new_defined [of "ucast (tv_nsec ts)"] lt u by auto
  show ?thesis
  proof (rule that)
    show "timespec_to_duration ts = Some d" using d by (simp add: timespec_to_duration_def)
    have "as_nanos d = unat (tv_sec ts) * 10 ^ 9 + unat (tv_nsec ts)"
      using Duration_new_Some [OF d] u by simp
    then show "int (as_nanos d) = timespec_nanos ts" using s n by (simp add: timespec_nanos_def)
  qed
qed

text \<open>
  Reading a clock: the time the kernel stored, exactly, when the call succeeded.
\<close>

lemma gettime_ok:
  assumes "clock_gettime (ClockId_into c) = (0, ts)" "normal_timespec ts"
  obtains d where "gettime clock_gettime e c = Some (Ok d)" "int (as_nanos d) = timespec_nanos ts"
  using timespec_to_duration_normal [OF assms(2)] assms(1) that by (auto simp: gettime_def)

lemma gettime_err:
  assumes "clock_gettime (ClockId_into c) = (rc, ts)" "rc \<noteq> 0"
  shows "gettime clock_gettime e c = Some (Err e)"
  using assms by (simp add: gettime_def)

end
