(* ===== verification/Seq_Lock.thy ===== *)
theory Seq_Lock
  imports Tansiv_Prelude
begin

text \<open>
  The sequence lock of \<open>seq_lock\<close>: a value and a counter that is odd while a write is in
  progress. This theory holds the operations as one thread executes them with nobody else
  running: the spin loops are \<open>partial_function\<close>s, so \<open>None\<close> is "never returns" (or a panic of the
  closure). The interleaved executions are in the theory \<open>Seq_Lock_Concurrent\<close>.
\<close>

unbundle bit_operations_syntax

record 'a seq_lock =
  sl_value :: 'a
  seq_count :: u64

definition SeqLock_new :: "'a \<Rightarrow> 'a seq_lock" where
  "SeqLock_new v = \<lparr>sl_value = v, seq_count = 0\<rparr>"

partial_function (option) SeqLock_wait_released :: "'a seq_lock \<Rightarrow> u64 option" where
  "SeqLock_wait_released self =
     (let count = seq_count self in
      if count AND 1 = 0 then Some count else SeqLock_wait_released self)"

definition SeqLock_check_concurrent_write :: "'a seq_lock \<Rightarrow> u64 \<Rightarrow> unit option option" where
  "SeqLock_check_concurrent_write self prev_count = do {
     assert_that (prev_count AND 1 = 0);
     Some (if prev_count = seq_count self then None else Some ())
   }"

partial_function (option) SeqLock_read :: "'a seq_lock \<Rightarrow> ('a \<Rightarrow> 'u option) \<Rightarrow> 'u option" where
  "SeqLock_read self read_fn = do {
     count \<leftarrow> SeqLock_wait_released self;
     ret \<leftarrow> read_fn (sl_value self);
     c \<leftarrow> SeqLock_check_concurrent_write self count;
     (if c = None then Some ret else SeqLock_read self read_fn)
   }"

text \<open>The compare-and-swap loop that opens \<open>write\<close>; returns the count it replaced.\<close>

partial_function (option) SeqLock_enter :: "'a seq_lock \<Rightarrow> (u64 \<times> 'a seq_lock) option" where
  "SeqLock_enter self = do {
     count \<leftarrow> SeqLock_wait_released self;
     (if seq_count self = count then Some (count, self\<lparr>seq_count := count + 1\<rparr>)
      else SeqLock_enter self)
   }"

definition SeqLock_write :: "'a seq_lock \<Rightarrow> ('a \<Rightarrow> 'a option) \<Rightarrow> 'a seq_lock option" where
  "SeqLock_write self write_fn = do {
     (count, self) \<leftarrow> SeqLock_enter self;
     v \<leftarrow> write_fn (sl_value self);
     self \<leftarrow> Some (self\<lparr>sl_value := v\<rparr>);
     exit_count \<leftarrow> Some (seq_count self);
     self \<leftarrow> Some (self\<lparr>seq_count := exit_count + 1\<rparr>);
     assert_that (exit_count AND 1 = 1);
     assert_that (count + 1 = exit_count);
     Some self
   }"

section \<open>Released and held\<close>

definition released :: "'a seq_lock \<Rightarrow> bool" where
  "released s \<longleftrightarrow> even (seq_count s)"

lemma and_one_even: "(w :: u64) AND 1 = 0 \<longleftrightarrow> even w"
  by (simp add: and_one_eq even_iff_mod_2_eq_zero)

lemma and_one_odd: "(w :: u64) AND 1 = 1 \<longleftrightarrow> odd w"
  by (simp add: and_one_eq odd_iff_mod_2_eq_one)

lemma released_new [simp]: "released (SeqLock_new v)" "sl_value (SeqLock_new v) = v"
  by (simp_all add: released_def SeqLock_new_def)

lemma wait_released: "released s \<Longrightarrow> SeqLock_wait_released s = Some (seq_count s)"
  by (subst SeqLock_wait_released.simps) (simp add: released_def and_one_even)

text \<open>On a released lock both operations return at once: the closure sees the current value.\<close>

lemma read_released: "released s \<Longrightarrow> SeqLock_read s f = f (sl_value s)"
  by (subst SeqLock_read.simps)
     (cases "f (sl_value s)"; simp add: wait_released SeqLock_check_concurrent_write_def released_def and_one_even)

lemma write_released:
  assumes "released s"
  shows "SeqLock_write s f = map_option (\<lambda>v. \<lparr>sl_value = v, seq_count = seq_count s + 2\<rparr>) (f (sl_value s))"
proof -
  have enter: "SeqLock_enter s = Some (seq_count s, s\<lparr>seq_count := seq_count s + 1\<rparr>)"
    using assms by (subst SeqLock_enter.simps) (simp add: wait_released)
  show ?thesis
    using assms
    by (cases "f (sl_value s)") (simp_all add: SeqLock_write_def enter released_def and_one_odd)
qed

lemma write_keeps_released:
  assumes "released s" "SeqLock_write s f = Some s'"
  shows "released s'" "f (sl_value s) = Some (sl_value s')"
  using assms by (auto simp: write_released) (simp_all add: released_def)

text \<open>
  On a held lock neither returns: a handler that interrupts a write of its own thread and uses the
  same lock spins forever.
\<close>

lemma wait_returns_released: "SeqLock_wait_released s = Some c \<Longrightarrow> released s"
  by (erule SeqLock_wait_released.raw_induct [rotated, where P = "\<lambda>s _. released s"])
     (auto simp: released_def and_one_even Let_def split: if_splits)

lemma wait_held:
  assumes "\<not> released s"
  shows "SeqLock_wait_released s = None"
  using wait_returns_released [of s] assms by (cases "SeqLock_wait_released s") auto

lemma held_blocks:
  assumes "\<not> released s"
  shows "SeqLock_read s f = None" "SeqLock_write s g = None"
proof -
  show "SeqLock_read s f = None" by (subst SeqLock_read.simps) (simp add: wait_held [OF assms])
  have "SeqLock_enter s = None" by (subst SeqLock_enter.simps) (simp add: wait_held [OF assms])
  then show "SeqLock_write s g = None" by (simp add: SeqLock_write_def)
qed

end
