(* ===== verification/Timer_Process.thy ===== *)
theory Timer_Process
  imports Timer Libc_Timer Seq_Lock Unix_Connector
begin

text \<open>
  The timer of a plain process, \<open>timer/process.rs\<close>. Simulation time is the monotonic clock plus an
  offset, application time the local clock plus another; while a deadline is handled both stand
  still, and the offsets are moved back by the time the handling took.

  What the system answers to the calls of one operation is the record \<open>process_env\<close>. The fields
  of the Rust structure behind a \<open>Mutex\<close> or an atomic are plain fields; \<open>application_time\<close> and
  \<open>simulation_time\<close> keep their sequence locks.
\<close>

section \<open>State and operations\<close>

definition AdjustedTime_new :: "'d \<Rightarrow> 'd seq_lock" where
  "AdjustedTime_new offset = SeqLock_new offset"

definition AdjustedTime_get :: "'d seq_lock \<Rightarrow> ('d \<Rightarrow> 'u option) \<Rightarrow> 'u option" where
  "AdjustedTime_get self f = SeqLock_read self f"

definition AdjustedTime_adjust :: "'d seq_lock \<Rightarrow> ('d \<Rightarrow> 'd option) \<Rightarrow> 'd seq_lock option" where
  "AdjustedTime_adjust self f = SeqLock_write self f"

record ('t, 'tid) process_env =
  env_clock_gettime :: "clockid_t \<Rightarrow> c_int \<times> timespec"
  env_local_now :: 't
  env_timer_settime :: "'tid \<Rightarrow> c_int \<Rightarrow> itimerspec \<Rightarrow> c_int \<times> itimerspec"
  env_os_error :: io_error
  env_TIMER_ABSTIME :: c_int

record ('d, 't, 'tid) process_timer =
  pt_time_offset :: 'd
  pt_application_time :: "'d seq_lock"
  pt_simulation_time :: "'d seq_lock"
  pt_timer_id :: 'tid
  pt_at_deadline :: bool
  pt_current_deadline :: 't
  pt_prev_deadline :: duration
  pt_next_deadline :: duration
  pt_prev_deadline_raw :: duration
  pt_next_deadline_raw :: duration
  pt_stopped :: bool
  pt_deleted :: bool

text \<open>\<open>sigaction\<close> is the result of installing the handler, \<open>timer_create\<close> the system call.\<close>

definition ProcessTimer_new ::
  "('d, 't) chrono \<Rightarrow> (unit, io_error) result \<Rightarrow> (clockid_t \<Rightarrow> unit option \<Rightarrow> c_int \<times> 'tid) \<Rightarrow> io_error \<Rightarrow>
     't config \<Rightarrow> (('d, 't, 'tid) process_timer, io_error) result" where
  "ProcessTimer_new C sigaction timer_create os_error cfg =
     (let time_offset = nd_since C (cfg_time_offset cfg) (nd_epoch C) in
      case sigaction of
        Inl e \<Rightarrow> Err e
      | Inr _ \<Rightarrow>
          (case timer_create_wrapper timer_create os_error Monotonic None of
             Inl e \<Rightarrow> Err e
           | Inr timer_id \<Rightarrow> Ok \<lparr>
               pt_time_offset = time_offset,
               pt_application_time = AdjustedTime_new (ch_zero C),
               pt_simulation_time = AdjustedTime_new (ch_zero C),
               pt_timer_id = timer_id,
               pt_at_deadline = True,
               pt_current_deadline = cfg_time_offset cfg,
               pt_prev_deadline = dur 0,
               pt_next_deadline = dur 0,
               pt_prev_deadline_raw = dur 0,
               pt_next_deadline_raw = dur 0,
               pt_stopped = True,
               pt_deleted = False\<rparr>))"

definition process_gettime :: "('t, 'tid) process_env \<Rightarrow> duration option" where
  "process_gettime env = do {
     r \<leftarrow> gettime (env_clock_gettime env) (env_os_error env) Monotonic;
     unwrap r
   }"

definition ProcessTimer_application_now ::
  "('d, 't) chrono \<Rightarrow> ('d, 't, 'tid) process_timer \<Rightarrow> ('t, 'tid) process_env \<Rightarrow> 't option" where
  "ProcessTimer_application_now C self env =
     (if \<not> pt_at_deadline self then
        AdjustedTime_get (pt_application_time self) (\<lambda>offset. nd_add C (env_local_now env) offset)
      else Some (pt_current_deadline self))"

definition ProcessTimer_simulation_now ::
  "('d, 't) chrono \<Rightarrow> ('d, 't, 'tid) process_timer \<Rightarrow> ('t, 'tid) process_env \<Rightarrow> duration option" where
  "ProcessTimer_simulation_now C self env =
     (if \<not> pt_at_deadline self then
        AdjustedTime_get (pt_simulation_time self) (\<lambda>offset. do {
          now \<leftarrow> process_gettime env;
          d \<leftarrow> ch_from_std C now;
          s \<leftarrow> ch_add C d offset;
          ch_to_std C s
        })
      else None)"

definition ProcessTimer_freeze_time ::
  "('d, 't) chrono \<Rightarrow> ('d, 't, 'tid) process_timer \<Rightarrow> ('t, 'tid) process_env \<Rightarrow>
     (duration \<times> ('d, 't, 'tid) process_timer) option" where
  "ProcessTimer_freeze_time C self env = do {
     now \<leftarrow> process_gettime env;
     current \<leftarrow> ProcessTimer_application_now C self env;
     Some (now, self\<lparr>pt_current_deadline := current, pt_at_deadline := True\<rparr>)
   }"

text \<open>
  The part of \<open>thaw_time_to_deadline\<close> that moves the clocks: back by the time since
  \<open>freeze_time\<close>, or, on the first call, to the initial application time and to simulation time 0.
\<close>

definition ProcessTimer_adjust ::
  "('d, 't) chrono \<Rightarrow> ('d, 't, 'tid) process_timer \<Rightarrow> ('t, 'tid) process_env \<Rightarrow> duration option \<Rightarrow> duration \<Rightarrow>
     ('d seq_lock \<times> 'd seq_lock) option" where
  "ProcessTimer_adjust C self env freeze_time now =
     (case freeze_time of
        Some freeze_time \<Rightarrow> do {
          e \<leftarrow> Duration_sub now freeze_time;
          elapsed_time \<leftarrow> ch_from_std C e;
          app \<leftarrow> AdjustedTime_adjust (pt_application_time self) (\<lambda>offset. ch_sub C offset elapsed_time);
          sim \<leftarrow> AdjustedTime_adjust (pt_simulation_time self) (\<lambda>offset. ch_sub C offset elapsed_time);
          Some (app, sim)
        }
      | None \<Rightarrow> do {
          app \<leftarrow> AdjustedTime_adjust (pt_application_time self)
                   (\<lambda>_. Some (nd_since C (pt_current_deadline self) (env_local_now env)));
          sim \<leftarrow> AdjustedTime_adjust (pt_simulation_time self) (\<lambda>_. do {
                   d \<leftarrow> ch_from_std C now;
                   Some (ch_neg C d)
                 });
          Some (app, sim)
        })"

definition ProcessTimer_thaw_time_to_deadline ::
  "('d, 't) chrono \<Rightarrow> ('d, 't, 'tid) process_timer \<Rightarrow> ('t, 'tid) process_env \<Rightarrow> duration option \<Rightarrow> duration \<Rightarrow>
     ((unit, io_error) result \<times> ('d, 't, 'tid) process_timer) option" where
  "ProcessTimer_thaw_time_to_deadline C self env freeze_time deadline =
     (let next_deadline_val = pt_next_deadline self;
          self = self\<lparr>pt_prev_deadline := next_deadline_val, pt_next_deadline := deadline\<rparr>
      in do {
        now \<leftarrow> process_gettime env;
        slice \<leftarrow> Duration_sub deadline next_deadline_val;
        new_next_deadline_raw \<leftarrow> Duration_add now slice;
        self \<leftarrow> Some (self\<lparr>pt_prev_deadline_raw := pt_next_deadline_raw self,
                            pt_next_deadline_raw := new_next_deadline_raw\<rparr>);
        (app, sim) \<leftarrow> ProcessTimer_adjust C self env freeze_time now;
        self \<leftarrow> Some (self\<lparr>pt_application_time := app, pt_simulation_time := sim, pt_at_deadline := False\<rparr>);
        r \<leftarrow> settime (env_TIMER_ABSTIME env) (env_timer_settime env) (env_os_error env)
               (pt_timer_id self) AbsoluteTime None new_next_deadline_raw;
        Some (map_sum id (\<lambda>_. ()) r, self)
      })"

definition ProcessTimer_start ::
  "('d, 't) chrono \<Rightarrow> ('d, 't, 'tid) process_timer \<Rightarrow> ('t, 'tid) process_env \<Rightarrow> duration \<Rightarrow>
     (('d, io_error) result \<times> ('d, 't, 'tid) process_timer) option" where
  "ProcessTimer_start C self env deadline = do {
     self \<leftarrow> Some (self\<lparr>pt_stopped := False\<rparr>);
     (r, self) \<leftarrow> ProcessTimer_thaw_time_to_deadline C self env None deadline;
     Some (case r of
         Inr _ \<Rightarrow> (Ok (pt_time_offset self), self)
       | Inl e \<Rightarrow> (Err e, self\<lparr>pt_stopped := True\<rparr>))
   }"

text \<open>\<open>stop\<close> spins until the handler has set the flag.\<close>

partial_function (option) ProcessTimer_stop :: "('d, 't, 'tid) process_timer \<Rightarrow> unit option" where
  "ProcessTimer_stop self = (if \<not> pt_stopped self then ProcessTimer_stop self else Some ())"

definition ProcessTimer_simulation_previous_deadline :: "('d, 't, 'tid) process_timer \<Rightarrow> duration option" where
  "ProcessTimer_simulation_previous_deadline self = do {
     assert_that (pt_at_deadline self);
     Some (pt_prev_deadline self)
   }"

definition ProcessTimer_simulation_next_deadline :: "('d, 't, 'tid) process_timer \<Rightarrow> duration option" where
  "ProcessTimer_simulation_next_deadline self = do {
     assert_that (pt_at_deadline self);
     Some (pt_next_deadline self)
   }"

definition ProcessTimer_check_deadline_overrun ::
  "('d, 't, 'tid) process_timer \<Rightarrow> duration \<Rightarrow> 'o send_packet_builder list \<Rightarrow> duration option" where
  "ProcessTimer_check_deadline_overrun self send_time upcoming_messages = None"

text \<open>\<open>drop\<close> deletes the system timer; \<open>pt_deleted\<close> records it. The result of the call is ignored.\<close>

definition ProcessTimer_drop :: "('tid \<Rightarrow> c_int) \<Rightarrow> ('d, 't, 'tid) process_timer \<Rightarrow> ('d, 't, 'tid) process_timer" where
  "ProcessTimer_drop timer_delete self =
     (let _ = timer_delete_wrapper timer_delete (pt_timer_id self) in self\<lparr>pt_deleted := True\<rparr>)"

definition process_ops ::
  "('d, 't) chrono \<Rightarrow> ('tid \<Rightarrow> c_int) \<Rightarrow> (('d, 't, 'tid) process_timer, ('t, 'tid) process_env, 'd, 't, 'o) timer_ops" where
  "process_ops C timer_delete = \<lparr>
     t_simulation_now = ProcessTimer_simulation_now C,
     t_previous_deadline = ProcessTimer_simulation_previous_deadline,
     t_next_deadline = ProcessTimer_simulation_next_deadline,
     t_check_overrun = ProcessTimer_check_deadline_overrun,
     t_start = ProcessTimer_start C,
     t_application_now = ProcessTimer_application_now C,
     t_stop = (\<lambda>self. map_option (\<lambda>_. self) (ProcessTimer_stop self)),
     t_drop = ProcessTimer_drop timer_delete\<rparr>"

lemma thaw_slice:
  assumes "ProcessTimer_thaw_time_to_deadline C st env fr d = Some (r, st')"
  shows "pt_prev_deadline st' = pt_next_deadline st" "pt_next_deadline st' = d"
  using assms by (auto simp: ProcessTimer_thaw_time_to_deadline_def Let_def bind_eq_Some_conv)

lemma start_advances:
  assumes "ProcessTimer_start C st env d = Some (r, st')"
  shows "pt_prev_deadline st' = pt_next_deadline st" "pt_next_deadline st' = d"
proof -
  obtain r1 st1 where t: "ProcessTimer_thaw_time_to_deadline C (st\<lparr>pt_stopped := False\<rparr>) env None d = Some (r1, st1)"
    using assms by (auto simp: ProcessTimer_start_def bind_eq_Some_conv)
  then have "pt_prev_deadline st' = pt_prev_deadline st1" "pt_next_deadline st' = pt_next_deadline st1"
    using assms by (cases r1; auto simp: ProcessTimer_start_def)+
  with thaw_slice [OF t] show "pt_prev_deadline st' = pt_next_deadline st" "pt_next_deadline st' = d" by simp_all
qed

interpretation process: timer_impl "process_ops C timer_delete" pt_prev_deadline pt_next_deadline
  for C :: "('d, 't) chrono" and timer_delete
  by unfold_locales
     (auto simp: process_ops_def ProcessTimer_simulation_previous_deadline_def ProcessTimer_simulation_next_deadline_def
        ProcessTimer_check_deadline_overrun_def bind_eq_Some_conv dest: start_advances)

section \<open>Simulation time\<close>

text \<open>
  Between two operations no lock is held. \<open>sim_offset\<close> and \<open>app_offset\<close> are the two offsets in
  nanoseconds.
\<close>

definition pt_ok :: "('d, 't, 'tid) process_timer \<Rightarrow> bool" where
  "pt_ok st \<longleftrightarrow> released (pt_application_time st) \<and> released (pt_simulation_time st)"

definition sim_offset :: "('d \<Rightarrow> int) \<Rightarrow> ('d, 't, 'tid) process_timer \<Rightarrow> int" where
  "sim_offset ns st = ns (sl_value (pt_simulation_time st))"

definition app_offset :: "('d \<Rightarrow> int) \<Rightarrow> ('d, 't, 'tid) process_timer \<Rightarrow> int" where
  "app_offset ns st = ns (sl_value (pt_application_time st))"

text \<open>
  The system call that sets the timer succeeds, and reports a well-formed previous setting.
\<close>

definition settime_works :: "('t, 'tid) process_env \<Rightarrow> bool" where
  "settime_works env \<longleftrightarrow> (\<forall>tid fl v. \<exists>old. env_timer_settime env tid fl v = (0, old) \<and>
     normal_timespec (it_interval old) \<and> normal_timespec (it_value old))"

lemma settime_worksD:
  assumes "settime_works env"
  obtains old where "settime a (env_timer_settime env) e tid fl i v = Some (Ok old)"
proof -
  obtain o' where o: "env_timer_settime env tid (SettimeFlags_into_raw a fl) (itimerspec_of i v) = (0, o')"
    "normal_timespec (it_interval o')" "normal_timespec (it_value o')"
    using assms unfolding settime_works_def by blast
  obtain d1 d2 where "timespec_to_duration (it_interval o') = Some d1" "timespec_to_duration (it_value o') = Some d2"
    using o(2,3) timespec_to_duration_normal by metis
  with o(1) that show ?thesis by (simp add: settime_def)
qed

lemma simulation_now_running:
  assumes C: "chrono_laws C ns ts" and st: "pt_ok st" "\<not> pt_at_deadline st"
    and now: "process_gettime env = Some now" "int (as_nanos now) \<le> chrono_max"
    and range: "0 \<le> int (as_nanos now) + sim_offset ns st" "int (as_nanos now) + sim_offset ns st \<le> chrono_max"
  obtains t where "ProcessTimer_simulation_now C st env = Some t"
    "int (as_nanos t) = int (as_nanos now) + sim_offset ns st"
proof -
  obtain d where d: "ch_from_std C now = Some d" "ns d = int (as_nanos now)"
    using chrono_from_stdD [OF C now(2)] by blast
  have "\<bar>ns d + ns (sl_value (pt_simulation_time st))\<bar> \<le> chrono_max"
    using range d(2) by (simp add: sim_offset_def)
  then obtain z where z: "ch_add C d (sl_value (pt_simulation_time st)) = Some z"
    "ns z = ns d + ns (sl_value (pt_simulation_time st))"
    using chrono_addD [OF C] by blast
  obtain t where "ch_to_std C z = Some t" "int (as_nanos t) = ns z"
    using chrono_to_stdD [OF C, of z] z(2) d(2) range by (auto simp: sim_offset_def)
  with d z now st that show ?thesis
    by (simp add: ProcessTimer_simulation_now_def AdjustedTime_get_def pt_ok_def read_released sim_offset_def)
qed

text \<open>Reading simulation time while a deadline is handled is the panic of the source.\<close>

lemma simulation_now_frozen: "pt_at_deadline st \<Longrightarrow> ProcessTimer_simulation_now C st env = None"
  by (simp add: ProcessTimer_simulation_now_def)

section \<open>Starting\<close>

lemma adjust_first:
  assumes C: "chrono_laws C ns ts" and st: "pt_ok st" and now: "int (as_nanos now) \<le> chrono_max"
  obtains app sim where "ProcessTimer_adjust C st env None now = Some (app, sim)" "released app" "released sim"
    "ns (sl_value app) = ts (pt_current_deadline st) - ts (env_local_now env)"
    "ns (sl_value sim) = - int (as_nanos now)"
proof -
  obtain d where d: "ch_from_std C now = Some d" "ns d = int (as_nanos now)"
    using chrono_from_stdD [OF C now] by blast
  have "\<bar>ns d\<bar> \<le> chrono_max" using d(2) now by simp
  then have "ns (ch_neg C d) = - int (as_nanos now)" using chrono_negD [OF C] d(2) by simp
  moreover have "released (s\<lparr>seq_count := seq_count s + 2\<rparr>)" if "released s" for s :: "'a seq_lock"
    using that by (simp add: released_def)
  ultimately show ?thesis
    using st d chrono_sinceD [OF C] that
    by (simp add: ProcessTimer_adjust_def AdjustedTime_adjust_def pt_ok_def write_released released_def)
qed

lemma adjust_again:
  assumes C: "chrono_laws C ns ts" and st: "pt_ok st" and le: "freeze \<le> now"
    and e: "int (as_nanos now) - int (as_nanos freeze) \<le> chrono_max"
    and rs: "\<bar>sim_offset ns st - (int (as_nanos now) - int (as_nanos freeze))\<bar> \<le> chrono_max"
    and ra: "\<bar>app_offset ns st - (int (as_nanos now) - int (as_nanos freeze))\<bar> \<le> chrono_max"
  obtains app sim where "ProcessTimer_adjust C st env (Some freeze) now = Some (app, sim)"
    "released app" "released sim"
    "ns (sl_value app) = app_offset ns st - (int (as_nanos now) - int (as_nanos freeze))"
    "ns (sl_value sim) = sim_offset ns st - (int (as_nanos now) - int (as_nanos freeze))"
proof -
  obtain x where x: "Duration_sub now freeze = Some x" "as_nanos x = as_nanos now - as_nanos freeze"
    using le Duration_sub_eq_Some by (metis Duration_sub_def)
  then have xi: "int (as_nanos x) = int (as_nanos now) - int (as_nanos freeze)"
    using le by (simp add: duration_le_iff)
  obtain el where el: "ch_from_std C x = Some el" "ns el = int (as_nanos now) - int (as_nanos freeze)"
    using chrono_from_stdD [OF C, of x] e xi by auto
  obtain z1 where z1: "ch_sub C (sl_value (pt_application_time st)) el = Some z1"
    "ns z1 = app_offset ns st - (int (as_nanos now) - int (as_nanos freeze))"
    using chrono_subD [OF C, of "sl_value (pt_application_time st)" el] ra el(2) by (auto simp: app_offset_def)
  obtain z2 where z2: "ch_sub C (sl_value (pt_simulation_time st)) el = Some z2"
    "ns z2 = sim_offset ns st - (int (as_nanos now) - int (as_nanos freeze))"
    using chrono_subD [OF C, of "sl_value (pt_simulation_time st)" el] rs el(2) by (auto simp: sim_offset_def)
  show ?thesis
    using st x el z1 z2 that
    by (simp add: ProcessTimer_adjust_def AdjustedTime_adjust_def pt_ok_def write_released released_def)
qed

text \<open>
  What a successful thaw sets up: the timer is armed at the raw time the slice ends, the deadlines
  move on, and the clocks run.
\<close>

lemma thaw_ok:
  assumes env: "process_gettime env = Some now" "settime_works env"
    and d: "pt_next_deadline st \<le> deadline"
      "as_nanos now + (as_nanos deadline - as_nanos (pt_next_deadline st)) < duration_bound"
    and adj: "\<And>st'. pt_application_time st' = pt_application_time st \<Longrightarrow>
      pt_simulation_time st' = pt_simulation_time st \<Longrightarrow> pt_current_deadline st' = pt_current_deadline st \<Longrightarrow>
      ProcessTimer_adjust C st' env freeze now = Some (app, sim)"
  obtains st' where
    "ProcessTimer_thaw_time_to_deadline C st env freeze deadline = Some (Ok (), st')"
    "pt_application_time st' = app" "pt_simulation_time st' = sim" "\<not> pt_at_deadline st'"
    "pt_prev_deadline st' = pt_next_deadline st" "pt_next_deadline st' = deadline"
    "as_nanos (pt_next_deadline_raw st') =
       as_nanos now + (as_nanos deadline - as_nanos (pt_next_deadline st))"
    "pt_time_offset st' = pt_time_offset st" "pt_stopped st' = pt_stopped st"
proof -
  let ?raw = "dur (as_nanos now + (as_nanos deadline - as_nanos (pt_next_deadline st)))"
  have raw: "as_nanos ?raw = as_nanos now + (as_nanos deadline - as_nanos (pt_next_deadline st))"
    using d(2) by simp
  obtain slice where slice: "Duration_sub deadline (pt_next_deadline st) = Some slice"
    "as_nanos slice = as_nanos deadline - as_nanos (pt_next_deadline st)"
    using d(1) Duration_sub_eq_Some by (metis Duration_sub_def)
  have add: "Duration_add now slice = Some ?raw"
    using raw slice(2) by (simp add: Duration_add_eq_Some)
  obtain old where old: "settime (env_TIMER_ABSTIME env) (env_timer_settime env) (env_os_error env)
      (pt_timer_id st) AbsoluteTime None ?raw = Some (Ok old)"
    by (rule settime_worksD [OF env(2)])
  show ?thesis
    by (rule that [of "st\<lparr>pt_prev_deadline := pt_next_deadline st, pt_next_deadline := deadline,
          pt_prev_deadline_raw := pt_next_deadline_raw st, pt_next_deadline_raw := ?raw,
          pt_application_time := app, pt_simulation_time := sim, pt_at_deadline := False\<rparr>"])
       (use env slice add old raw adj in \<open>simp_all add: ProcessTimer_thaw_time_to_deadline_def Let_def\<close>)
qed

text \<open>
  How late simulation time is when the timer is due: what simulation time will be at the raw time
  the timer is armed for, minus the deadline it stands for.
\<close>

definition lateness :: "('d \<Rightarrow> int) \<Rightarrow> ('d, 't, 'tid) process_timer \<Rightarrow> int" where
  "lateness ns st = int (as_nanos (pt_next_deadline_raw st)) + sim_offset ns st - int (as_nanos (pt_next_deadline st))"

lemma start_ok:
  assumes C: "chrono_laws C ns ts" and st: "pt_ok st" "pt_next_deadline st = dur 0"
    and env: "process_gettime env = Some now" "settime_works env" "int (as_nanos now) \<le> chrono_max"
    and d: "as_nanos now + as_nanos deadline < duration_bound"
  obtains st' where "ProcessTimer_start C st env deadline = Some (Ok (pt_time_offset st), st')"
    "pt_ok st'" "\<not> pt_at_deadline st'" "\<not> pt_stopped st'" "sim_offset ns st' = - int (as_nanos now)"
    "app_offset ns st' = ts (pt_current_deadline st) - ts (env_local_now env)"
    "pt_prev_deadline st' = dur 0" "pt_next_deadline st' = deadline" "lateness ns st' = 0"
proof -
  let ?st = "st\<lparr>pt_stopped := False\<rparr>"
  have zero: "as_nanos (pt_next_deadline ?st) = 0" using st(2) by (simp add: duration_bound_def)
  have ok: "pt_ok ?st" using st(1) by (simp add: pt_ok_def)
  obtain app sim where a: "ProcessTimer_adjust C ?st env None now = Some (app, sim)" "released app" "released sim"
    "ns (sl_value app) = ts (pt_current_deadline ?st) - ts (env_local_now env)"
    "ns (sl_value sim) = - int (as_nanos now)"
    by (rule adjust_first [OF C ok env(3)])
  have adj: "ProcessTimer_adjust C st1 env None now = Some (app, sim)"
    if "pt_application_time st1 = pt_application_time ?st" "pt_simulation_time st1 = pt_simulation_time ?st"
      "pt_current_deadline st1 = pt_current_deadline ?st" for st1
    using a(1) that by (simp add: ProcessTimer_adjust_def)
  obtain st' where "ProcessTimer_thaw_time_to_deadline C ?st env None deadline = Some (Ok (), st')"
    "pt_application_time st' = app" "pt_simulation_time st' = sim" "\<not> pt_at_deadline st'"
    "pt_prev_deadline st' = pt_next_deadline ?st" "pt_next_deadline st' = deadline"
    "as_nanos (pt_next_deadline_raw st') = as_nanos now + (as_nanos deadline - as_nanos (pt_next_deadline ?st))"
    "pt_time_offset st' = pt_time_offset ?st" "pt_stopped st' = pt_stopped ?st"
    by (rule thaw_ok [where st = ?st and deadline = deadline, OF env(1,2) _ _ adj])
       (use zero d in \<open>simp_all add: duration_le_iff\<close>)
  then show ?thesis
    using a st(2) zero
    by (intro that [of st'])
       (simp_all add: ProcessTimer_start_def pt_ok_def sim_offset_def app_offset_def lateness_def)
qed

section \<open>One deadline\<close>

lemma freeze_ok:
  assumes "process_gettime env = Some now" "ProcessTimer_application_now C st env = Some current"
  shows "ProcessTimer_freeze_time C st env =
    Some (now, st\<lparr>pt_current_deadline := current, pt_at_deadline := True\<rparr>)"
  using assms by (simp add: ProcessTimer_freeze_time_def)

text \<open>
  Freezing at \<open>t1\<close> and thawing at \<open>t2\<close>: simulation and application time at \<open>t2\<close> are what they
  were at \<open>t1\<close>. The lateness grows by how late the handler ran after the armed time.
\<close>

lemma freeze_thaw:
  assumes C: "chrono_laws C ns ts" and st: "pt_ok st"
    and frozen: "ProcessTimer_freeze_time C st env1 = Some (t1, st1)"
    and env: "process_gettime env2 = Some t2" "settime_works env2" "t1 \<le> t2"
    and d: "pt_next_deadline st \<le> deadline"
      "as_nanos t2 + (as_nanos deadline - as_nanos (pt_next_deadline st)) < duration_bound"
    and range: "int (as_nanos t2) - int (as_nanos t1) \<le> chrono_max"
      "\<bar>sim_offset ns st - (int (as_nanos t2) - int (as_nanos t1))\<bar> \<le> chrono_max"
      "\<bar>app_offset ns st - (int (as_nanos t2) - int (as_nanos t1))\<bar> \<le> chrono_max"
  obtains st2 where "ProcessTimer_thaw_time_to_deadline C st1 env2 (Some t1) deadline = Some (Ok (), st2)"
    "pt_ok st2" "\<not> pt_at_deadline st2"
    "int (as_nanos t2) + sim_offset ns st2 = int (as_nanos t1) + sim_offset ns st"
    "int (as_nanos t2) + app_offset ns st2 = int (as_nanos t1) + app_offset ns st"
    "pt_prev_deadline st2 = pt_next_deadline st" "pt_next_deadline st2 = deadline"
    "lateness ns st2 = lateness ns st + (int (as_nanos t1) - int (as_nanos (pt_next_deadline_raw st)))"
proof -
  from frozen obtain cur where st1: "st1 = st\<lparr>pt_current_deadline := cur, pt_at_deadline := True\<rparr>"
    by (auto simp: ProcessTimer_freeze_time_def bind_eq_Some_conv)
  have same: "sim_offset ns st1 = sim_offset ns st" "app_offset ns st1 = app_offset ns st"
    "pt_ok st1" "pt_next_deadline st1 = pt_next_deadline st"
    using st st1 by (simp_all add: sim_offset_def app_offset_def pt_ok_def)
  obtain app sim where a: "ProcessTimer_adjust C st1 env2 (Some t1) t2 = Some (app, sim)" "released app"
    "released sim" "ns (sl_value app) = app_offset ns st1 - (int (as_nanos t2) - int (as_nanos t1))"
    "ns (sl_value sim) = sim_offset ns st1 - (int (as_nanos t2) - int (as_nanos t1))"
    by (rule adjust_again [OF C same(3) env(3), of env2]) (use range same in simp_all)
  have adj: "ProcessTimer_adjust C s env2 (Some t1) t2 = Some (app, sim)"
    if "pt_application_time s = pt_application_time st1" "pt_simulation_time s = pt_simulation_time st1"
      "pt_current_deadline s = pt_current_deadline st1" for s
    using a(1) that by (simp add: ProcessTimer_adjust_def)
  obtain st2 where t: "ProcessTimer_thaw_time_to_deadline C st1 env2 (Some t1) deadline = Some (Ok (), st2)"
    "pt_application_time st2 = app" "pt_simulation_time st2 = sim" "\<not> pt_at_deadline st2"
    "pt_prev_deadline st2 = pt_next_deadline st1" "pt_next_deadline st2 = deadline"
    "as_nanos (pt_next_deadline_raw st2) = as_nanos t2 + (as_nanos deadline - as_nanos (pt_next_deadline st1))"
    by (rule thaw_ok [where st = st1 and deadline = deadline, OF env(1,2) _ _ adj]) (use d same in simp_all)
  have raw: "int (as_nanos (pt_next_deadline_raw st2)) =
      int (as_nanos t2) + int (as_nanos deadline) - int (as_nanos (pt_next_deadline st))"
    using t(7) d(1) same by (simp add: duration_le_iff)
  have sim: "sim_offset ns st2 = sim_offset ns st - (int (as_nanos t2) - int (as_nanos t1))"
    using a(5) t(3) same(1) by (simp add: sim_offset_def)
  show ?thesis
  proof (rule that [OF t(1)])
    show "lateness ns st2 = lateness ns st + (int (as_nanos t1) - int (as_nanos (pt_next_deadline_raw st)))"
      using raw sim t(6) by (simp add: lateness_def)
  qed (use a t same sim in \<open>simp_all add: pt_ok_def app_offset_def\<close>)
qed

end
