(* ===== verification/Timer_Qemu.thy ===== *)
theory Timer_Qemu
  imports Timer
begin

text \<open>
  The timer of the Qemu emulator, \<open>timer/qemu/mod.rs\<close>. Simulation time is Qemu's virtual clock
  minus its value when the simulation started, and deadlines are Qemu timer events.

  The functions of Qemu's timer API are the emulator's: what \<open>qemu_clock_get_ns\<close> returns is an
  argument, and the calls that act on the timer are recorded in order in \<open>qt_calls\<close>. \<open>qt_strong\<close> is
  the number of owners of the \<open>Arc\<close> behind the timer context: \<open>start\<close> gives one more to Qemu and
  \<open>stop\<close> takes it back.
\<close>

datatype qemu_call = TimerInitFull | TimerMod i64 | TimerDel | TimerDeinit

record 'd qemu_timer =
  qt_calls :: "qemu_call list"
  qt_offset :: 'd
  qt_prev_deadline :: duration
  qt_next_deadline :: duration
  qt_strong :: nat

definition QemuTimer_new :: "('d, 't) chrono \<Rightarrow> 'd qemu_timer" where
  "QemuTimer_new C = \<lparr>qt_calls = [], qt_offset = ch_zero C,
     qt_prev_deadline = dur 0, qt_next_deadline = dur 0, qt_strong = 1\<rparr>"

definition QemuTimer_set_next_deadline :: "('d, 't) chrono \<Rightarrow> 'd qemu_timer \<Rightarrow> duration \<Rightarrow> 'd qemu_timer option" where
  "QemuTimer_set_next_deadline C self deadline =
     (let next_deadline_val = qt_next_deadline self;
          self = self\<lparr>qt_prev_deadline := next_deadline_val, qt_next_deadline := deadline\<rparr>
      in do {
        offset \<leftarrow> ch_to_std C (qt_offset self);
        sum \<leftarrow> Duration_add offset deadline;
        timer_deadline \<leftarrow> Some (word_of_nat (as_nanos sum) :: i64);
        Some (self\<lparr>qt_calls := qt_calls self @ [TimerMod timer_deadline]\<rparr>)
      })"

definition QemuTimer_start ::
  "('d, 't) chrono \<Rightarrow> 'd qemu_timer \<Rightarrow> i64 \<Rightarrow> duration \<Rightarrow> (('d, io_error) result \<times> 'd qemu_timer) option" where
  "QemuTimer_start C self qemu_clock_get_ns deadline =
     (let self = self\<lparr>qt_strong := Suc (qt_strong self), qt_calls := qt_calls self @ [TimerInitFull]\<rparr>;
          vm_time = ch_nanoseconds C qemu_clock_get_ns;
          self = self\<lparr>qt_offset := vm_time\<rparr>
      in do {
        self \<leftarrow> QemuTimer_set_next_deadline C self deadline;
        Some (Ok vm_time, self)
      })"

text \<open>\<open>stop\<close> without an owner left would be a use after free.\<close>

definition QemuTimer_stop :: "'d qemu_timer \<Rightarrow> 'd qemu_timer option" where
  "QemuTimer_stop self = do {
     assert_that (0 < qt_strong self);
     Some (self\<lparr>qt_calls := qt_calls self @ [TimerDel, TimerDeinit], qt_strong := qt_strong self - 1\<rparr>)
   }"

text \<open>\<open>application_now\<close> is \<open>unimplemented!()\<close>.\<close>

definition QemuTimer_application_now :: "'d qemu_timer \<Rightarrow> i64 \<Rightarrow> 't option" where
  "QemuTimer_application_now self qemu_clock_get_ns = None"

definition QemuTimer_simulation_now :: "('d, 't) chrono \<Rightarrow> 'd qemu_timer \<Rightarrow> i64 \<Rightarrow> duration option" where
  "QemuTimer_simulation_now C self qemu_clock_get_ns = do {
     d \<leftarrow> ch_sub C (ch_nanoseconds C qemu_clock_get_ns) (qt_offset self);
     ch_to_std C d
   }"

definition QemuTimer_simulation_previous_deadline :: "'d qemu_timer \<Rightarrow> duration option" where
  "QemuTimer_simulation_previous_deadline self = Some (qt_prev_deadline self)"

definition QemuTimer_simulation_next_deadline :: "'d qemu_timer \<Rightarrow> duration option" where
  "QemuTimer_simulation_next_deadline self = Some (qt_next_deadline self)"

definition QemuTimer_check_deadline_overrun ::
  "'d qemu_timer \<Rightarrow> duration \<Rightarrow> 'o send_packet_builder list \<Rightarrow> duration option" where
  "QemuTimer_check_deadline_overrun self send_time upcoming_messages = None"

definition qemu_ops :: "('d, 't) chrono \<Rightarrow> ('d qemu_timer, i64, 'd, 't, 'o) timer_ops" where
  "qemu_ops C = \<lparr>
     t_simulation_now = QemuTimer_simulation_now C,
     t_previous_deadline = QemuTimer_simulation_previous_deadline,
     t_next_deadline = QemuTimer_simulation_next_deadline,
     t_check_overrun = QemuTimer_check_deadline_overrun,
     t_start = QemuTimer_start C,
     t_application_now = QemuTimer_application_now,
     t_stop = QemuTimer_stop,
     t_drop = (\<lambda>self. self)\<rparr>"

interpretation qemu: timer_impl "qemu_ops C" qt_prev_deadline qt_next_deadline for C :: "('d, 't) chrono"
  by unfold_locales
     (auto simp: qemu_ops_def QemuTimer_simulation_previous_deadline_def QemuTimer_simulation_next_deadline_def QemuTimer_check_deadline_overrun_def
        QemuTimer_start_def QemuTimer_set_next_deadline_def Let_def bind_eq_Some_conv)

section \<open>The timer fires exactly at the deadline\<close>

text \<open>
  The time of Qemu's virtual clock the timer is set to, the last \<open>timer_mod\<close>.
\<close>

definition expiry :: "'d qemu_timer \<Rightarrow> i64 option" where
  "expiry st = (case rev (qt_calls st) of TimerMod e # _ \<Rightarrow> Some e | _ \<Rightarrow> None)"

text \<open>
  A started timer is set to the instant of the virtual clock that is the deadline in simulation
  time.
\<close>

definition qemu_armed :: "('d \<Rightarrow> int) \<Rightarrow> 'd qemu_timer \<Rightarrow> bool" where
  "qemu_armed ns st \<longleftrightarrow> 0 \<le> ns (qt_offset st) \<and> ns (qt_offset st) < 2 ^ 63 \<and>
     (\<exists>e. expiry st = Some e \<and> sint e = ns (qt_offset st) + int (as_nanos (qt_next_deadline st)))"

lemma set_next_deadline_armed:
  assumes C: "chrono_laws C ns ts"
    and off: "0 \<le> ns (qt_offset st)" "ns (qt_offset st) < 2 ^ 63"
    and d: "ns (qt_offset st) + int (as_nanos deadline) < 2 ^ 63"
  obtains st' where "QemuTimer_set_next_deadline C st deadline = Some st'" "qemu_armed ns st'"
    "qt_prev_deadline st' = qt_next_deadline st" "qt_next_deadline st' = deadline"
    "qt_offset st' = qt_offset st" "qt_strong st' = qt_strong st"
proof -
  obtain o' where o: "ch_to_std C (qt_offset st) = Some o'" "int (as_nanos o') = ns (qt_offset st)"
    using chrono_to_stdD [OF C, of "qt_offset st"] off chrono_max_i64 by blast
  let ?n = "as_nanos o' + as_nanos deadline"
  have "int ?n < 2 ^ 63" using o(2) d by simp
  then have n: "?n < 2 ^ 63" by (metis of_nat_less_iff of_nat_numeral of_nat_power)
  then have "?n < duration_bound" by (rule less_trans) (simp add: duration_bound_def)
  then have "Duration_add o' deadline = Some (dur ?n)" "as_nanos (dur ?n) = ?n"
    by (simp_all add: Duration_add_def duration_checked_def)
  then show ?thesis
    using o off sint_word_of_nat [OF n]
    by (intro that [of "st\<lparr>qt_prev_deadline := qt_next_deadline st, qt_next_deadline := deadline,
          qt_calls := qt_calls st @ [TimerMod (word_of_nat ?n)]\<rparr>"])
       (simp_all add: QemuTimer_set_next_deadline_def Let_def qemu_armed_def expiry_def)
qed

lemma qemu_start_armed:
  assumes C: "chrono_laws C ns ts" and clk: "0 \<le> sint clk"
    and d: "sint clk + int (as_nanos deadline) < 2 ^ 63"
  obtains st' where "QemuTimer_start C st clk deadline = Some (Ok (ch_nanoseconds C clk), st')"
    "qemu_armed ns st'" "ns (qt_offset st') = sint clk" "qt_prev_deadline st' = qt_next_deadline st"
    "qt_next_deadline st' = deadline" "qt_strong st' = Suc (qt_strong st)"
proof -
  let ?st = "st\<lparr>qt_strong := Suc (qt_strong st), qt_calls := qt_calls st @ [TimerInitFull],
    qt_offset := ch_nanoseconds C clk\<rparr>"
  have ns: "ns (qt_offset ?st) = sint clk" using chrono_nanosecondsD [OF C] by simp
  have lt: "sint clk < 2 ^ 63" using sint_lt [of clk] by simp
  obtain st' where "QemuTimer_set_next_deadline C ?st deadline = Some st'" "qemu_armed ns st'"
    "qt_prev_deadline st' = qt_next_deadline ?st" "qt_next_deadline st' = deadline"
    "qt_offset st' = qt_offset ?st" "qt_strong st' = qt_strong ?st"
    by (rule set_next_deadline_armed [OF C, of ?st deadline]) (use ns lt clk d in simp_all)
  with ns show ?thesis by (intro that [of st']) (simp_all add: QemuTimer_start_def)
qed

text \<open>Simulation time is the virtual clock minus the offset; when the timer fires it is the deadline.\<close>

lemma qemu_simulation_now:
  assumes C: "chrono_laws C ns ts" and off: "0 \<le> ns (qt_offset st)" "ns (qt_offset st) \<le> sint clk"
  obtains t where "QemuTimer_simulation_now C st clk = Some t" "int (as_nanos t) = sint clk - ns (qt_offset st)"
proof -
  have n: "ns (ch_nanoseconds C clk) = sint clk" by (rule chrono_nanosecondsD [OF C])
  have "sint clk < 2 ^ 63" using sint_lt [of clk] by simp
  then have le: "sint clk \<le> chrono_max" by (rule chrono_max_i64)
  then obtain z where z: "ch_sub C (ch_nanoseconds C clk) (qt_offset st) = Some z"
    "ns z = sint clk - ns (qt_offset st)"
    using chrono_subD [OF C, of "ch_nanoseconds C clk" "qt_offset st"] n off by auto
  obtain t where "ch_to_std C z = Some t" "int (as_nanos t) = ns z"
    using chrono_to_stdD [OF C, of z] z(2) off le by auto
  with z that show ?thesis by (simp add: QemuTimer_simulation_now_def)
qed

end
