(* ===== verification/Timer_Qemukvm.thy ===== *)
theory Timer_Qemukvm
  imports Timer Float64
begin

text \<open>
  The timer of Qemu with KVM, \<open>timer/qemukvm/mod.rs\<close>. Deadlines are registered with a kernel
  module, and simulation time is computed from the guest's time stamp counter, anchored at the
  counter value \<open>vmx_timer_value\<close> the module returned for the next deadline.

  The kernel module, the counter and the frequency file are arguments, in \<open>kvm_env\<close>, as is the rounding of
  double-precision numbers. \<open>kt_strong\<close> counts the owners of the \<open>Arc\<close> behind the timer context and
  \<open>kt_closed\<close> lists the device descriptors closed.
\<close>

section \<open>Arithmetic and text\<close>

text \<open>Checked \<open>u64\<close> arithmetic.\<close>

definition u64_add :: "u64 \<Rightarrow> u64 \<Rightarrow> u64 option" where
  "u64_add a b = (if unat a + unat b < 2 ^ 64 then Some (a + b) else None)"

definition u64_sub :: "u64 \<Rightarrow> u64 \<Rightarrow> u64 option" where
  "u64_sub a b = (if b \<le> a then Some (a - b) else None)"

text \<open>\<open>str::trim\<close> on ASCII text and \<open>parse::<i64>\<close>.\<close>

definition is_space :: "char \<Rightarrow> bool" where
  "is_space c \<longleftrightarrow> c \<in> {CHR '' '', CHR 0x09, CHR 0x0A, CHR 0x0B, CHR 0x0C, CHR 0x0D}"

definition trim :: "string \<Rightarrow> string" where
  "trim s = rev (dropWhile is_space (rev (dropWhile is_space s)))"

fun parse_digits :: "int \<Rightarrow> string \<Rightarrow> int option" where
  "parse_digits acc [] = Some acc"
| "parse_digits acc (c # cs) =
     (case digit c of None \<Rightarrow> None | Some d \<Rightarrow> parse_digits (10 * acc + d) cs)"

definition parse_i64 :: "string \<Rightarrow> i64 option" where
  "parse_i64 s =
     (let (neg, ds) = (case s of
          c # cs \<Rightarrow> if c = CHR ''-'' then (True, cs) else if c = CHR ''+'' then (False, cs) else (False, s)
        | [] \<Rightarrow> (False, []))
      in if ds = [] then None
         else (case parse_digits 0 ds of
             None \<Rightarrow> None
           | Some n \<Rightarrow> (let v = (if neg then - n else n)
                        in if - (2 ^ 63) \<le> v \<and> v < 2 ^ 63 then Some (word_of_int v) else None)))"

section \<open>State and operations\<close>

record kvm_env =
  kv_rnd :: "rat \<Rightarrow> rat"
  kv_rdtsc :: u64
  kv_tsc_offset :: u64
  kv_register_deadline :: "c_int \<Rightarrow> u64 \<Rightarrow> u64 \<Rightarrow> u64"
  kv_init_check :: "c_int \<Rightarrow> bool"
  kv_tsc_khz :: "string option"

record kvm_timer =
  kt_prev_deadline :: duration
  kt_next_deadline :: duration
  kt_guest_tsc :: u64
  kt_vmx_timer_value :: u64
  kt_tsc_freq :: f64
  kt_fd :: c_int
  kt_strong :: nat
  kt_closed :: "c_int list"

definition KvmTimer_new :: "c_int \<Rightarrow> kvm_timer" where
  "KvmTimer_new open_device = \<lparr>kt_prev_deadline = dur 0, kt_next_deadline = dur 0, kt_guest_tsc = 0,
     kt_vmx_timer_value = 0, kt_tsc_freq = Finite 0, kt_fd = open_device, kt_strong = 1,
     kt_closed = []\<rparr>"

definition KvmTimer_set_next_deadline :: "kvm_timer \<Rightarrow> kvm_env \<Rightarrow> duration \<Rightarrow> kvm_timer option" where
  "KvmTimer_set_next_deadline self env deadline = do {
     next_deadline_val \<leftarrow> Some (kt_next_deadline self);
     slice \<leftarrow> Duration_sub deadline next_deadline_val;
     timer_deadline \<leftarrow> Some (word_of_nat (as_nanos slice) :: u64);
     self \<leftarrow> Some (self\<lparr>kt_prev_deadline := next_deadline_val, kt_next_deadline := deadline\<rparr>);
     timer_deadline_tsc \<leftarrow> Some (f64_mul (kv_rnd env) (f64_of_u64 (kv_rnd env) timer_deadline) (kt_tsc_freq self));
     vmx_timer_value \<leftarrow> Some (kv_register_deadline env (kt_fd self) timer_deadline (u64_of_f64 timer_deadline_tsc));
     Some (self\<lparr>kt_vmx_timer_value := vmx_timer_value\<rparr>)
   }"

definition KvmTimer_start ::
  "('d, 't) chrono \<Rightarrow> kvm_timer \<Rightarrow> kvm_env \<Rightarrow> duration \<Rightarrow> (('d, io_error) result \<times> kvm_timer) option" where
  "KvmTimer_start C self env deadline = do {
     assert_that (kv_init_check env (kt_fd self));
     tsc_freq \<leftarrow> Some (case kv_tsc_khz env of
         None \<Rightarrow> Finite 1
       | Some tsc_khz_str \<Rightarrow>
           (case parse_i64 (trim tsc_khz_str) of
              None \<Rightarrow> Finite 1
            | Some tsc_khz_int \<Rightarrow> f64_div (kv_rnd env) (f64_of_i64 (kv_rnd env) tsc_khz_int) (Finite 1000000)));
     self \<leftarrow> KvmTimer_set_next_deadline (self\<lparr>kt_tsc_freq := tsc_freq\<rparr>) env deadline;
     Some (Ok (ch_zero C), self)
   }"

text \<open>\<open>stop\<close> closes the device and drops a reference; without an owner left it would be a use after free.\<close>

definition KvmTimer_stop :: "kvm_timer \<Rightarrow> kvm_timer option" where
  "KvmTimer_stop self = do {
     assert_that (0 < kt_strong self);
     Some (self\<lparr>kt_closed := kt_closed self @ [kt_fd self], kt_strong := kt_strong self - 1\<rparr>)
   }"

definition KvmTimer_application_now :: "kvm_timer \<Rightarrow> kvm_env \<Rightarrow> 't option" where
  "KvmTimer_application_now self env = None"

definition KvmTimer_simulation_now :: "('d, 't) chrono \<Rightarrow> kvm_timer \<Rightarrow> kvm_env \<Rightarrow> duration option" where
  "KvmTimer_simulation_now C self env = do {
     now_tsc \<leftarrow> u64_add (kv_rdtsc env) (kv_tsc_offset env);
     now_guest \<leftarrow> Some (f64_of_u64 (kv_rnd env) now_tsc);
     next_deadline_guest \<leftarrow> Some (f64_of_u64 (kv_rnd env) (kt_vmx_timer_value self));
     next_deadline \<leftarrow> Some (word_of_nat (as_nanos (kt_next_deadline self)) :: u64);
     tsc_freq \<leftarrow> Some (kt_tsc_freq self);
     offset \<leftarrow> u64_sub (u64_of_f64 (f64_div (kv_rnd env) next_deadline_guest tsc_freq)) next_deadline;
     vm_time \<leftarrow> u64_sub (u64_of_f64 (f64_div (kv_rnd env) now_guest tsc_freq)) offset;
     (case ch_to_std C (ch_nanoseconds C vm_time) of
        None \<Rightarrow> Some Duration_ZERO
      | Some val \<Rightarrow> Some val)
   }"

definition KvmTimer_simulation_previous_deadline :: "kvm_timer \<Rightarrow> duration option" where
  "KvmTimer_simulation_previous_deadline self = Some (kt_prev_deadline self)"

definition KvmTimer_simulation_next_deadline :: "kvm_timer \<Rightarrow> duration option" where
  "KvmTimer_simulation_next_deadline self = Some (kt_next_deadline self)"

definition KvmTimer_check_deadline_overrun ::
  "kvm_timer \<Rightarrow> duration \<Rightarrow> 'o send_packet_builder list \<Rightarrow> duration option" where
  "KvmTimer_check_deadline_overrun self send_time upcoming_messages =
     (if send_time > kt_next_deadline self then
        (if upcoming_messages \<noteq> [] \<and> spb_send_time (last upcoming_messages) > send_time
         then Some (spb_send_time (last upcoming_messages))
         else Some send_time)
      else None)"

definition get_tansiv_timer_fd :: "kvm_timer \<Rightarrow> c_int" where
  "get_tansiv_timer_fd self = kt_fd self"

definition kvm_ops :: "('d, 't) chrono \<Rightarrow> (kvm_timer, kvm_env, 'd, 't, 'o) timer_ops" where
  "kvm_ops C = \<lparr>
     t_simulation_now = KvmTimer_simulation_now C,
     t_previous_deadline = KvmTimer_simulation_previous_deadline,
     t_next_deadline = KvmTimer_simulation_next_deadline,
     t_check_overrun = KvmTimer_check_deadline_overrun,
     t_start = KvmTimer_start C,
     t_application_now = KvmTimer_application_now,
     t_stop = KvmTimer_stop,
     t_drop = (\<lambda>self. self)\<rparr>"

interpretation kvm: timer_impl "kvm_ops C" kt_prev_deadline kt_next_deadline for C :: "('d, 't) chrono"
  by unfold_locales
     (auto simp: kvm_ops_def KvmTimer_simulation_previous_deadline_def KvmTimer_simulation_next_deadline_def KvmTimer_check_deadline_overrun_def
        KvmTimer_start_def KvmTimer_set_next_deadline_def bind_eq_Some_conv split: if_splits)

section \<open>Simulation time\<close>

text \<open>Counter ticks converted to nanoseconds, as \<open>simulation_now\<close> does it.\<close>

definition tsc_nanos :: "(rat \<Rightarrow> rat) \<Rightarrow> f64 \<Rightarrow> u64 \<Rightarrow> u64" where
  "tsc_nanos rnd freq w = u64_of_f64 (f64_div rnd (f64_of_u64 rnd w) freq)"

lemma u64_sub_eq: "u64_sub a b = Some c \<longleftrightarrow> b \<le> a \<and> c = a - b"
  by (auto simp: u64_sub_def)

lemma kvm_simulation_now_value:
  assumes C: "chrono_laws C ns ts"
    and g: "u64_add (kv_rdtsc env) (kv_tsc_offset env) = Some g"
    and n: "as_nanos (kt_next_deadline st) < 2 ^ 63"
    and x: "x = unat (tsc_nanos (kv_rnd env) (kt_tsc_freq st) (kt_vmx_timer_value st))"
      "as_nanos (kt_next_deadline st) \<le> x"
    and y: "y = unat (tsc_nanos (kv_rnd env) (kt_tsc_freq st) g)" "x \<le> y + as_nanos (kt_next_deadline st)"
    and r: "y + as_nanos (kt_next_deadline st) - x < 2 ^ 63"
  obtains t where "KvmTimer_simulation_now C st env = Some t"
    "as_nanos t = y + as_nanos (kt_next_deadline st) - x"
proof -
  let ?n = "as_nanos (kt_next_deadline st)"
  let ?N = "word_of_nat ?n :: u64"
  let ?X = "tsc_nanos (kv_rnd env) (kt_tsc_freq st) (kt_vmx_timer_value st)"
  let ?Y = "tsc_nanos (kv_rnd env) (kt_tsc_freq st) g"
  have N: "unat ?N = ?n" using n by (simp add: unat_of_nat)
  have s1: "u64_sub ?X ?N = Some (?X - ?N)" using x N by (simp add: u64_sub_eq word_le_nat_alt)
  have o: "unat (?X - ?N) = x - ?n" using x N by (simp add: unat_sub word_le_nat_alt)
  have s2: "u64_sub ?Y (?X - ?N) = Some (?Y - (?X - ?N))"
    using y x o by (simp add: u64_sub_eq word_le_nat_alt)
  have v: "unat (?Y - (?X - ?N)) = y + ?n - x"
    using o y x by (subst unat_sub) (simp_all add: word_le_nat_alt)
  have sv: "sint (?Y - (?X - ?N)) = int (y + ?n - x)"
    using sint_of_unat [of "?Y - (?X - ?N)"] v r by simp
  have nn: "ns (ch_nanoseconds C (?Y - (?X - ?N))) = int (y + ?n - x)"
    using chrono_nanosecondsD [OF C] sv by simp
  have "int (y + ?n - x) < 2 ^ 63" using r by (metis of_nat_less_iff of_nat_numeral of_nat_power)
  then obtain t where t: "ch_to_std C (ch_nanoseconds C (?Y - (?X - ?N))) = Some t"
    "int (as_nanos t) = int (y + ?n - x)"
    using chrono_to_stdD [OF C, of "ch_nanoseconds C (?Y - (?X - ?N))"] nn chrono_max_i64 by auto
  have "KvmTimer_simulation_now C st env = Some t"
    using g s1 s2 t(1) by (simp add: KvmTimer_simulation_now_def tsc_nanos_def)
  then show ?thesis using t(2) that by simp
qed

lemma tsc_nanos_mono:
  assumes "mono rnd" "0 < f" "a \<le> b"
  shows "tsc_nanos rnd (Finite f) a \<le> tsc_nanos rnd (Finite f) b"
proof -
  have "(of_nat (unat a) :: rat) \<le> of_nat (unat b)"
    using assms(3) by (simp only: of_nat_le_iff word_le_nat_alt)
  then have "rnd (of_nat (unat a)) \<le> rnd (of_nat (unat b))" by (rule monoD [OF assms(1)])
  then have "rnd (of_nat (unat a)) / f \<le> rnd (of_nat (unat b)) / f"
    using assms(2) by (simp only: divide_right_mono less_imp_le)
  then have "rnd (rnd (of_nat (unat a)) / f) \<le> rnd (rnd (of_nat (unat b)) / f)" by (rule monoD [OF assms(1)])
  then have "u64_of_f64 (Finite (rnd (rnd (of_nat (unat a)) / f))) \<le> u64_of_f64 (Finite (rnd (rnd (of_nat (unat b)) / f)))"
    by (rule u64_of_f64_mono)
  then show ?thesis
    using assms(2) by (simp only: tsc_nanos_def f64_of_u64_def f64_div.simps less_irrefl if_False order_less_imp_not_eq2 refl)
qed

text \<open>What a defined reading is, from the reading of the counter.\<close>

lemma kvm_simulation_nowD:
  assumes C: "chrono_laws C ns ts" and t: "KvmTimer_simulation_now C st env = Some t"
    and y: "y = tsc_nanos (kv_rnd env) (kt_tsc_freq st) (kv_rdtsc env + kv_tsc_offset env)" "unat y < 2 ^ 63"
    and x: "x = tsc_nanos (kv_rnd env) (kt_tsc_freq st) (kt_vmx_timer_value st) - word_of_nat (as_nanos (kt_next_deadline st))"
  shows "unat (kv_rdtsc env) + unat (kv_tsc_offset env) < 2 ^ 64" "x \<le> y" "as_nanos t = unat (y - x)"
proof -
  have d: "unat (kv_rdtsc env) + unat (kv_tsc_offset env) < 2 ^ 64 \<and> x \<le> y \<and>
      (case ch_to_std C (ch_nanoseconds C (y - x)) of None \<Rightarrow> Some Duration_ZERO | Some val \<Rightarrow> Some val) = Some t"
    using t x y(1)
    by (auto simp: KvmTimer_simulation_now_def u64_add_def u64_sub_def tsc_nanos_def bind_eq_Some_conv split: if_splits option.splits)
  then show le: "unat (kv_rdtsc env) + unat (kv_tsc_offset env) < 2 ^ 64" "x \<le> y" by simp_all
  have u: "unat (y - x) < 2 ^ 63" using le(2) y(2) by (simp add: unat_sub)
  have nn: "ns (ch_nanoseconds C (y - x)) = int (unat (y - x))"
    using chrono_nanosecondsD [OF C] sint_of_unat [OF u] by simp
  have "int (unat (y - x)) < 2 ^ 63" using u by (metis of_nat_less_iff of_nat_numeral of_nat_power)
  then obtain t' where "ch_to_std C (ch_nanoseconds C (y - x)) = Some t'" "int (as_nanos t') = int (unat (y - x))"
    using chrono_to_stdD [OF C, of "ch_nanoseconds C (y - x)"] nn chrono_max_i64 by auto
  with d show "as_nanos t = unat (y - x)" by (auto dest: arg_cong [where f = nat])
qed

lemma kvm_simulation_now_mono:
  assumes C: "chrono_laws C ns ts" and f: "mono (kv_rnd env)" "kt_tsc_freq st = Finite f" "0 < f"
    and t: "KvmTimer_simulation_now C st env = Some t" "KvmTimer_simulation_now C st (env\<lparr>kv_rdtsc := r\<rparr>) = Some t'"
    and r: "kv_rdtsc env \<le> r" "unat (tsc_nanos (kv_rnd env) (Finite f) (r + kv_tsc_offset env)) < 2 ^ 63"
  shows "t \<le> t'"
proof -
  let ?y = "tsc_nanos (kv_rnd env) (Finite f) (kv_rdtsc env + kv_tsc_offset env)"
  let ?y' = "tsc_nanos (kv_rnd env) (Finite f) (r + kv_tsc_offset env)"
  let ?x = "tsc_nanos (kv_rnd env) (Finite f) (kt_vmx_timer_value st) - word_of_nat (as_nanos (kt_next_deadline st))"
  have d': "unat r + unat (kv_tsc_offset env) < 2 ^ 64" "?x \<le> ?y'" "as_nanos t' = unat (?y' - ?x)"
    using kvm_simulation_nowD [OF C t(2) refl _ refl] f(2) r(2) by simp_all
  have "kv_rdtsc env + kv_tsc_offset env \<le> r + kv_tsc_offset env"
    using r(1) d'(1) by (simp add: word_le_nat_alt unat_word_ariths)
  then have le: "?y \<le> ?y'" by (rule tsc_nanos_mono [OF f(1,3)])
  then have "unat ?y < 2 ^ 63" using r(2) by (simp add: word_le_nat_alt)
  then have d: "?x \<le> ?y" "as_nanos t = unat (?y - ?x)"
    using kvm_simulation_nowD [OF C t(1) refl _ refl] f(2) by simp_all
  show ?thesis using d d' le by (simp add: duration_le_iff unat_sub word_le_nat_alt)
qed

text \<open>
  \<open>start\<close> takes no reference that \<open>stop\<close> could give back: after one of each, the context's own reference is
  counted out.
\<close>

lemma kvm_stop_unbalanced:
  assumes "KvmTimer_start C st env d = Some (r, st1)"
  shows "kt_strong st1 = kt_strong st"
    "KvmTimer_stop st1 = Some st2 \<longleftrightarrow>
       0 < kt_strong st \<and> st2 = st1\<lparr>kt_closed := kt_closed st1 @ [kt_fd st1], kt_strong := kt_strong st - 1\<rparr>"
proof -
  show e: "kt_strong st1 = kt_strong st"
    using assms by (auto simp: KvmTimer_start_def KvmTimer_set_next_deadline_def bind_eq_Some_conv)
  show "KvmTimer_stop st1 = Some st2 \<longleftrightarrow>
       0 < kt_strong st \<and> st2 = st1\<lparr>kt_closed := kt_closed st1 @ [kt_fd st1], kt_strong := kt_strong st - 1\<rparr>"
    using e by (auto simp: KvmTimer_stop_def bind_eq_Some_conv)
qed

end
