(* ===== verification/Deadline_Handler.thy ===== *)
theory Deadline_Handler
  imports Client_Run Timer_Process Timer_Qemu Timer_Qemukvm
begin

text \<open>
  The entry points the operating system, Qemu or the kernel module call when a deadline is reached:
  \<open>deadline_handler\<close> of the three timer modules, and the registration of the context they work on.

  A \<open>Weak\<close> reference to the context is an \<open>option\<close>: \<open>None\<close> when there is no live context behind it.
  The answers of the clocks at the start and at the end of the handler are separate arguments.
\<close>

section \<open>The process\<close>

text \<open>\<open>INIT\<close> and \<open>CONTEXT\<close> of \<open>timer/process.rs\<close>; the context is registered at most once.\<close>

record 'c process_globals =
  pg_init :: bool
  pg_context :: "'c option"

definition process_register :: "'c process_globals \<Rightarrow> 'c \<Rightarrow> (unit, io_error) result \<times> 'c process_globals" where
  "process_register g context =
     (if \<not> pg_init g then (Ok (), \<lparr>pg_init = True, pg_context = Some context\<rparr>)
      else (Err (IoErr OtherKind ''Implementation only supports a single context''), g))"

definition process_deadline_handler ::
  "('d, 't) chrono \<Rightarrow> ('tid \<Rightarrow> c_int) \<Rightarrow> ('b, 'o) flatbuffers \<Rightarrow> ('q, deliver_packet) array_queue \<Rightarrow>
     ('t, 'tid) process_env \<Rightarrow> ('t, 'tid) process_env \<Rightarrow>
     ('b, 'o, 'q, ('d, 't, 'tid) process_timer) client_context option \<Rightarrow>
     ('b, 'o, 'q, ('d, 't, 'tid) process_timer) client_context option option" where
  "process_deadline_handler C timer_delete F A env1 env2 upgraded =
     (case upgraded of
        None \<Rightarrow> Some None
      | Some context \<Rightarrow> do {
          (freeze_time, timer) \<leftarrow> ProcessTimer_freeze_time C (timer_context context) env1;
          (after, context) \<leftarrow> Context_at_deadline (process_ops C timer_delete) F A (context\<lparr>timer_context := timer\<rparr>);
          case after of
            NextDeadline deadline \<Rightarrow> do {
              (r, timer) \<leftarrow> ProcessTimer_thaw_time_to_deadline C (timer_context context) env2 (Some freeze_time) deadline;
              _ \<leftarrow> unwrap r;
              Some (Some (context\<lparr>timer_context := timer\<rparr>))
            }
          | AfterEndSimulation \<Rightarrow>
              Some (Some (context\<lparr>timer_context := (timer_context context)\<lparr>pt_stopped := True\<rparr>\<rparr>))
        })"

section \<open>Qemu\<close>

definition qemu_deadline_handler ::
  "('d, 't) chrono \<Rightarrow> ('b, 'o) flatbuffers \<Rightarrow> ('q, deliver_packet) array_queue \<Rightarrow>
     ('b, 'o, 'q, 'd qemu_timer) client_context option \<Rightarrow>
     ('b, 'o, 'q, 'd qemu_timer) client_context option option" where
  "qemu_deadline_handler C F A upgraded =
     (case upgraded of
        None \<Rightarrow> Some None
      | Some context \<Rightarrow> do {
          (after, context) \<leftarrow> Context_at_deadline (qemu_ops C) F A context;
          case after of
            NextDeadline deadline \<Rightarrow> do {
              timer \<leftarrow> QemuTimer_set_next_deadline C (timer_context context) deadline;
              Some (Some (context\<lparr>timer_context := timer\<rparr>))
            }
          | AfterEndSimulation \<Rightarrow> Some (Some context)
        })"

section \<open>Qemu with KVM\<close>

text \<open>
  Here the handler gets the context itself; \<open>registered\<close> says whether the reference kept by the timer
  still leads to it. The end of the simulation is a panic.
\<close>

definition kvm_deadline_handler ::
  "('d, 't) chrono \<Rightarrow> ('b, 'o) flatbuffers \<Rightarrow> ('q, deliver_packet) array_queue \<Rightarrow> kvm_env \<Rightarrow> bool \<Rightarrow>
     ('b, 'o, 'q, kvm_timer) client_context \<Rightarrow> u64 \<Rightarrow>
     (u64 \<times> ('b, 'o, 'q, kvm_timer) client_context) option" where
  "kvm_deadline_handler C F A env registered context guest_tsc = do {
     context \<leftarrow> Some (context\<lparr>timer_context := (timer_context context)\<lparr>kt_guest_tsc := guest_tsc\<rparr>\<rparr>);
     context \<leftarrow> (if registered then do {
         (after, context) \<leftarrow> Context_at_deadline (kvm_ops C) F A context;
         case after of
           NextDeadline deadline \<Rightarrow> do {
             timer \<leftarrow> KvmTimer_set_next_deadline (timer_context context) env deadline;
             Some (context\<lparr>timer_context := timer\<rparr>)
           }
         | AfterEndSimulation \<Rightarrow> None
       } else Some context);
     slice \<leftarrow> u64_sub (word_of_nat (as_nanos (kt_next_deadline (timer_context context))))
                (word_of_nat (as_nanos (kt_prev_deadline (timer_context context))));
     Some (slice, context)
   }"

section \<open>Registration\<close>

lemma register_once:
  assumes "process_register g c = (Ok (), g')"
  shows "\<not> pg_init g" "pg_context g' = Some c"
    "process_register g' c' = (Err (IoErr OtherKind ''Implementation only supports a single context''), g')"
  using assms by (auto simp: process_register_def split: if_splits)

section \<open>A deadline of the process\<close>

lemma ctx_inv_timer [simp]: "ctx_inv F V items cap (ctx\<lparr>timer_context := tm\<rparr>) = ctx_inv F V items cap ctx"
  by (simp add: ctx_inv_def)

lemma inbox_timer [simp]: "inbox F items (ctx\<lparr>timer_context := tm\<rparr>) = inbox F items ctx"
  by (simp add: inbox_def)

text \<open>The clock readings of a handler that runs from \<open>t1\<close> to \<open>t2\<close> stay in range.\<close>

definition handler_range ::
  "('d \<Rightarrow> int) \<Rightarrow> ('d, 't, 'tid) process_timer \<Rightarrow> duration \<Rightarrow> duration \<Rightarrow> duration \<Rightarrow> bool" where
  "handler_range ns st t1 t2 d \<longleftrightarrow> t1 \<le> t2 \<and>
     as_nanos t2 + (as_nanos d - as_nanos (pt_next_deadline st)) < duration_bound \<and>
     int (as_nanos t2) - int (as_nanos t1) \<le> chrono_max \<and>
     \<bar>sim_offset ns st - (int (as_nanos t2) - int (as_nanos t1))\<bar> \<le> chrono_max \<and>
     \<bar>app_offset ns st - (int (as_nanos t2) - int (as_nanos t1))\<bar> \<le> chrono_max"

lemma frozen_deadlines:
  assumes "ProcessTimer_freeze_time C st env = Some (t, st')"
  shows "t_previous_deadline (process_ops C td) st' = Some (pt_prev_deadline st)"
    "t_next_deadline (process_ops C td) st' = Some (pt_next_deadline st)"
  using assms
  by (auto simp: ProcessTimer_freeze_time_def bind_eq_Some_conv process_ops_def
      ProcessTimer_simulation_previous_deadline_def ProcessTimer_simulation_next_deadline_def)

text \<open>
  Given what the deadline exchange answered, the handler thaws the clocks to the new deadline;
  simulation time is at \<open>t2\<close> what it was at \<open>t1\<close>.
\<close>

lemma process_handler_next:
  assumes C: "chrono_laws C ns ts" and st: "pt_ok (timer_context ctx)"
    and fr: "ProcessTimer_freeze_time C (timer_context ctx) env1 = Some (t1, st1)"
    and at: "Context_at_deadline (process_ops C td) F A (ctx\<lparr>timer_context := st1\<rparr>) = Some (NextDeadline d, ctx1)"
      "timer_context ctx1 = st1"
    and env: "process_gettime env2 = Some t2" "settime_works env2"
    and d: "pt_next_deadline (timer_context ctx) \<le> d" "handler_range ns (timer_context ctx) t1 t2 d"
  obtains st2 where "process_deadline_handler C td F A env1 env2 (Some ctx) = Some (Some (ctx1\<lparr>timer_context := st2\<rparr>))"
    "pt_ok st2" "\<not> pt_at_deadline st2"
    "int (as_nanos t2) + sim_offset ns st2 = int (as_nanos t1) + sim_offset ns (timer_context ctx)"
    "int (as_nanos t2) + app_offset ns st2 = int (as_nanos t1) + app_offset ns (timer_context ctx)"
    "pt_prev_deadline st2 = pt_next_deadline (timer_context ctx)" "pt_next_deadline st2 = d"
    "lateness ns st2 = lateness ns (timer_context ctx) +
       (int (as_nanos t1) - int (as_nanos (pt_next_deadline_raw (timer_context ctx))))"
proof -
  note r = d(2) [unfolded handler_range_def]
  obtain st2 where t: "ProcessTimer_thaw_time_to_deadline C st1 env2 (Some t1) d = Some (Ok (), st2)"
    "pt_ok st2" "\<not> pt_at_deadline st2"
    "int (as_nanos t2) + sim_offset ns st2 = int (as_nanos t1) + sim_offset ns (timer_context ctx)"
    "int (as_nanos t2) + app_offset ns st2 = int (as_nanos t1) + app_offset ns (timer_context ctx)"
    "pt_prev_deadline st2 = pt_next_deadline (timer_context ctx)" "pt_next_deadline st2 = d"
    "lateness ns st2 = lateness ns (timer_context ctx) +
       (int (as_nanos t1) - int (as_nanos (pt_next_deadline_raw (timer_context ctx))))"
    by (rule freeze_thaw [OF C st fr env _ d(1)]) (use r in simp_all)
  show ?thesis
    by (rule that [OF _ t(2-8)]) (use fr at t(1) in \<open>simp add: process_deadline_handler_def unwrap_def\<close>)
qed

text \<open>
  The end of the simulation sets the flag \<open>stop\<close> waits for; while it is clear \<open>stop\<close> does not return.
\<close>

lemma stop_returns_iff: "ProcessTimer_stop st = Some () \<longleftrightarrow> pt_stopped st"
proof
  show "pt_stopped st \<Longrightarrow> ProcessTimer_stop st = Some ()" by (subst ProcessTimer_stop.simps) simp
  show "ProcessTimer_stop st = Some () \<Longrightarrow> pt_stopped st"
    by (erule ProcessTimer_stop.raw_induct [rotated, where P = "\<lambda>st _. pt_stopped st"])
       (auto split: if_splits)
qed

lemma process_handler_end:
  assumes "ProcessTimer_freeze_time C (timer_context ctx) env1 = Some (t1, st1)"
    and "Context_at_deadline (process_ops C td) F A (ctx\<lparr>timer_context := st1\<rparr>) = Some (AfterEndSimulation, ctx1)"
  shows "process_deadline_handler C td F A env1 env2 (Some ctx) =
    Some (Some (ctx1\<lparr>timer_context := (timer_context ctx1)\<lparr>pt_stopped := True\<rparr>\<rparr>))"
  using assms by (simp add: process_deadline_handler_def)

text \<open>
  A deadline before the current one makes the subtraction of the slice underflow: the handler panics.
\<close>

lemma process_handler_regress:
  assumes fr: "ProcessTimer_freeze_time C (timer_context ctx) env1 = Some (t1, st1)"
    and at: "Context_at_deadline (process_ops C td) F A (ctx\<lparr>timer_context := st1\<rparr>) = Some (NextDeadline d, ctx1)"
      "timer_context ctx1 = st1"
    and d: "d < pt_next_deadline (timer_context ctx)"
  shows "process_deadline_handler C td F A env1 env2 (Some ctx) = None"
proof -
  have "pt_next_deadline st1 = pt_next_deadline (timer_context ctx)"
    using fr by (auto simp: ProcessTimer_freeze_time_def bind_eq_Some_conv)
  then have "Duration_sub d (pt_next_deadline st1) = None" using d by (simp add: Duration_sub_def)
  then have "ProcessTimer_thaw_time_to_deadline C st1 env2 (Some t1) d = None"
    by (cases "process_gettime env2") (simp_all add: ProcessTimer_thaw_time_to_deadline_def)
  with fr at show ?thesis by (simp add: process_deadline_handler_def)
qed

section \<open>A deadline of Qemu\<close>

lemma qemu_handler_next:
  assumes C: "chrono_laws C ns ts"
    and at: "Context_at_deadline (qemu_ops C) F A ctx = Some (NextDeadline d, ctx1)" "timer_context ctx1 = timer_context ctx"
    and armed: "qemu_armed ns (timer_context ctx)"
    and d: "ns (qt_offset (timer_context ctx)) + int (as_nanos d) < 2 ^ 63"
  obtains st2 where "qemu_deadline_handler C F A (Some ctx) = Some (Some (ctx1\<lparr>timer_context := st2\<rparr>))"
    "qemu_armed ns st2" "qt_prev_deadline st2 = qt_next_deadline (timer_context ctx)" "qt_next_deadline st2 = d"
    "qt_offset st2 = qt_offset (timer_context ctx)" "qt_strong st2 = qt_strong (timer_context ctx)"
proof -
  have off: "0 \<le> ns (qt_offset (timer_context ctx))" "ns (qt_offset (timer_context ctx)) < 2 ^ 63"
    using armed by (simp_all add: qemu_armed_def)
  obtain st2 where t: "QemuTimer_set_next_deadline C (timer_context ctx) d = Some st2" "qemu_armed ns st2"
    "qt_prev_deadline st2 = qt_next_deadline (timer_context ctx)" "qt_next_deadline st2 = d"
    "qt_offset st2 = qt_offset (timer_context ctx)" "qt_strong st2 = qt_strong (timer_context ctx)"
    by (rule set_next_deadline_armed [OF C off d])
  show ?thesis by (rule that [OF _ t(2-6)]) (use at t(1) in \<open>simp add: qemu_deadline_handler_def\<close>)
qed

section \<open>A deadline of KVM\<close>

lemma kvm_handler_next:
  assumes at: "Context_at_deadline (kvm_ops C) F A (ctx\<lparr>timer_context := (timer_context ctx)\<lparr>kt_guest_tsc := g\<rparr>\<rparr>) =
      Some (NextDeadline d, ctx1)" "timer_context ctx1 = (timer_context ctx)\<lparr>kt_guest_tsc := g\<rparr>"
    and d: "kt_next_deadline (timer_context ctx) \<le> d" "as_nanos d < 2 ^ 64"
  obtains st2 where "kvm_deadline_handler C F A env True ctx g =
      Some (word_of_nat (as_nanos d - as_nanos (kt_next_deadline (timer_context ctx))), ctx1\<lparr>timer_context := st2\<rparr>)"
    "kt_prev_deadline st2 = kt_next_deadline (timer_context ctx)" "kt_next_deadline st2 = d" "kt_guest_tsc st2 = g"
proof -
  let ?n = "kt_next_deadline (timer_context ctx)"
  have le: "as_nanos ?n \<le> as_nanos d" using d(1) by (simp add: duration_le_iff)
  obtain slice where sl: "Duration_sub d ?n = Some slice" using d(1) by (simp add: Duration_sub_def)
  then obtain st2 where t: "KvmTimer_set_next_deadline (timer_context ctx1) env d = Some st2"
    "kt_prev_deadline st2 = ?n" "kt_next_deadline st2 = d" "kt_guest_tsc st2 = g"
    using at(2) by (simp add: KvmTimer_set_next_deadline_def)
  have u: "unat (word_of_nat (as_nanos x) :: u64) = as_nanos x" if "as_nanos x \<le> as_nanos d" for x
    using that d(2) by (simp add: unat_of_nat)
  have "(word_of_nat (as_nanos d) :: u64) - word_of_nat (as_nanos ?n) = word_of_nat (as_nanos d - as_nanos ?n)"
    using le by simp
  moreover have "(word_of_nat (as_nanos ?n) :: u64) \<le> word_of_nat (as_nanos d)"
    using u [OF le] u [of d] le by (simp add: word_le_nat_alt)
  ultimately have "u64_sub (word_of_nat (as_nanos d)) (word_of_nat (as_nanos ?n)) =
      Some (word_of_nat (as_nanos d - as_nanos ?n))" by (simp add: u64_sub_def)
  with at t show ?thesis
    by (intro that [OF _ t(2-4)]) (simp add: kvm_deadline_handler_def)
qed

lemma kvm_handler_end:
  assumes "Context_at_deadline (kvm_ops C) F A (ctx\<lparr>timer_context := (timer_context ctx)\<lparr>kt_guest_tsc := g\<rparr>\<rparr>) =
      Some (AfterEndSimulation, ctx1)"
  shows "kvm_deadline_handler C F A env True ctx g = None"
  using assms by (simp add: kvm_deadline_handler_def)

section \<open>Handlers as steps of the client\<close>

text \<open>
  When the connection works and the actor answers with a deadline, each handler is one deadline of a
  run of the client (after the process has frozen its clocks, and KVM has stored the counter).
  \<open>healthy\<close> collects what is asked of the context and of the actor.
\<close>

definition healthy ::
  "('b, 'o) flatbuffers \<Rightarrow> ('b, 'o) fb_view \<Rightarrow> ('q \<Rightarrow> deliver_packet list) \<Rightarrow> ('q \<Rightarrow> nat) \<Rightarrow>
     ('b, 'o, 'q, 'tm) client_context \<Rightarrow> duration \<Rightarrow> duration \<Rightarrow> packet list \<Rightarrow> after_deadline \<Rightarrow> bool" where
  "healthy F V items cap ctx prev cur pkts after \<longleftrightarrow> ctx_inv F V items cap ctx \<and>
     wr_faults (actor (connector ctx)) = [] \<and> in_time prev cur ctx \<and>
     (\<exists>frs fr rest. rx (actor (connector ctx)) = concat frs @ fr @ rest \<and> packet_frames F pkts frs \<and> control_frame F after fr) \<and>
     length (items (input_queue ctx)) + length pkts < cap (input_queue ctx) \<and> goes_on cur after"

lemma healthy_timer [simp]:
  "healthy F V items cap (ctx\<lparr>timer_context := tm\<rparr>) prev cur pkts after = healthy F V items cap ctx prev cur pkts after"
  by (simp add: healthy_def in_time_def)

lemma healthy_step:
  assumes F: "fb_laws F V" and A: "array_queue_laws A items cap" and h: "healthy F V items cap ctx prev cur pkts after"
    and dl: "slice_of (timer_context ctx) = (prev, cur)"
      "t_previous_deadline T (timer_context ctx) = Some prev" "t_next_deadline T (timer_context ctx) = Some cur"
  obtains ctx1 ws cbs where "Context_at_deadline T F A ctx = Some (after, ctx1)" "timer_context ctx1 = timer_context ctx"
    "\<forall>tm'. slice_of tm' = slice_after (prev, cur) after \<longrightarrow>
       client_step T slice_of F A items cap ctx (EvDeadline prev cur pkts ws after cbs) (ctx1\<lparr>timer_context := tm'\<rparr>)"
proof -
  obtain frs fr rest where rx: "rx (actor (connector ctx)) = concat frs @ fr @ rest" "packet_frames F pkts frs"
    "control_frame F after fr" using h by (auto simp: healthy_def)
  have h': "ctx_inv F V items cap ctx" "wr_faults (actor (connector ctx)) = []" "in_time prev cur ctx"
    "length (items (input_queue ctx)) + length pkts < cap (input_queue ctx)" "goes_on cur after"
    using h by (simp_all add: healthy_def)
  show ?thesis
    by (rule deadline_client_step [where slice_of = slice_of, OF F A h'(1) dl h'(2,3) rx h'(4,5)]) (rule that)
qed

lemma timer_quiet:
  assumes "slice_of tm = slice_of (timer_context ctx)"
  shows "client_step T slice_of F A items cap ctx EvQuiet (ctx\<lparr>timer_context := tm\<rparr>)"
  using c_quiet [of slice_of tm ctx T F A items cap "[]"] assms by simp

abbreviation process_slice :: "('d, 't, 'tid) process_timer \<Rightarrow> duration \<times> duration" where
  "process_slice st \<equiv> (pt_prev_deadline st, pt_next_deadline st)"

abbreviation qemu_slice :: "'d qemu_timer \<Rightarrow> duration \<times> duration" where
  "qemu_slice st \<equiv> (qt_prev_deadline st, qt_next_deadline st)"

abbreviation kvm_slice :: "kvm_timer \<Rightarrow> duration \<times> duration" where
  "kvm_slice st \<equiv> (kt_prev_deadline st, kt_next_deadline st)"

lemma process_handler_run:
  assumes C: "chrono_laws C ns ts" and F: "fb_laws F V" and A: "array_queue_laws A items cap"
    and st: "st = timer_context ctx" "pt_ok st"
    and h: "healthy F V items cap ctx (pt_prev_deadline st) (pt_next_deadline st) pkts (NextDeadline d)"
    and fr: "ProcessTimer_freeze_time C st env1 = Some (t1, st1)"
    and env: "process_gettime env2 = Some t2" "settime_works env2" "handler_range ns st t1 t2 d"
  shows "\<exists>ctx' ws cbs. process_deadline_handler C td F A env1 env2 (Some ctx) = Some (Some ctx') \<and>
    run (client_step (process_ops C td) process_slice F A items cap) ctx
      [EvQuiet, EvDeadline (pt_prev_deadline st) (pt_next_deadline st) pkts ws (NextDeadline d) cbs] ctx' \<and>
    pt_ok (timer_context ctx') \<and>
    int (as_nanos t2) + sim_offset ns (timer_context ctx') = int (as_nanos t1) + sim_offset ns st"
proof -
  let ?T = "process_ops C td" and ?ctx1 = "ctx\<lparr>timer_context := st1\<rparr>"
  have sl: "process_slice st1 = process_slice st"
    using fr by (auto simp: ProcessTimer_freeze_time_def bind_eq_Some_conv)
  have h1: "healthy F V items cap ?ctx1 (pt_prev_deadline st) (pt_next_deadline st) pkts (NextDeadline d)" using h by simp
  have dl: "process_slice (timer_context ?ctx1) = process_slice st"
    "t_previous_deadline ?T (timer_context ?ctx1) = Some (pt_prev_deadline st)"
    "t_next_deadline ?T (timer_context ?ctx1) = Some (pt_next_deadline st)"
    using sl frozen_deadlines [OF fr, of td] by simp_all
  obtain ctx2 ws cbs where c: "Context_at_deadline ?T F A ?ctx1 = Some (NextDeadline d, ctx2)"
    "timer_context ctx2 = timer_context ?ctx1"
    "\<forall>tm'. process_slice tm' = slice_after (process_slice st) (NextDeadline d) \<longrightarrow>
       client_step ?T process_slice F A items cap ?ctx1
         (EvDeadline (pt_prev_deadline st) (pt_next_deadline st) pkts ws (NextDeadline d) cbs) (ctx2\<lparr>timer_context := tm'\<rparr>)"
    by (rule healthy_step [where slice_of = process_slice and T = ?T, OF F A h1 dl])
  have le: "pt_next_deadline (timer_context ctx) \<le> d" using h st(1) by (simp add: healthy_def)
  obtain st2 where s: "process_deadline_handler C td F A env1 env2 (Some ctx) = Some (Some (ctx2\<lparr>timer_context := st2\<rparr>))"
    "pt_ok st2" "\<not> pt_at_deadline st2"
    "int (as_nanos t2) + sim_offset ns st2 = int (as_nanos t1) + sim_offset ns (timer_context ctx)"
    "int (as_nanos t2) + app_offset ns st2 = int (as_nanos t1) + app_offset ns (timer_context ctx)"
    "pt_prev_deadline st2 = pt_next_deadline (timer_context ctx)" "pt_next_deadline st2 = d"
    by (rule process_handler_next [OF C st(2) [unfolded st(1)] fr [unfolded st(1)] c(1) _ env(1,2) le env(3) [unfolded st(1)]])
       (use c(2) in simp)
  have "client_step ?T process_slice F A items cap ctx EvQuiet ?ctx1" by (rule timer_quiet) (use sl st(1) in simp)
  moreover have "process_slice st2 = slice_after (process_slice st) (NextDeadline d)" using s(6,7) st(1) by simp
  then have "client_step ?T process_slice F A items cap ?ctx1 (EvDeadline (pt_prev_deadline st) (pt_next_deadline st) pkts ws
      (NextDeadline d) cbs) (ctx2\<lparr>timer_context := st2\<rparr>)" by (rule c(3) [rule_format])
  ultimately have "run (client_step ?T process_slice F A items cap) ctx [EvQuiet, EvDeadline (pt_prev_deadline st)
      (pt_next_deadline st) pkts ws (NextDeadline d) cbs] (ctx2\<lparr>timer_context := st2\<rparr>)" by (rule run_two)
  with s(1,2,4) st(1) show ?thesis by auto
qed

lemma qemu_handler_run:
  assumes C: "chrono_laws C ns ts" and F: "fb_laws F V" and A: "array_queue_laws A items cap"
    and st: "st = timer_context ctx" "qemu_armed ns st" "ns (qt_offset st) + int (as_nanos d) < 2 ^ 63"
    and h: "healthy F V items cap ctx (qt_prev_deadline st) (qt_next_deadline st) pkts (NextDeadline d)"
  shows "\<exists>ctx' ws cbs. qemu_deadline_handler C F A (Some ctx) = Some (Some ctx') \<and>
    run (client_step (qemu_ops C) qemu_slice F A items cap) ctx
      [EvDeadline (qt_prev_deadline st) (qt_next_deadline st) pkts ws (NextDeadline d) cbs] ctx' \<and>
    qemu_armed ns (timer_context ctx')"
proof -
  have dl: "qemu_slice (timer_context ctx) = qemu_slice st"
    "t_previous_deadline (qemu_ops C) (timer_context ctx) = Some (qt_prev_deadline st)"
    "t_next_deadline (qemu_ops C) (timer_context ctx) = Some (qt_next_deadline st)"
    using st(1) by (simp_all add: qemu_ops_def QemuTimer_simulation_previous_deadline_def QemuTimer_simulation_next_deadline_def)
  obtain ctx1 ws cbs where c: "Context_at_deadline (qemu_ops C) F A ctx = Some (NextDeadline d, ctx1)"
    "timer_context ctx1 = timer_context ctx"
    "\<forall>tm'. qemu_slice tm' = slice_after (qemu_slice st) (NextDeadline d) \<longrightarrow>
       client_step (qemu_ops C) qemu_slice F A items cap ctx
         (EvDeadline (qt_prev_deadline st) (qt_next_deadline st) pkts ws (NextDeadline d) cbs) (ctx1\<lparr>timer_context := tm'\<rparr>)"
    by (rule healthy_step [where slice_of = qemu_slice and T = "qemu_ops C", OF F A h dl])
  obtain st2 where s: "qemu_deadline_handler C F A (Some ctx) = Some (Some (ctx1\<lparr>timer_context := st2\<rparr>))"
    "qemu_armed ns st2" "qt_prev_deadline st2 = qt_next_deadline (timer_context ctx)" "qt_next_deadline st2 = d"
    by (rule qemu_handler_next [OF C c(1,2)]) (use st in simp_all)
  have "qemu_slice st2 = slice_after (qemu_slice st) (NextDeadline d)" using s(3,4) st(1) by simp
  with c(3) have "client_step (qemu_ops C) qemu_slice F A items cap ctx (EvDeadline (qt_prev_deadline st) (qt_next_deadline st)
      pkts ws (NextDeadline d) cbs) (ctx1\<lparr>timer_context := st2\<rparr>)" by blast
  from run_one [of "client_step (qemu_ops C) qemu_slice F A items cap", OF this] s(1,2) show ?thesis by auto
qed

lemma kvm_handler_run:
  assumes F: "fb_laws F V" and A: "array_queue_laws A items cap"
    and st: "st = timer_context ctx" "as_nanos d < 2 ^ 64"
    and h: "healthy F V items cap ctx (kt_prev_deadline st) (kt_next_deadline st) pkts (NextDeadline d)"
  shows "\<exists>ctx' ws cbs. kvm_deadline_handler C F A env True ctx g =
      Some (word_of_nat (as_nanos d - as_nanos (kt_next_deadline st)), ctx') \<and>
    run (client_step (kvm_ops C) kvm_slice F A items cap) ctx
      [EvQuiet, EvDeadline (kt_prev_deadline st) (kt_next_deadline st) pkts ws (NextDeadline d) cbs] ctx'"
proof -
  let ?T = "kvm_ops C" and ?ctx1 = "ctx\<lparr>timer_context := st\<lparr>kt_guest_tsc := g\<rparr>\<rparr>"
  have h1: "healthy F V items cap ?ctx1 (kt_prev_deadline st) (kt_next_deadline st) pkts (NextDeadline d)" using h by simp
  have dl: "kvm_slice (timer_context ?ctx1) = kvm_slice st"
    "t_previous_deadline ?T (timer_context ?ctx1) = Some (kt_prev_deadline st)"
    "t_next_deadline ?T (timer_context ?ctx1) = Some (kt_next_deadline st)"
    by (simp_all add: kvm_ops_def KvmTimer_simulation_previous_deadline_def KvmTimer_simulation_next_deadline_def)
  obtain ctx2 ws cbs where c: "Context_at_deadline ?T F A ?ctx1 = Some (NextDeadline d, ctx2)"
    "timer_context ctx2 = timer_context ?ctx1"
    "\<forall>tm'. kvm_slice tm' = slice_after (kvm_slice st) (NextDeadline d) \<longrightarrow>
       client_step ?T kvm_slice F A items cap ?ctx1
         (EvDeadline (kt_prev_deadline st) (kt_next_deadline st) pkts ws (NextDeadline d) cbs) (ctx2\<lparr>timer_context := tm'\<rparr>)"
    by (rule healthy_step [where slice_of = kvm_slice and T = ?T, OF F A h1 dl])
  have le: "kt_next_deadline (timer_context ctx) \<le> d" using h st(1) by (simp add: healthy_def)
  obtain st2 where s: "kvm_deadline_handler C F A env True ctx g =
      Some (word_of_nat (as_nanos d - as_nanos (kt_next_deadline (timer_context ctx))), ctx2\<lparr>timer_context := st2\<rparr>)"
    "kt_prev_deadline st2 = kt_next_deadline (timer_context ctx)" "kt_next_deadline st2 = d"
    by (rule kvm_handler_next [where C = C and env = env, OF _ _ le st(2)]) (use c(1,2) st(1) in simp_all)
  have "client_step ?T kvm_slice F A items cap ctx EvQuiet ?ctx1" by (rule timer_quiet) (use st(1) in simp)
  moreover have "kvm_slice st2 = slice_after (kvm_slice st) (NextDeadline d)" using s(2,3) st(1) by simp
  then have "client_step ?T kvm_slice F A items cap ?ctx1 (EvDeadline (kt_prev_deadline st) (kt_next_deadline st) pkts ws
      (NextDeadline d) cbs) (ctx2\<lparr>timer_context := st2\<rparr>)" by (rule c(3) [rule_format])
  ultimately have "run (client_step ?T kvm_slice F A items cap) ctx [EvQuiet, EvDeadline (kt_prev_deadline st)
      (kt_next_deadline st) pkts ws (NextDeadline d) cbs] (ctx2\<lparr>timer_context := st2\<rparr>)" by (rule run_two)
  with s(1) st(1) show ?thesis by auto
qed

end
