(* ===== verification/C_Api.thy ===== *)
theory C_Api
  imports Context_Deadline Libc_Timer
begin

text \<open>
  The C interface of \<open>capi/src/lib.rs\<close>. A pointer is an \<open>option\<close>: \<open>None\<close> is \<open>NULL\<close> and \<open>Some x\<close> points to
  \<open>x\<close>; a function returns the new content of what its pointers lead to. A \<open>msg\<close> pointer leads to the
  bytes of the memory it may access; using more than there are is the undefined behaviour the "Safety"
  comments exclude, and is \<open>None\<close> here like a panic.

  The return codes are those of Linux.
\<close>

abbreviation EIO :: c_int where "EIO \<equiv> 5"
abbreviation EAGAIN :: c_int where "EAGAIN \<equiv> 11"
abbreviation ENOMEM :: c_int where "ENOMEM \<equiv> 12"
abbreviation EINVAL :: c_int where "EINVAL \<equiv> 22"
abbreviation EPROTO :: c_int where "EPROTO \<equiv> 71"
abbreviation EMSGSIZE :: c_int where "EMSGSIZE \<equiv> 90"
abbreviation EALREADY :: c_int where "EALREADY \<equiv> 114"

section \<open>Creation\<close>

text \<open>
  The iterator of \<open>parse_os_args\<close>: the arguments before the first \<open>--\<close>, and the position after it.
\<close>

fun scan_args :: "int \<Rightarrow> int option \<Rightarrow> string list \<Rightarrow> string list \<times> int option" where
  "scan_args i next_arg [] = ([], next_arg)"
| "scan_args i next_arg (str_arg # argv) =
     (let next_arg = (if next_arg = None \<and> str_arg = ''--'' then Some (i + 1) else next_arg);
          (args, last) = scan_args (i + 1) next_arg argv
      in (if next_arg = None then str_arg # args else args, last))"

definition parse_os_args ::
  "int \<Rightarrow> string list \<Rightarrow> (string list \<Rightarrow> ('a, error) result option) \<Rightarrow> ('a \<times> int, error) result option" where
  "parse_os_args argc argv parse = do {
     assert_that (nat argc \<le> length argv);
     (args, next_arg) \<leftarrow> Some (scan_args 0 None (take (nat argc) argv));
     res \<leftarrow> parse args;
     case res of
       Inr r \<Rightarrow> Some (Ok (r, case next_arg of Some n \<Rightarrow> n | None \<Rightarrow> argc))
     | Inl e \<Rightarrow> Some (Err e)
   }"

definition capi_duration_to_timespec :: "duration \<Rightarrow> timespec" where
  "capi_duration_to_timespec duration = \<lparr>tv_sec = as_secs duration, tv_nsec = ucast (subsec_nanos duration)\<rparr>"

text \<open>The calls the wrapped callbacks make to the C functions, with the arguments given at creation.\<close>

datatype 'u c_call = CRecvCallback 'u | CDeadlineCallback 'u timespec

fun c_call_of :: "'u \<Rightarrow> 'u \<Rightarrow> callback \<Rightarrow> 'u c_call" where
  "c_call_of recv_callback_arg deadline_callback_arg RecvCallback = CRecvCallback recv_callback_arg"
| "c_call_of recv_callback_arg deadline_callback_arg (DeadlineCallback deadline) =
     CDeadlineCallback deadline_callback_arg (capi_duration_to_timespec deadline)"

definition vsg_init ::
  "('b, 'o) flatbuffers \<Rightarrow> ('q, deliver_packet) array_queue \<Rightarrow> (string \<Rightarrow> (unix_stream, io_error) result) \<Rightarrow>
     ('tm, io_error) result \<Rightarrow> (unit, io_error) result \<Rightarrow> (string list \<Rightarrow> ('t config, string) result) \<Rightarrow>
     int \<Rightarrow> string list \<Rightarrow> int option \<Rightarrow> (('b, 'o, 'q, 'tm) client_context option \<times> int option) option" where
  "vsg_init F A connect timer_new register from_iter_safe argc argv next_arg_p = do {
     r \<leftarrow> parse_os_args argc argv (client_init F A connect timer_new register from_iter_safe);
     case r of
       Inr (context, next_arg) \<Rightarrow> Some (Some context, map_option (\<lambda>_. next_arg) next_arg_p)
     | Inl e \<Rightarrow> Some (None, next_arg_p)
   }"

text \<open>Dropping the only reference drops the context and with it the timer, which is returned.\<close>

definition vsg_cleanup ::
  "('tm, 'now, 'd, 't, 'o) timer_ops \<Rightarrow> ('b, 'o, 'q, 'tm) client_context option \<Rightarrow> 'tm option" where
  "vsg_cleanup T context = map_option (\<lambda>c. t_drop T (timer_context c)) context"

section \<open>Start and stop\<close>

fun start_errno :: "error \<Rightarrow> c_int" where
  "start_errno AlreadyStarted = EALREADY"
| "start_errno NoMemoryAvailable = ENOMEM"
| "start_errno ProtocolViolation = EPROTO"
| "start_errno SizeTooBig = EMSGSIZE"
| "start_errno _ = EIO"

definition vsg_start ::
  "('d, 't) chrono \<Rightarrow> ('tm, 'now, 'd, 't, 'o) timer_ops \<Rightarrow> ('b, 'o) flatbuffers \<Rightarrow>
     ('b, 'o, 'q, 'tm) client_context option \<Rightarrow> 'now \<Rightarrow> timespec option \<Rightarrow>
     (c_int \<times> timespec option \<times> ('b, 'o, 'q, 'tm) client_context option) option" where
  "vsg_start C T F context now offset =
     (case context of
        None \<Rightarrow> Some (EINVAL, offset, None)
      | Some context \<Rightarrow> do {
          (r, context) \<leftarrow> Context_start T F context now;
          case r of
            Inr off \<Rightarrow> do {
              num_seconds \<leftarrow> Some (ch_num_seconds C off);
              s \<leftarrow> ch_seconds C num_seconds;
              rest \<leftarrow> ch_sub C off s;
              num_subsec_nanos \<leftarrow> ch_num_nanoseconds C rest;
              Some (0, map_option (\<lambda>_. \<lparr>tv_sec = num_seconds, tv_nsec = num_subsec_nanos\<rparr>) offset, Some context)
            }
          | Inl e \<Rightarrow> Some (start_errno e, offset, Some context)
        })"

definition vsg_stop ::
  "('tm, 'now, 'd, 't, 'o) timer_ops \<Rightarrow> ('b, 'o, 'q, 'tm) client_context option \<Rightarrow>
     (c_int \<times> ('b, 'o, 'q, 'tm) client_context option) option" where
  "vsg_stop T context =
     (case context of
        None \<Rightarrow> Some (EINVAL, None)
      | Some context \<Rightarrow> do {
          context \<leftarrow> Context_stop T context;
          Some (0, Some context)
        })"

definition vsg_gettimeofday ::
  "('d, 't) chrono \<Rightarrow> ('tm, 'now, 'd, 't, 'o) timer_ops \<Rightarrow> ('b, 'o, 'q, 'tm) client_context option \<Rightarrow> 'now \<Rightarrow>
     timeval option \<Rightarrow> (c_int \<times> timeval option) option" where
  "vsg_gettimeofday C T context now tv =
     (case context of
        None \<Rightarrow> Some (EINVAL, tv)
      | Some context \<Rightarrow>
          (case tv of
             None \<Rightarrow> Some (0, None)
           | Some _ \<Rightarrow> do {
               t \<leftarrow> Context_gettimeofday C T context now;
               Some (0, Some t)
             }))"

section \<open>Messages\<close>

text \<open>\<open>from_raw_parts\<close>: no memory is touched when the length is 0.\<close>

definition raw_slice :: "bytes option \<Rightarrow> u32 \<Rightarrow> bytes option" where
  "raw_slice ptr len =
     (if len = 0 then Some []
      else do {
        mem \<leftarrow> ptr;
        assert_that (unat len \<le> length mem);
        Some (take (unat len) mem)
      })"

fun send_errno :: "error \<Rightarrow> c_int" where
  "send_errno NoMemoryAvailable = ENOMEM"
| "send_errno SizeTooBig = EMSGSIZE"
| "send_errno _ = EIO"

definition vsg_send ::
  "('tm, 'now, 'd, 't, 'o) timer_ops \<Rightarrow> ('b, 'o) flatbuffers \<Rightarrow> ('b, 'o, 'q, 'tm) client_context option \<Rightarrow> 'now \<Rightarrow>
     in_addr_t \<Rightarrow> u32 \<Rightarrow> bytes option \<Rightarrow> (c_int \<times> ('b, 'o, 'q, 'tm) client_context option) option" where
  "vsg_send T F context now dst msglen msg =
     (case context of
        None \<Rightarrow> Some (EINVAL, None)
      | Some context \<Rightarrow>
          (if msglen \<noteq> 0 \<and> msg = None then Some (EINVAL, Some context)
           else do {
             payload \<leftarrow> raw_slice msg msglen;
             (r, context) \<leftarrow> Context_send T F context now dst payload;
             Some (case r of Inr _ \<Rightarrow> 0 | Inl e \<Rightarrow> send_errno e, Some context)
           }))"

fun recv_errno :: "error \<Rightarrow> c_int" where
  "recv_errno NoMessageAvailable = EAGAIN"
| "recv_errno SizeTooBig = EMSGSIZE"
| "recv_errno _ = EIO"

text \<open>What the pointers given to \<open>vsg_recv\<close> lead to.\<close>

record recv_args =
  ra_psrc :: "in_addr_t option"
  ra_pdst :: "in_addr_t option"
  ra_msglen :: "u32 option"
  ra_msg :: "bytes option"

definition vsg_recv ::
  "('b, 'o) flatbuffers \<Rightarrow> ('q, deliver_packet) array_queue \<Rightarrow> ('b, 'o, 'q, 'tm) client_context option \<Rightarrow> recv_args \<Rightarrow>
     (c_int \<times> recv_args \<times> ('b, 'o, 'q, 'tm) client_context option) option" where
  "vsg_recv F A context args =
     (case context of
        None \<Rightarrow> Some (EINVAL, args, None)
      | Some context \<Rightarrow>
          let len = (case ra_msglen args of None \<Rightarrow> 0 | Some n \<Rightarrow> n) in
          if len \<noteq> 0 \<and> ra_msg args = None then Some (EINVAL, args, Some context)
          else do {
            slice \<leftarrow> raw_slice (ra_msg args) len;
            (r, slice, context) \<leftarrow> Context_recv F A context slice;
            args \<leftarrow> Some (args\<lparr>ra_msg := map_option (\<lambda>mem. slice @ drop (length slice) mem) (ra_msg args)\<rparr>);
            case r of
              Inr (src, dst, payload) \<Rightarrow>
                Some (0, args\<lparr>ra_psrc := map_option (\<lambda>_. src) (ra_psrc args),
                              ra_pdst := map_option (\<lambda>_. dst) (ra_pdst args),
                              ra_msglen := map_option (\<lambda>_. word_of_nat (length payload)) (ra_msglen args)\<rparr>, Some context)
            | Inl e \<Rightarrow> Some (recv_errno e, args, Some context)
          })"

definition vsg_poll ::
  "('q, deliver_packet) array_queue \<Rightarrow> ('b, 'o, 'q, 'tm) client_context option \<Rightarrow> c_int" where
  "vsg_poll A context =
     (case context of
        None \<Rightarrow> EINVAL
      | Some context \<Rightarrow>
          (case Context_poll A context of
             Some _ \<Rightarrow> 0
           | None \<Rightarrow> EAGAIN))"

section \<open>Arguments\<close>

lemma scan_args_done: "scan_args i (Some n) argv = ([], Some n)"
  by (induction argv arbitrary: i) simp_all

lemma scan_args_spec:
  "scan_args i None argv = (takeWhile (\<lambda>a. a \<noteq> ''--'') argv,
     if ''--'' \<in> set argv then Some (i + int (length (takeWhile (\<lambda>a. a \<noteq> ''--'') argv)) + 1) else None)"
  by (induction argv arbitrary: i) (simp_all add: scan_args_done)

text \<open>
  The arguments up to the first \<open>--\<close> are parsed; the position returned is the one after it, or the end.
\<close>

lemma parse_os_args_spec:
  assumes "0 \<le> argc" "nat argc \<le> length argv"
  shows "parse_os_args argc argv parse =
    (let argv = take (nat argc) argv; args = takeWhile (\<lambda>a. a \<noteq> ''--'') argv in
     map_option (map_sum id (\<lambda>r. (r, if ''--'' \<in> set argv then int (length args) + 1 else argc))) (parse args))"
  using assms
  by (cases "parse (takeWhile (\<lambda>a. a \<noteq> ''--'') (take (nat argc) argv))")
     (auto simp: parse_os_args_def scan_args_spec Let_def split: sum.split)

section \<open>The offset returned by start\<close>

lemma trunc_div_rest: "\<bar>x - trunc_div x (10 ^ 9) * 10 ^ 9\<bar> < 10 ^ 9"
  "0 \<le> x \<Longrightarrow> 0 \<le> x - trunc_div x (10 ^ 9) * 10 ^ 9" "x \<le> 0 \<Longrightarrow> x - trunc_div x (10 ^ 9) * 10 ^ 9 \<le> 0"
proof -
  have e: "x - trunc_div x (10 ^ 9) * 10 ^ 9 = sgn x * (\<bar>x\<bar> mod 10 ^ 9)"
  proof -
    have "sgn x * (\<bar>x\<bar> mod 10 ^ 9) = sgn x * \<bar>x\<bar> - sgn x * (\<bar>x\<bar> div 10 ^ 9 * 10 ^ 9)"
      by (simp only: minus_div_mult_eq_mod [symmetric] right_diff_distrib)
    then show ?thesis by (simp add: trunc_div_def sgn_mult_abs)
  qed
  have m: "0 \<le> \<bar>x\<bar> mod 10 ^ 9" "\<bar>x\<bar> mod 10 ^ 9 < 10 ^ 9" by simp_all
  show "\<bar>x - trunc_div x (10 ^ 9) * 10 ^ 9\<bar> < 10 ^ 9" unfolding e using m by (simp add: abs_mult abs_sgn_eq)
  show "0 \<le> x \<Longrightarrow> 0 \<le> x - trunc_div x (10 ^ 9) * 10 ^ 9" unfolding e using m by (simp add: sgn_if)
  show "x \<le> 0 \<Longrightarrow> x - trunc_div x (10 ^ 9) * 10 ^ 9 \<le> 0" unfolding e using m by (simp add: sgn_if)
qed

text \<open>
  The two fields stored make up the offset. For a negative offset both are negative or zero, so the
  nanoseconds are not those of a normalised \<open>timespec\<close>.
\<close>

lemma vsg_start_offset:
  assumes C: "chrono_laws C ns ts" and st: "Context_start T F ctx now = Some (Ok off, ctx')"
    and r: "\<bar>ns off\<bar> \<le> chrono_max"
  obtains ts where "vsg_start C T F (Some ctx) now (Some old) = Some (0, Some ts, Some ctx')"
    "timespec_nanos ts = ns off" "sint (tv_sec ts) = trunc_div (ns off) (10 ^ 9)"
    "\<bar>sint (tv_nsec ts)\<bar> < 10 ^ 9" "ns off < 0 \<Longrightarrow> sint (tv_nsec ts) \<le> 0" "0 \<le> ns off \<Longrightarrow> 0 \<le> sint (tv_nsec ts)"
proof -
  let ?w = "ch_num_seconds C off" and ?q = "trunc_div (ns off) (10 ^ 9)"
  have w: "sint ?w = ?q" by (rule chrono_num_secondsD [OF C r])
  note t = trunc_div_rest [of "ns off"]
  have "\<bar>?q * 10 ^ 9\<bar> \<le> chrono_max"
  proof -
    have "\<bar>ns off\<bar> div 10 ^ 9 * 10 ^ 9 \<le> \<bar>ns off\<bar>" by (simp add: div_times_less_eq_dividend)
    then have "\<bar>?q * 10 ^ 9\<bar> \<le> \<bar>ns off\<bar>" by (cases "ns off = 0") (simp_all add: trunc_div_def abs_mult)
    with r show ?thesis by linarith
  qed
  then obtain z where z: "ch_seconds C ?w = Some z" "ns z = ?q * 10 ^ 9"
    using chrono_secondsD [OF C, of ?w] w by auto
  have "\<bar>ns off - ns z\<bar> \<le> chrono_max" using t(1) z(2) by (simp add: chrono_max_def)
  then obtain y where y: "ch_sub C off z = Some y" "ns y = ns off - ?q * 10 ^ 9"
    using chrono_subD [OF C] z(2) by force
  have "- (2 ^ 63) \<le> ns y" "ns y < 2 ^ 63" using t(1) y(2) by (simp_all add: abs_less_iff)
  then obtain n where n: "ch_num_nanoseconds C y = Some n" "sint n = ns y"
    using chrono_num_nanosecondsD [OF C, of y] by auto
  show ?thesis
    by (rule that [of "\<lparr>tv_sec = ?w, tv_nsec = n\<rparr>"])
       (use st w z y n t in \<open>simp_all add: vsg_start_def timespec_nanos_def\<close>)
qed

section \<open>Sending\<close>

lemma raw_slice_mem: "raw_slice (Some mem) len = (if unat len \<le> length mem then Some (take (unat len) mem) else None)"
  by (auto simp: raw_slice_def unat_eq_zero)

text \<open>The return code of \<open>vsg_send\<close> on a context and memory as its comment requires.\<close>

lemma vsg_send_code:
  assumes F: "fb_laws F V" and inv: "ctx_inv F V items cap ctx"
    and now: "t_simulation_now T (timer_context ctx) now = Some t" and mem: "unat msglen \<le> length mem"
  shows "\<exists>ctx'. vsg_send T F (Some ctx) now dst msglen (Some mem) =
      Some (if MAX_PACKET_SIZE < unat msglen then EMSGSIZE
            else if num_buffers_of (output_buffer_pool ctx) \<le> waiting_messages ctx then ENOMEM else 0, Some ctx') \<and>
    ctx_inv F V items cap ctx'"
proof -
  let ?p = "take (unat msglen) mem"
  have len: "length ?p = unat msglen" using mem by simp
  have slice: "raw_slice (Some mem) msglen = Some ?p" using mem by (simp add: raw_slice_mem)
  consider "MAX_PACKET_SIZE < unat msglen"
    | "unat msglen \<le> MAX_PACKET_SIZE" "num_buffers_of (output_buffer_pool ctx) \<le> waiting_messages ctx"
    | "unat msglen \<le> MAX_PACKET_SIZE" "waiting_messages ctx < num_buffers_of (output_buffer_pool ctx)" by linarith
  then show ?thesis
  proof cases
    case 1
    with send_too_big [OF inv now, where msg = ?p and dst = dst] len slice inv show ?thesis by (simp add: vsg_send_def)
  next
    case 2
    with send_full [OF inv now, where msg = ?p and dst = dst] len slice inv show ?thesis by (simp add: vsg_send_def)
  next
    case 3
    have p: "length ?p \<le> MAX_PACKET_SIZE" using 3 len by simp
    obtain ctx' where "Context_send T F ctx now dst ?p = Some (Ok (), ctx')" "ctx_inv F V items cap ctx'"
      using send_room [OF F inv now p 3(2), of dst] by metis
    with 3 slice show ?thesis by (simp add: vsg_send_def)
  qed
qed

section \<open>Receiving\<close>

text \<open>
  The first packet of the inbox: it is copied to the caller's memory if it fits, and lost if not.
\<close>

lemma vsg_recv_first:
  assumes A: "array_queue_laws A items cap" and inv: "ctx_inv F V items cap ctx"
    and box: "inbox F items ctx = Some (src, dst, p) # rest"
    and args: "ra_msglen args = Some len" "ra_msg args = Some mem" "unat len \<le> length mem"
  obtains ctx' where "inbox F items ctx' = rest" "ctx_inv F V items cap ctx'"
    "vsg_recv F A (Some ctx) args =
       (if length p \<le> unat len
        then Some (0, args\<lparr>ra_psrc := map_option (\<lambda>_. src) (ra_psrc args), ra_pdst := map_option (\<lambda>_. dst) (ra_pdst args),
                            ra_msglen := Some (word_of_nat (length p)), ra_msg := Some (p @ drop (length p) mem)\<rparr>, Some ctx')
        else Some (EMSGSIZE, args, Some ctx'))"
proof -
  let ?s = "take (unat len) mem"
  obtain ctx' where r: "Context_recv F A ctx ?s = Some (if length p \<le> length ?s
       then (Ok (src, dst, p), p @ drop (length p) ?s, ctx') else (Err SizeTooBig, ?s, ctx'))"
    "inbox F items ctx' = rest" "ctx_inv F V items cap ctx'"
    by (rule recv_first [OF A inv box])
  have slice: "raw_slice (Some mem) len = Some ?s" using args(3) by (simp add: raw_slice_mem)
  have l: "length ?s = unat len" using args(3) by simp
  have d: "drop (length p) ?s @ drop (length p + length (drop (length p) ?s)) mem = drop (length p) mem"
    if "length p \<le> unat len"
  proof -
    have "take (unat len - length p) (drop (length p) mem) @ drop (unat len - length p) (drop (length p) mem) =
        drop (length p) mem" by (rule append_take_drop_id)
    with that args(3) show ?thesis by (simp add: drop_take)
  qed
  have same: "args\<lparr>ra_msg := Some mem\<rparr> = args" using args(2) by simp
  show ?thesis
    by (rule that [OF r(2,3)])
       (use r(1) args slice l d same in \<open>auto simp: vsg_recv_def Let_def simp del: length_take length_drop\<close>)
qed

lemma vsg_recv_empty:
  assumes A: "array_queue_laws A items cap" and "inbox F items ctx = []"
    and "ra_msglen args = Some len" "ra_msg args = Some mem" "unat len \<le> length mem"
  shows "vsg_recv F A (Some ctx) args = Some (EAGAIN, args, Some ctx)"
proof -
  have "args\<lparr>ra_msg := Some mem\<rparr> = args" using assms(4) by simp
  with recv_empty [OF assms(1,2)] assms(3-5) show ?thesis by (simp add: vsg_recv_def raw_slice_mem Let_def)
qed

lemma vsg_poll_iff:
  "array_queue_laws A items cap \<Longrightarrow> vsg_poll A (Some ctx) = (if inbox F items ctx = [] then EAGAIN else 0)"
  by (simp add: vsg_poll_def Context_poll_def inbox_empty [of A items cap ctx F])

end
