(* ===== verification/Test_Actor.thy ===== *)
theory Test_Actor
  imports Client_Run Vsg_Address Seq_Lock
begin

text \<open>
  The other end of the socket as the crate's own test helpers implement it (feature \<open>test-helpers\<close>):
  the actor of \<open>connector/unix.rs\<close>, the actor scripts of \<open>lib.rs\<close> and the notifiers tests use as callbacks.

  It is the only peer of the client in this repository that is written against the same message code, so it
  closes the loop: what the client writes at a deadline is exactly what the actor reads, and what the
  actor writes is what the client acts on.

  The stream is the actor's view: \<open>rx\<close> holds what the client writes, \<open>tx\<close> what the actor wrote.
\<close>

section \<open>The actor\<close>

record test_error =
  te_error :: error
  te_context :: string

definition TestError_fmt :: "test_error \<Rightarrow> string" where
  "TestError_fmt self = te_context self @ '': '' @ Error_fmt (te_error self)"

type_synonym 'a test_result = "('a, test_error) result"

record 'b test_actor =
  ta_client :: unix_stream
  ta_input_buffer_pool :: bytes_pool
  ta_input_fb_buffer_pool :: "'b fb_pool"

definition TestActor_new :: "('b, 'o) flatbuffers \<Rightarrow> unix_stream \<Rightarrow> 'b test_actor option" where
  "TestActor_new F client = do {
     bpool \<leftarrow> BufferPool_new BytesBuffer MAX_PACKET_SIZE 100;
     fpool \<leftarrow> BufferPool_new (FbBuffer F) MAX_PACKET_SIZE 100;
     Some \<lparr>ta_client = client, ta_input_buffer_pool = bpool, ta_input_fb_buffer_pool = fpool\<rparr>
   }"

text \<open>\<open>into\<close> is the conversion of the error type into \<open>crate::error::Error\<close>.\<close>

definition TestActor_check :: "('e \<Rightarrow> error) \<Rightarrow> ('a, 'e) result \<Rightarrow> string \<Rightarrow> 'a test_result" where
  "TestActor_check into r ctx = map_sum (\<lambda>e. \<lparr>te_error = into e, te_context = ctx\<rparr>) id r"

definition TestActor_check_eq :: "'a \<Rightarrow> 'a \<Rightarrow> string \<Rightarrow> unit test_result" where
  "TestActor_check_eq left right ctx =
     TestActor_check IoError (if left = right then Ok () else Err (IoErr InvalidData ''Values do not match'')) ctx"

definition dummy_actor :: "'b test_actor \<Rightarrow> (unit test_result \<times> 'b test_actor) option" where
  "dummy_actor ta = Some (Ok (), ta)"

text \<open>A packet to send lives in a pool of its own, \<open>bpool\<close>; the other messages leave it alone.\<close>

definition TestActor_send ::
  "('b, 'o) flatbuffers \<Rightarrow> bytes_pool \<Rightarrow> 'b test_actor \<Rightarrow> msg_in \<Rightarrow>
     (unit test_result \<times> bytes_pool \<times> 'b test_actor) option" where
  "TestActor_send F bpool self m = do {
     (r, stream, bpool, fpool) \<leftarrow> MsgIn_send F bpool m (ta_client self) (ta_input_fb_buffer_pool self);
     Some (TestActor_check IoError r ''Send failed'', bpool,
           self\<lparr>ta_client := stream, ta_input_fb_buffer_pool := fpool\<rparr>)
   }"

definition TestActor_recv ::
  "('b, 'o) flatbuffers \<Rightarrow> 'b test_actor \<Rightarrow> (msg_out test_result \<times> 'b test_actor) option" where
  "TestActor_recv F self = do {
     (r, stream, bpool, fpool) \<leftarrow> MsgOut_recv F (ta_client self) (ta_input_buffer_pool self) (ta_input_fb_buffer_pool self);
     Some (TestActor_check IoError r ''Recv failed'',
           \<lparr>ta_client = stream, ta_input_buffer_pool = bpool, ta_input_fb_buffer_pool = fpool\<rparr>)
   }"

text \<open>
  \<open>accept\<close> is what the listening socket returned and \<open>shutdown\<close> the result of that call. After it
  the actor reads until the client closes its end.
\<close>

definition TestActor_run ::
  "('b, 'o) flatbuffers \<Rightarrow> (unix_stream, io_error) result \<Rightarrow> (unit, io_error) result \<Rightarrow>
     ('b test_actor \<Rightarrow> (unit test_result \<times> 'b test_actor) option) \<Rightarrow>
     (unit test_result \<times> 'b test_actor option) option" where
  "TestActor_run F accept shutdown actor_fn =
     (case accept of
        Inr client \<Rightarrow> do {
          ta \<leftarrow> TestActor_new F client;
          (r, ta) \<leftarrow> actor_fn ta;
          case r of
            Inl e \<Rightarrow> Some (Err e, Some ta)
          | Inr _ \<Rightarrow>
              Some (Ok (), Some (case shutdown of
                  Inl _ \<Rightarrow> ta
                | Inr _ \<Rightarrow> ta\<lparr>ta_client := (ta_client ta)\<lparr>rx := []\<rparr>\<rparr>))
        }
      | Inl e \<Rightarrow> Some (Err \<lparr>te_error = IoError e, te_context = ''Failed to accept connection''\<rparr>, None))"

section \<open>Addresses\<close>

definition local_vsg_address_str :: string where
  "local_vsg_address_str = ''10.0.0.1''"

definition local_vsg_address :: "in_addr_t option" where
  "local_vsg_address = map_option (\<lambda>ip. swap_bytes (u32_of_ipv4addr ip)) (Ipv4Addr_from_str local_vsg_address_str)"

definition remote_vsg_address :: in_addr_t where
  "remote_vsg_address = swap_bytes (u32_of_ipv4addr \<lparr>ip_a = 10, ip_b = 0, ip_c = 1, ip_d = 1\<rparr>)"

section \<open>Scripts\<close>

text \<open>A control message, which is in no pool.\<close>

abbreviation no_pool :: bytes_pool where
  "no_pool \<equiv> \<lparr>buffer_size = 0, buffers = [], buffer_busy = []\<rparr>"

definition send_control ::
  "('b, 'o) flatbuffers \<Rightarrow> 'b test_actor \<Rightarrow> msg_in \<Rightarrow> (unit test_result \<times> 'b test_actor) option" where
  "send_control F ta m = map_option (\<lambda>(r, _, ta). (r, ta)) (TestActor_send F no_pool ta m)"

definition START_ACTOR_DEADLINE :: duration where
  "START_ACTOR_DEADLINE = dur 100000"

definition start_actor :: "('b, 'o) flatbuffers \<Rightarrow> 'b test_actor \<Rightarrow> (unit test_result \<times> 'b test_actor) option" where
  "start_actor F ta = do {
     (r, ta) \<leftarrow> send_control F ta (GoToDeadline START_ACTOR_DEADLINE);
     case r of
       Inl e \<Rightarrow> Some (Err e, ta)
     | Inr _ \<Rightarrow> send_control F ta EndSimulation
   }"

text \<open>A packet received is dropped by the scripts that do not use it.\<close>

definition drop_packet :: "'b test_actor \<Rightarrow> send_packet \<Rightarrow> 'b test_actor option" where
  "drop_packet ta sp = do {
     fpool \<leftarrow> Buffer_drop (ta_input_fb_buffer_pool ta) (sp_inner sp);
     Some (ta\<lparr>ta_input_fb_buffer_pool := fpool\<rparr>)
   }"

lemma MsgOut_recv_progress:
  assumes "MsgOut_recv F s bpool fpool = Some (Ok m, s', bpool', fpool')"
  shows "length (rx s') < length (rx s)"
proof -
  obtain got r s1 where r1: "read_exact s 4 = (got, r, s1)" by (metis surj_pair)
  from assms r1 have ok: "r = Ok ()" by (cases r) (simp_all add: MsgOut_recv_def read_prefixed_size_def)
  have lt: "length (rx s1) < length (rx s)" using read_exact_rx [OF r1] ok by simp
  obtain x p1 where a: "connector_allocate_buffer bpool (unat (fb_read_u32 F got)) = Some (x, p1)"
    using assms r1 ok by (cases "connector_allocate_buffer bpool (unat (fb_read_u32 F got))")
      (auto simp: MsgOut_recv_def read_prefixed_size_def)
  obtain b where b: "x = Ok b"
    using assms r1 ok a by (cases x) (simp_all add: MsgOut_recv_def read_prefixed_size_def)
  obtain got2 r2 s2 where r2: "read_exact s1 (bb_size (buf_inner b)) = (got2, r2, s2)" by (metis surj_pair)
  have "s' = s2"
    using assms r1 ok a b r2
    by (cases r2) (auto simp: MsgOut_recv_def read_prefixed_size_def bind_eq_Some_conv)
  then show ?thesis using lt read_exact_rx(1) [OF r2] by simp
qed

lemma TestActor_recv_progress:
  assumes "TestActor_recv F self = Some (Ok m, self')"
  shows "length (rx (ta_client self')) < length (rx (ta_client self))"
proof -
  obtain r s b f where "MsgOut_recv F (ta_client self) (ta_input_buffer_pool self) (ta_input_fb_buffer_pool self) = Some (r, s, b, f)"
    "TestActor_check IoError r ''Recv failed'' = Ok m" "ta_client self' = s"
    using assms by (auto simp: TestActor_recv_def bind_eq_Some_conv)
  then show ?thesis using MsgOut_recv_progress by (cases r) (auto simp: TestActor_check_def)
qed

lemma drop_packet_client: "drop_packet ta sp = Some ta' \<Longrightarrow> ta_client ta' = ta_client ta"
  by (auto simp: drop_packet_def bind_eq_Some_conv)

text \<open>The inner loop of the scripts: receive up to the end of the slice.\<close>

function wait_at_deadline :: "('b, 'o) flatbuffers \<Rightarrow> 'b test_actor \<Rightarrow> (unit test_result \<times> 'b test_actor) option" where
  "wait_at_deadline F ta =
     (case TestActor_recv F ta of
        None \<Rightarrow> None
      | Some (Inl e, ta) \<Rightarrow> Some (Err e, ta)
      | Some (Inr AtDeadline, ta) \<Rightarrow> Some (Ok (), ta)
      | Some (Inr (SendPacket sp), ta) \<Rightarrow>
          (case drop_packet ta sp of
             None \<Rightarrow> None
           | Some ta \<Rightarrow> wait_at_deadline F ta))"
  by pat_completeness auto
termination
  by (relation "measure (\<lambda>(_, ta). length (rx (ta_client ta)))")
     (auto dest!: TestActor_recv_progress drop_packet_client)

declare wait_at_deadline.simps [simp del]

definition RECV_ONE_MSG_ACTOR_SLICE :: duration where
  "RECV_ONE_MSG_ACTOR_SLICE = dur 100000"

lemma send_control_rx:
  assumes "send_control F ta m = Some (r, ta')"
  shows "rx (ta_client ta') = rx (ta_client ta)" "ta_input_buffer_pool ta' = ta_input_buffer_pool ta"
proof -
  obtain x s b f where m: "MsgIn_send F no_pool m (ta_client ta) (ta_input_fb_buffer_pool ta) = Some (x, s, b, f)"
    "ta' = ta\<lparr>ta_client := s, ta_input_fb_buffer_pool := f\<rparr>"
    using assms by (auto simp: send_control_def TestActor_send_def bind_eq_Some_conv)
  then have "\<exists>data. write_all (ta_client ta) data = (x, s)"
    by (cases m) (auto simp: MsgIn_send_def bind_eq_Some_conv case_prod_beta intro: prod.collapse)
  then obtain data where "write_all (ta_client ta) data = (x, s)" ..
  then show "rx (ta_client ta') = rx (ta_client ta)" using m(2) write_all_rx by fastforce
  show "ta_input_buffer_pool ta' = ta_input_buffer_pool ta" using m(2) by simp
qed

text \<open>\<open>recv_one_msg_actor\<close>: slice after slice, until the client sends a packet.\<close>

function recv_one_msg_loop ::
  "('b, 'o) flatbuffers \<Rightarrow> duration \<Rightarrow> 'b test_actor \<Rightarrow> (unit test_result \<times> 'b test_actor) option" where
  "recv_one_msg_loop F deadline ta =
     (case Duration_add deadline RECV_ONE_MSG_ACTOR_SLICE of
        None \<Rightarrow> None
      | Some deadline \<Rightarrow>
          (case send_control F ta (GoToDeadline deadline) of
             None \<Rightarrow> None
           | Some (Inl e, ta) \<Rightarrow> Some (Err e, ta)
           | Some (Inr _, ta) \<Rightarrow>
               (case TestActor_recv F ta of
                  None \<Rightarrow> None
                | Some (Inl e, ta) \<Rightarrow> Some (Err e, ta)
                | Some (Inr AtDeadline, ta) \<Rightarrow> recv_one_msg_loop F deadline ta
                | Some (Inr (SendPacket sp), ta) \<Rightarrow> map_option (\<lambda>ta. (Ok (), ta)) (drop_packet ta sp))))"
  by pat_completeness auto
termination
  by (relation "measure (\<lambda>(_, _, ta). length (rx (ta_client ta)))")
     (auto dest!: TestActor_recv_progress send_control_rx(1))

declare recv_one_msg_loop.simps [simp del]

definition recv_one_msg_actor :: "('b, 'o) flatbuffers \<Rightarrow> 'b test_actor \<Rightarrow> (unit test_result \<times> 'b test_actor) option" where
  "recv_one_msg_actor F ta = do {
     (r, ta) \<leftarrow> recv_one_msg_loop F (dur 0) ta;
     case r of
       Inl e \<Rightarrow> Some (Err e, ta)
     | Inr _ \<Rightarrow> send_control F ta EndSimulation
   }"

definition SEND_ONE_MSG_ACTOR_DELAY_MICROS :: u64 where
  "SEND_ONE_MSG_ACTOR_DELAY_MICROS = 100"

definition from_micros :: "u64 \<Rightarrow> duration" where
  "from_micros n = dur (unat n * 1000)"

lemma wait_at_deadline_progress:
  assumes "wait_at_deadline F ta = Some (Ok (), ta')"
  shows "length (rx (ta_client ta')) < length (rx (ta_client ta))"
  using assms
proof (induction F ta rule: wait_at_deadline.induct)
  case (1 F ta)
  obtain r ta1 where r: "TestActor_recv F ta = Some (r, ta1)" using "1.prems" by (auto simp: wait_at_deadline.simps [of F ta] split: option.splits)
  then obtain m where m: "r = Ok m" using "1.prems" by (cases r) (auto simp: wait_at_deadline.simps [of F ta])
  have lt: "length (rx (ta_client ta1)) < length (rx (ta_client ta))" using TestActor_recv_progress r m by blast
  show ?case
  proof (cases m)
    case AtDeadline
    with "1.prems" r m lt show ?thesis by (simp add: wait_at_deadline.simps [of F ta])
  next
    case (SendPacket sp)
    with "1.prems" r m obtain ta2 where d: "drop_packet ta1 sp = Some ta2" "wait_at_deadline F ta2 = Some (Ok (), ta')"
      by (auto simp: wait_at_deadline.simps [of F ta] split: option.splits)
    from "1.IH" [OF r refl m SendPacket d] lt drop_packet_client [OF d(1)] show ?thesis by simp
  qed
qed

text \<open>The outer loop of \<open>send_one_delayed_msg_actor\<close>, the addition of \<open>u64\<close> panicking on overflow.\<close>

function delay_loop ::
  "('b, 'o) flatbuffers \<Rightarrow> u64 \<Rightarrow> u64 \<Rightarrow> u64 \<Rightarrow> 'b test_actor \<Rightarrow> (unit test_result \<times> 'b test_actor) option" where
  "delay_loop F slice_micros delay_micros next_deadline_micros ta =
     (if next_deadline_micros < delay_micros then
        (case send_control F ta (GoToDeadline (from_micros next_deadline_micros)) of
           None \<Rightarrow> None
         | Some (Inl e, ta) \<Rightarrow> Some (Err e, ta)
         | Some (Inr _, ta) \<Rightarrow>
             (case wait_at_deadline F ta of
                None \<Rightarrow> None
              | Some (Inl e, ta) \<Rightarrow> Some (Err e, ta)
              | Some (Inr _, ta) \<Rightarrow>
                  (if unat next_deadline_micros + unat slice_micros < 2 ^ 64
                   then delay_loop F slice_micros delay_micros (next_deadline_micros + slice_micros) ta
                   else None)))
      else Some (Ok (), ta))"
  by pat_completeness auto
termination
  by (relation "measure (\<lambda>(_, _, _, _, ta). length (rx (ta_client ta)))")
     (auto dest!: wait_at_deadline_progress send_control_rx(1))

declare delay_loop.simps [simp del]

text \<open>
  \<open>FlatBufferBuilder::new()\<close> is \<open>with_capacity(0)\<close>. The packet is built in a pool of one buffer of its size.
\<close>

definition send_one_delayed_msg_actor ::
  "('b, 'o) flatbuffers \<Rightarrow> 'b test_actor \<Rightarrow> bytes \<Rightarrow> u64 \<Rightarrow> u64 \<Rightarrow> (unit test_result \<times> 'b test_actor) option" where
  "send_one_delayed_msg_actor F ta msg slice_micros delay_micros = do {
     (r, ta) \<leftarrow> delay_loop F slice_micros delay_micros slice_micros ta;
     case r of
       Inl e \<Rightarrow> Some (Err e, ta)
     | Inr _ \<Rightarrow> do {
         (r, ta) \<leftarrow> send_control F ta (GoToDeadline (from_micros delay_micros));
         case r of
           Inl e \<Rightarrow> Some (Err e, ta)
         | Inr _ \<Rightarrow> do {
             src \<leftarrow> local_vsg_address;
             dst \<leftarrow> Some remote_vsg_address;
             builder \<leftarrow> Some (create_deliver_packet_unprefixed F (fb_with_capacity F 0) src dst msg);
             fb \<leftarrow> fb_finished_data F builder;
             pool \<leftarrow> BufferPool_new BytesBuffer (length fb) 1;
             (b, pool) \<leftarrow> BufferPool_allocate_buffer BytesBuffer pool (length fb);
             case TestActor_check Error_from_buffer_pool b ''Buffer allocation failed'' of
               Inl e \<Rightarrow> Some (Err e, ta)
             | Inr buffer \<Rightarrow> do {
                 pool \<leftarrow> Buffer_deref_mut BytesBuffer pool buffer fb;
                 (m, pool) \<leftarrow> MsgIn_new_deliver_packet F pool buffer;
                 m \<leftarrow> unwrap m;
                 (r, _, ta) \<leftarrow> TestActor_send F pool ta m;
                 case r of
                   Inl e \<Rightarrow> Some (Err e, ta)
                 | Inr _ \<Rightarrow> send_control F ta EndSimulation
               }
           }
       }
   }"

definition send_one_msg_actor ::
  "('b, 'o) flatbuffers \<Rightarrow> 'b test_actor \<Rightarrow> bytes \<Rightarrow> (unit test_result \<times> 'b test_actor) option" where
  "send_one_msg_actor F ta msg =
     send_one_delayed_msg_actor F ta msg SEND_ONE_MSG_ACTOR_DELAY_MICROS SEND_ONE_MSG_ACTOR_DELAY_MICROS"

section \<open>Notifiers\<close>

text \<open>\<open>RecvNotifier\<close> is a flag; \<open>wait\<close> polls it, so with nobody else running it does not return while the flag is unset.\<close>

type_synonym recv_notifier = bool

definition RecvNotifier_new :: recv_notifier where
  "RecvNotifier_new = False"

definition RecvNotifier_notify :: "recv_notifier \<Rightarrow> recv_notifier" where
  "RecvNotifier_notify self = True"

partial_function (option) RecvNotifier_wait :: "recv_notifier \<Rightarrow> recv_notifier option" where
  "RecvNotifier_wait self = (if \<not> self then RecvNotifier_wait self else Some False)"

record deadline_notifier =
  dn_deadline :: "duration seq_lock"
  dn_num_called :: u64

definition INITIAL_DEADLINE :: duration where
  "INITIAL_DEADLINE = dur 0"

definition DeadlineNotifier_new :: deadline_notifier where
  "DeadlineNotifier_new = \<lparr>dn_deadline = SeqLock_new INITIAL_DEADLINE, dn_num_called = 0\<rparr>"

definition DeadlineNotifier_notify :: "deadline_notifier \<Rightarrow> duration \<Rightarrow> deadline_notifier option" where
  "DeadlineNotifier_notify self deadline = do {
     l \<leftarrow> SeqLock_write (dn_deadline self) (\<lambda>_. Some deadline);
     Some \<lparr>dn_deadline = l, dn_num_called = dn_num_called self + 1\<rparr>
   }"

definition DeadlineNotifier_deadline :: "deadline_notifier \<Rightarrow> duration option" where
  "DeadlineNotifier_deadline self = SeqLock_read (dn_deadline self) Some"

definition DeadlineNotifier_num_called :: "deadline_notifier \<Rightarrow> u64" where
  "DeadlineNotifier_num_called self = dn_num_called self"

text \<open>The two notifiers given to a client as its callbacks (\<open>get_callback\<close>).\<close>

fun run_callback :: "recv_notifier \<times> deadline_notifier \<Rightarrow> callback \<Rightarrow> (recv_notifier \<times> deadline_notifier) option" where
  "run_callback (r, d) RecvCallback = Some (RecvNotifier_notify r, d)"
| "run_callback (r, d) (DeadlineCallback deadline) =
     map_option (\<lambda>d. (r, d)) (DeadlineNotifier_notify d deadline)"

section \<open>The actor reads what the client writes\<close>

text \<open>Between two messages the actor holds no buffer of either pool.\<close>

definition actor_ok :: "'b test_actor \<Rightarrow> bool" where
  "actor_ok ta \<longleftrightarrow> bytes_ib.wf_pool (ta_input_buffer_pool ta) \<and> buffer_size (ta_input_buffer_pool ta) = MAX_PACKET_SIZE \<and>
     0 < num_buffers_of (ta_input_buffer_pool ta) \<and> pool_busy (ta_input_buffer_pool ta) = {} \<and>
     fb_ib.wf_pool (ta_input_fb_buffer_pool ta) \<and> buffer_size (ta_input_fb_buffer_pool ta) = MAX_PACKET_SIZE \<and>
     0 < num_buffers_of (ta_input_fb_buffer_pool ta) \<and> pool_busy (ta_input_fb_buffer_pool ta) = {}"

lemma actor_new_ok:
  obtains ta where "TestActor_new F client = Some ta" "actor_ok ta" "ta_client ta = client"
proof -
  obtain bpool where b: "BufferPool_new BytesBuffer MAX_PACKET_SIZE 100 = Some bpool"
    by (auto simp: BufferPool_new_def BytesBuffer_def BytesBuffer_calloc_def MAX_PACKET_SIZE_def isize_max_def usize_max_def usize_mul_def)
  obtain fpool :: "'a fb_pool" where f: "BufferPool_new (FbBuffer F) MAX_PACKET_SIZE 100 = Some fpool"
    by (auto simp: BufferPool_new_def FbBuffer_def FbBuilder_defs)
  show ?thesis
    using b f bytes_ib.new_pool_wf [OF b] fb_ib.new_pool_wf [OF f [unfolded FbBuffer_def]]
    by (intro that [of "\<lparr>ta_client = client, ta_input_buffer_pool = bpool, ta_input_fb_buffer_pool = fpool\<rparr>"])
       (simp_all add: TestActor_new_def actor_ok_def)
qed

text \<open>
  Reading a frame: the message is decoded, a builder is allocated, and after the dispatch on the content the byte
  pool is again as empty as before.
\<close>

lemma actor_recv_frame:
  assumes F: "fb_laws F V" and ok: "actor_ok ta"
    and fr: "to_frame F fr m" "length fr \<le> MAX_PACKET_SIZE + 4" and s: "rx (ta_client ta) = fr @ rest"
  obtains bpool buf fpool where
    "BufferPool_allocate_buffer (FbBuffer F) (ta_input_fb_buffer_pool ta) 0 = Some (Ok buf, fpool)"
    "\<And>r fpool'. MsgOut_dispatch F fpool buf m = Some (r, fpool') \<Longrightarrow>
       TestActor_recv F ta = Some (TestActor_check IoError r ''Recv failed'',
         \<lparr>ta_client = (ta_client ta)\<lparr>rx := rest\<rparr>, ta_input_buffer_pool = bpool, ta_input_fb_buffer_pool = fpool'\<rparr>)"
    "bytes_ib.wf_pool bpool" "pool_busy bpool = {}"
    "num_buffers_of bpool = num_buffers_of (ta_input_buffer_pool ta)" "buffer_size bpool = MAX_PACKET_SIZE"
proof -
  let ?bp = "ta_input_buffer_pool ta" and ?fp = "ta_input_fb_buffer_pool ta" and ?s = "ta_client ta"
  have wf: "bytes_ib.wf_pool ?bp" "fb_ib.wf_pool ?fp" using ok by (simp_all add: actor_ok_def)
  obtain body where body: "fr = frame body" "length body < 2 ^ 32" "fb_root_to_tansiv F body = Some m"
    using fr(1) by (auto simp: to_frame_def)
  have pre: "read_prefixed_size F ?s = (Ok (length body), ?s\<lparr>rx := body @ rest\<rparr>)"
    using s body fb_read_u32D [OF F] by (simp add: read_prefixed_size_def read_exact_def frame_def unat_of_nat)
  have "\<exists>b p. BufferPool_allocate_buffer BytesBuffer ?bp (length body) = Some (Ok b, p)"
    using bytes_ib.allocate_Ok_iff [OF wf(1)] ok fr(2) body(1) by (simp add: frame_def actor_ok_def)
  then obtain b p1 where alloc: "BufferPool_allocate_buffer BytesBuffer ?bp (length body) = Some (Ok b, p1)"
    and sz: "bb_size (buf_inner b) = length body"
    and ca: "connector_allocate_buffer ?bp (length body) = Some (Ok b, p1)"
    by (cases rule: connector_allocate_cases [OF wf(1), of "length body"]) (auto simp: connector_allocate_buffer_def)
  obtain p2 where w: "Buffer_deref_mut BytesBuffer p1 b body = Some p2" by (rule deref_mut_allocated [OF wf(1) alloc sz])
  note k = alloc_drop_keeps [OF wf(1) alloc w sz]
  obtain p3 where d: "Buffer_drop p2 b = Some p3" by (rule drop_live [OF k(3)])
  have "\<exists>buf fpool. BufferPool_allocate_buffer (FbBuffer F) ?fp 0 = Some (Ok buf, fpool)"
    using fb_ib.allocate_Ok_iff [OF wf(2), of F "MsgFbInitializer_init F" 0] ok by (simp add: actor_ok_def FbBuffer_def)
  then obtain buf fpool where f: "BufferPool_allocate_buffer (FbBuffer F) ?fp 0 = Some (Ok buf, fpool)" by blast
  have "TestActor_recv F ta = Some (TestActor_check IoError r ''Recv failed'',
      \<lparr>ta_client = ?s\<lparr>rx := rest\<rparr>, ta_input_buffer_pool = p3, ta_input_fb_buffer_pool = fpool'\<rparr>)"
    if "MsgOut_dispatch F fpool buf m = Some (r, fpool')" for r fpool'
    using pre ca sz w body(3) k(8) f d that by (simp add: TestActor_recv_def MsgOut_recv_def read_exact_def)
  with f k(9) [OF d] ok show ?thesis by (intro that [of buf fpool p3]) (simp_all add: actor_ok_def)
qed

text \<open>The fresh builder can be dropped again, whatever was built in it.\<close>

lemma actor_drop_ok:
  assumes ok: "actor_ok ta" and a: "BufferPool_allocate_buffer (FbBuffer F) (ta_input_fb_buffer_pool ta) 0 = Some (Ok buf, fpool)"
    and same: "same_except F (buf_index buf) fpool fpool'" "buffer_busy fpool' = buffer_busy fpool"
  obtains fpool'' where "Buffer_drop fpool' buf = Some fpool''" "fb_ib.wf_pool fpool''" "pool_busy fpool'' = {}"
    "num_buffers_of fpool'' = num_buffers_of (ta_input_fb_buffer_pool ta)"
    "buffer_size fpool'' = buffer_size (ta_input_fb_buffer_pool ta)"
proof -
  have wf: "fb_ib.wf_pool (ta_input_fb_buffer_pool ta)" using ok by (simp add: actor_ok_def)
  note f = fb_allocate [OF wf a]
  have busy: "pool_busy fpool' = {buf_index buf}" using f(3) same(2) ok by (simp add: actor_ok_def)
  have wf': "fb_ib.wf_pool fpool'" using same(1) by (simp add: same_except_def)
  have lt: "buf_index buf < num_buffers_of fpool'" using busy by (intro busy_set_bound) simp
  obtain q where q: "Buffer_drop fpool' buf = Some q" using Buffer_drop_Some [OF lt] by blast
  note s = same_except_drop [OF wf' q, of F]
  show ?thesis
    using q s Buffer_dropD [OF q] busy f(4) same(1) by (intro that [of q]) (simp_all add: same_except_def)
qed

lemma actor_recv_mark:
  assumes F: "fb_laws F V" and ok: "actor_ok ta"
    and fr: "to_frame F fr at_deadline_msg" "length fr \<le> MAX_PACKET_SIZE + 4" and s: "rx (ta_client ta) = fr @ rest"
  obtains ta' where "TestActor_recv F ta = Some (Ok AtDeadline, ta')" "actor_ok ta'" "ta_client ta' = (ta_client ta)\<lparr>rx := rest\<rparr>"
proof (rule actor_recv_frame [OF F ok fr s])
  fix bpool buf fpool
  assume a: "BufferPool_allocate_buffer (FbBuffer F) (ta_input_fb_buffer_pool ta) 0 = Some (Ok buf, fpool)"
    and b: "bytes_ib.wf_pool bpool" "pool_busy bpool = {}" "num_buffers_of bpool = num_buffers_of (ta_input_buffer_pool ta)"
      "buffer_size bpool = MAX_PACKET_SIZE"
    and r: "\<And>r fpool'. MsgOut_dispatch F fpool buf at_deadline_msg = Some (r, fpool') \<Longrightarrow>
      TestActor_recv F ta = Some (TestActor_check IoError r ''Recv failed'',
        \<lparr>ta_client = (ta_client ta)\<lparr>rx := rest\<rparr>, ta_input_buffer_pool = bpool, ta_input_fb_buffer_pool = fpool'\<rparr>)"
  have "fb_ib.wf_pool fpool" using fb_allocate(1) [OF _ a] ok by (simp add: actor_ok_def)
  then have "same_except F (buf_index buf) fpool fpool" by (simp add: same_except_def)
  from actor_drop_ok [OF ok a this refl] obtain q where q: "Buffer_drop fpool buf = Some q" "fb_ib.wf_pool q" "pool_busy q = {}"
    "num_buffers_of q = num_buffers_of (ta_input_fb_buffer_pool ta)"
    "buffer_size q = buffer_size (ta_input_fb_buffer_pool ta)" by blast
  then have "MsgOut_dispatch F fpool buf at_deadline_msg = Some (Ok AtDeadline, q)"
    by (simp add: MsgOut_dispatch_def at_deadline_msg_def)
  from r [OF this] b q ok show ?thesis
    by (intro that [of "\<lparr>ta_client = (ta_client ta)\<lparr>rx := rest\<rparr>, ta_input_buffer_pool = bpool, ta_input_fb_buffer_pool = q\<rparr>"])
       (simp_all add: TestActor_check_def actor_ok_def del: length_greater_0_conv)
qed

text \<open>A packet is rebuilt in the actor's own builder: its encoding there is a frame of the same message.\<close>

lemma actor_recv_packet:
  assumes F: "fb_laws F V" and ok: "actor_ok ta"
    and fr: "to_frame F fr (send_packet_msg src dst t p)" "length fr \<le> MAX_PACKET_SIZE + 4"
    and p: "length p \<le> fb_payload_limit" and s: "rx (ta_client ta) = fr @ rest"
  obtains sp ta' b data ta'' where "TestActor_recv F ta = Some (Ok (SendPacket sp), ta')"
    "Buffer_deref (FbBuffer F) (ta_input_fb_buffer_pool ta') (sp_inner sp) = Some b" "fb_finished_data F b = Some data"
    "to_frame F data (send_packet_msg src dst t p)"
    "drop_packet ta' sp = Some ta''" "actor_ok ta''" "ta_client ta'' = (ta_client ta)\<lparr>rx := rest\<rparr>"
proof (rule actor_recv_frame [OF F ok fr s])
  fix bpool buf fpool
  assume a: "BufferPool_allocate_buffer (FbBuffer F) (ta_input_fb_buffer_pool ta) 0 = Some (Ok buf, fpool)"
    and b: "bytes_ib.wf_pool bpool" "pool_busy bpool = {}" "num_buffers_of bpool = num_buffers_of (ta_input_buffer_pool ta)"
      "buffer_size bpool = MAX_PACKET_SIZE"
    and r: "\<And>r fpool'. MsgOut_dispatch F fpool buf (send_packet_msg src dst t p) = Some (r, fpool') \<Longrightarrow>
      TestActor_recv F ta = Some (TestActor_check IoError r ''Recv failed'',
        \<lparr>ta_client = (ta_client ta)\<lparr>rx := rest\<rparr>, ta_input_buffer_pool = bpool, ta_input_fb_buffer_pool = fpool'\<rparr>)"
  have wf0: "fb_ib.wf_pool (ta_input_fb_buffer_pool ta)" using ok by (simp add: actor_ok_def)
  note f = fb_allocate [OF wf0 a]
  obtain c where c: "Buffer_deref (FbBuffer F) fpool buf = Some c" "fv_fresh V c" using f(5) [OF F] by blast
  have busy: "buf_index buf \<in> pool_busy fpool" using f(3) by simp
  obtain off p1 where n: "SendPacketBuilder_new F fpool src dst t p buf = Some (\<lparr>spb_src = src, spb_dst = dst,
      spb_send_time = t, spb_payload = buf, spb_payload_offset = off\<rparr>, p1)" "buffer_busy p1 = buffer_busy fpool"
    "same_except F (buf_index buf) fpool p1"
    "builder_ok F V p1 \<lparr>spb_src = src, spb_dst = dst, spb_send_time = t, spb_payload = buf, spb_payload_offset = off\<rparr> p"
    by (rule SendPacketBuilder_new_ok [OF F f(1) busy c p])
  have wf1: "fb_ib.wf_pool p1" using n(3) by (simp add: same_except_def)
  obtain p2 x data where e: "SendPacketBuilder_finish F p1 \<lparr>spb_src = src, spb_dst = dst,
      spb_send_time = t, spb_payload = buf, spb_payload_offset = off\<rparr> t = Some (\<lparr>sp_inner = buf\<rparr>, p2)"
    "buffer_busy p2 = buffer_busy p1" "same_except F (buf_index buf) p1 p2"
    "Buffer_deref (FbBuffer F) p2 buf = Some x" "fb_finished_data F x = Some data"
    "to_frame F data (send_packet_msg src dst t p)"
    by (rule SendPacketBuilder_finish_ok [OF F wf1 n(4), of t]) simp
  have "same_except F (buf_index buf) fpool p2" by (rule same_except_trans [OF n(3) e(3)]) (use n(2) in auto)
  from actor_drop_ok [OF ok a this] n(2) e(2) obtain q where q: "Buffer_drop p2 buf = Some q" "fb_ib.wf_pool q" "pool_busy q = {}"
    "num_buffers_of q = num_buffers_of (ta_input_fb_buffer_pool ta)"
    "buffer_size q = buffer_size (ta_input_fb_buffer_pool ta)" by auto
  have "MsgOut_dispatch F fpool buf (send_packet_msg src dst t p) = Some (Ok (SendPacket \<lparr>sp_inner = buf\<rparr>), p2)"
    using n(1) e(1) by (simp add: MsgOut_dispatch_def send_packet_msg_def content_as_send_packet_def)
  from r [OF this] b q e ok show ?thesis
    by (intro that [of "\<lparr>sp_inner = buf\<rparr>"
          "\<lparr>ta_client = (ta_client ta)\<lparr>rx := rest\<rparr>, ta_input_buffer_pool = bpool, ta_input_fb_buffer_pool = p2\<rparr>" x data
          "\<lparr>ta_client = (ta_client ta)\<lparr>rx := rest\<rparr>, ta_input_buffer_pool = bpool, ta_input_fb_buffer_pool = q\<rparr>"])
       (simp_all add: TestActor_check_def drop_packet_def actor_ok_def del: length_greater_0_conv)
qed

text \<open>
  So after a deadline the actor is in step with the client: waiting for the end of the slice consumes exactly
  what the client wrote, provided each frame fits a buffer.
\<close>

lemma actor_follows_client:
  assumes F: "fb_laws F V" and ok: "actor_ok ta"
    and ws: "list_all2 (\<lambda>(src, dst, t, p) fr. to_frame F fr (send_packet_msg src dst t p) \<and>
      length fr \<le> MAX_PACKET_SIZE + 4 \<and> length p \<le> fb_payload_limit) ws frs"
    and fr: "to_frame F fr at_deadline_msg" "length fr \<le> MAX_PACKET_SIZE + 4"
    and s: "rx (ta_client ta) = concat frs @ fr @ rest"
  shows "\<exists>ta'. wait_at_deadline F ta = Some (Ok (), ta') \<and> actor_ok ta' \<and> ta_client ta' = (ta_client ta)\<lparr>rx := rest\<rparr>"
  using ws ok s
proof (induction ws frs arbitrary: ta rule: list_all2_induct)
  case Nil
  then obtain ta' where "TestActor_recv F ta = Some (Ok AtDeadline, ta')" "actor_ok ta'" "ta_client ta' = (ta_client ta)\<lparr>rx := rest\<rparr>"
    using actor_recv_mark [OF F _ fr] by auto
  then show ?case by (simp add: wait_at_deadline.simps [of F ta])
next
  case (Cons w ws fr' frs)
  obtain src dst t p where w: "w = (src, dst, t, p)" by (metis surj_pair)
  have rx: "rx (ta_client ta) = fr' @ concat frs @ fr @ rest" using Cons.prems by simp
  have h: "to_frame F fr' (send_packet_msg src dst t p)" "length fr' \<le> MAX_PACKET_SIZE + 4" "length p \<le> fb_payload_limit"
    using Cons.hyps w by simp_all
  obtain sp ta1 ta2 where r: "TestActor_recv F ta = Some (Ok (SendPacket sp), ta1)" "drop_packet ta1 sp = Some ta2"
    "actor_ok ta2" "ta_client ta2 = (ta_client ta)\<lparr>rx := concat frs @ fr @ rest\<rparr>"
    by (rule actor_recv_packet [OF F Cons.prems(1) h rx])
  with Cons.IH [of ta2] show ?case by (simp add: wait_at_deadline.simps [of F ta])
qed

section \<open>The client acts on what the actor writes\<close>

text \<open>The message a control message is encoded as.\<close>

fun control_msg :: "msg_in \<Rightarrow> from_tansiv_msg option" where
  "control_msg (GoToDeadline d) = Some (goto_deadline_msg d)"
| "control_msg EndSimulation = Some end_simulation_msg"
| "control_msg (DeliverPacket d) = None"

lemma actor_sends_control:
  assumes F: "fb_laws F V" and ok: "actor_ok ta" and m: "control_msg m = Some x" and nf: "wr_faults (ta_client ta) = []"
  obtains fr ta' c where "send_control F ta m = Some (Ok (), ta')" "from_frame F fr x" "actor_ok ta'"
    "ta_client ta' = (ta_client ta)\<lparr>tx := tx (ta_client ta) @ fr\<rparr>"
    "fb_finished_data F (case m of GoToDeadline d \<Rightarrow> create_goto_deadline F c d | _ \<Rightarrow> create_end_simulation F c) = Some fr"
proof -
  let ?fp = "ta_input_fb_buffer_pool ta"
  have wf: "fb_ib.wf_pool ?fp" using ok by (simp add: actor_ok_def)
  have "\<exists>buf fpool. BufferPool_allocate_buffer (FbBuffer F) ?fp 1 = Some (Ok buf, fpool)"
    using fb_ib.allocate_Ok_iff [OF wf, of F "MsgFbInitializer_init F" 1] ok
    by (simp add: actor_ok_def FbBuffer_def MAX_PACKET_SIZE_def)
  then obtain buf fpool where a: "BufferPool_allocate_buffer (FbBuffer F) ?fp 1 = Some (Ok buf, fpool)" by blast
  note f = fb_allocate [OF wf a]
  obtain c where c: "Buffer_deref (FbBuffer F) fpool buf = Some c" "fv_fresh V c" using f(5) [OF F] by blast
  define b where "b = (case m of GoToDeadline d \<Rightarrow> create_goto_deadline F c d | _ \<Rightarrow> create_end_simulation F c)"
  have "\<exists>data. fb_finished_data F b = Some data \<and> from_frame F data x"
    using m create_goto_deadline_frame [OF F c(2)] create_end_simulation_frame [OF F c(2)] by (cases m) (auto simp: b_def)
  then obtain data where b: "fb_finished_data F b = Some data" "from_frame F data x" by blast
  obtain p2 where w: "Buffer_deref_mut (FbBuffer F) fpool buf b = Some p2" "buffer_busy p2 = buffer_busy fpool"
    "same_except F (buf_index buf) fpool p2"
    by (rule fb_write [OF f(1)]) (use f(3) in auto)
  have wf2: "fb_ib.wf_pool p2" using w(3) by (simp add: same_except_def)
  have busy: "pool_busy p2 = {buf_index buf}" using f(3) w(2) ok by (simp add: actor_ok_def)
  obtain q where q: "Buffer_drop p2 buf = Some q" using Buffer_drop_Some [OF busy_set_bound, of buf p2] busy by auto
  have "actor_ok (ta\<lparr>ta_client := s, ta_input_fb_buffer_pool := q\<rparr>)" for s
    using ok same_except_drop [OF wf2 q, of F] Buffer_dropD [OF q] busy f(4) w(3)
    by (simp add: actor_ok_def same_except_def del: length_greater_0_conv)
  moreover have "send_control F ta m = Some (Ok (), ta\<lparr>ta_client := (ta_client ta)\<lparr>tx := tx (ta_client ta) @ data\<rparr>,
      ta_input_fb_buffer_pool := q\<rparr>)"
    using m a c(1) b(1) w(1) q write_all_ok [OF nf]
    by (cases m) (simp_all add: send_control_def TestActor_send_def MsgIn_send_def TestActor_check_def b_def)
  ultimately show ?thesis using b by (intro that) (auto simp: b_def)
qed

lemma start_actor_writes:
  assumes F: "fb_laws F V" and ok: "actor_ok ta" and nf: "wr_faults (ta_client ta) = []"
  obtains fr fr' ta' c c' where "start_actor F ta = Some (Ok (), ta')" "actor_ok ta'"
    "tx (ta_client ta') = tx (ta_client ta) @ fr @ fr'"
    "from_frame F fr (goto_deadline_msg START_ACTOR_DEADLINE)" "from_frame F fr' end_simulation_msg"
    "fb_finished_data F (create_goto_deadline F c START_ACTOR_DEADLINE) = Some fr"
    "fb_finished_data F (create_end_simulation F c') = Some fr'"
proof -
  obtain fr ta1 c where a: "send_control F ta (GoToDeadline START_ACTOR_DEADLINE) = Some (Ok (), ta1)"
    "from_frame F fr (goto_deadline_msg START_ACTOR_DEADLINE)" "actor_ok ta1"
    "ta_client ta1 = (ta_client ta)\<lparr>tx := tx (ta_client ta) @ fr\<rparr>"
    "fb_finished_data F (create_goto_deadline F c START_ACTOR_DEADLINE) = Some fr"
    by (rule actor_sends_control [OF F ok control_msg.simps(1) nf]) simp
  have nf1: "wr_faults (ta_client ta1) = []" using a(4) nf by simp
  obtain fr' ta2 c' where b: "send_control F ta1 EndSimulation = Some (Ok (), ta2)" "from_frame F fr' end_simulation_msg"
    "actor_ok ta2" "ta_client ta2 = (ta_client ta1)\<lparr>tx := tx (ta_client ta1) @ fr'\<rparr>"
    "fb_finished_data F (create_end_simulation F c') = Some fr'"
    by (rule actor_sends_control [OF F a(3) control_msg.simps(2) nf1]) simp
  show ?thesis using a b by (intro that [of ta2 fr fr' c c']) (simp_all add: start_actor_def)
qed

text \<open>
  A client connected to \<open>start_actor\<close> starts with the deadline of the script and is told to end the
  simulation at that deadline, provided what the script writes fits one buffer.
\<close>

lemma start_actor_session:
  assumes F: "fb_laws F V" and A: "array_queue_laws A items cap"
    and sc: "actor_ok ta" "tx (ta_client ta) = []" "wr_faults (ta_client ta) = []" "start_actor F ta = Some (r, ta')"
      "length (tx (ta_client ta')) \<le> MAX_PACKET_SIZE"
    and n: "0 < num_buffers cfg" and new: "Context_new F A connect (Ok tm) register cfg = Some (Ok ctx)"
    and str: "actor (connector ctx) = \<lparr>rx = tx (ta_client ta'), tx = [], wr_faults = []\<rparr>"
    and st: "t_start T tm now START_ACTOR_DEADLINE = Some (Ok off, tm')"
    and dl: "t_previous_deadline T tm' = Some prev" "t_next_deadline T tm' = Some cur"
  shows "\<exists>ctx1 ctx2. Context_start T F ctx now = Some (Ok off, ctx1) \<and> callbacks ctx1 = [DeadlineCallback START_ACTOR_DEADLINE] \<and>
    Context_at_deadline T F A ctx1 = Some (AfterEndSimulation, ctx2) \<and> callbacks ctx2 = callbacks ctx1"
proof -
  obtain fr fr' where fr: "tx (ta_client ta') = fr @ fr'" "from_frame F fr (goto_deadline_msg START_ACTOR_DEADLINE)"
    "from_frame F fr' end_simulation_msg"
    by (rule start_actor_writes [OF F sc(1,3)]) (use sc(2,4) in auto)
  have cf: "control_frame F (NextDeadline START_ACTOR_DEADLINE) fr" "control_frame F AfterEndSimulation fr'"
    using fr sc(5) by (simp_all add: control_frame_def)
  note c = Context_new_inv [OF A n new] and c1 = Context_new_inv(1) [OF A n new, of V]
  have tm: "t_start T (timer_context ctx) now START_ACTOR_DEADLINE = Some (Ok off, tm')" using st c(12) by simp
  have room: "length (items (input_queue ctx)) < cap (input_queue ctx)" using c(5,8) n by simp
  have rx: "rx (actor (connector ctx)) = fr @ fr'" using str fr(1) by simp
  have once: "\<not> start_once ctx" using c(2) by simp
  obtain conn where s: "Context_start T F ctx now = Some (Ok off, ctx\<lparr>connector := conn, start_once := True,
      callbacks := callbacks ctx @ [DeadlineCallback START_ACTOR_DEADLINE], timer_context := tm'\<rparr>)"
    "rx (actor conn) = fr'" "wr_faults (actor conn) = wr_faults (actor (connector ctx))" "in_inv F items cap conn (input_queue ctx)"
    by (rule start_on_deadline [where T = T and now = now and off = off and tm' = tm', OF F c1 once rx cf(1) room tm])
  let ?ctx = "ctx\<lparr>connector := conn, start_once := True,
      callbacks := callbacks ctx @ [DeadlineCallback START_ACTOR_DEADLINE], timer_context := tm'\<rparr>"
  have inv: "ctx_inv F V items cap ?ctx" using c1 s(4) by (simp add: ctx_inv_def)
  have h: "t_previous_deadline T (timer_context ?ctx) = Some prev" "t_next_deadline T (timer_context ?ctx) = Some cur"
    "wr_faults (actor (connector ?ctx)) = []" "in_time prev cur ?ctx"
    "rx (actor (connector ?ctx)) = concat [] @ fr' @ []" "packet_frames F [] []"
    "length (items (input_queue ?ctx)) + length ([] :: packet list) < cap (input_queue ?ctx)"
    using dl s(2,3) str c(9) room by (simp_all add: in_time_def packet_frames_def)
  obtain ctx2 where "Context_at_deadline T F A ?ctx = Some (AfterEndSimulation, ctx2)" "callbacks ctx2 = callbacks ?ctx"
    by (rule at_deadline_exchange [OF F A inv h(1-6) cf(2) h(7)]) simp
  with s(1) c(3) show ?thesis by auto
qed

section \<open>What the notifiers record\<close>

fun run_callbacks :: "recv_notifier \<times> deadline_notifier \<Rightarrow> callback list \<Rightarrow> (recv_notifier \<times> deadline_notifier) option" where
  "run_callbacks n [] = Some n"
| "run_callbacks n (c # cs) = (case run_callback n c of None \<Rightarrow> None | Some n \<Rightarrow> run_callbacks n cs)"

fun deadlines :: "callback list \<Rightarrow> duration list" where
  "deadlines [] = []"
| "deadlines (DeadlineCallback d # cs) = d # deadlines cs"
| "deadlines (RecvCallback # cs) = deadlines cs"

lemma notify_released:
  assumes "released (dn_deadline d)"
  obtains d' where "DeadlineNotifier_notify d t = Some d'" "released (dn_deadline d')" "sl_value (dn_deadline d') = t"
    "dn_num_called d' = dn_num_called d + 1"
  using assms by (auto simp: DeadlineNotifier_notify_def write_released released_def)

lemma notifiers_record:
  assumes "released (dn_deadline d)"
  obtains d' where "run_callbacks (r, d) cs = Some (r \<or> RecvCallback \<in> set cs, d')" "released (dn_deadline d')"
    "DeadlineNotifier_deadline d' = Some (last (sl_value (dn_deadline d) # deadlines cs))"
    "DeadlineNotifier_num_called d' = dn_num_called d + word_of_nat (length (deadlines cs))"
proof -
  have "\<exists>d'. run_callbacks (r, d) cs = Some (r \<or> RecvCallback \<in> set cs, d') \<and> released (dn_deadline d') \<and>
      sl_value (dn_deadline d') = last (sl_value (dn_deadline d) # deadlines cs) \<and>
      dn_num_called d' = dn_num_called d + word_of_nat (length (deadlines cs))"
    using assms
  proof (induction cs arbitrary: r d)
    case Nil
    then show ?case by simp
  next
    case (Cons c cs)
    show ?case
    proof (cases c)
      case RecvCallback
      with Cons.IH [of d True] Cons.prems show ?thesis by (simp add: RecvNotifier_notify_def)
    next
      case (DeadlineCallback t)
      obtain d1 where d1: "DeadlineNotifier_notify d t = Some d1" "released (dn_deadline d1)" "sl_value (dn_deadline d1) = t"
        "dn_num_called d1 = dn_num_called d + 1" by (rule notify_released [OF Cons.prems])
      with Cons.IH [OF d1(2), of r] DeadlineCallback show ?thesis by (auto simp: algebra_simps)
    qed
  qed
  then show ?thesis
    using that by (auto simp: DeadlineNotifier_deadline_def DeadlineNotifier_num_called_def read_released)
qed

end
