(* ===== verification/Reference_Instances.thy ===== *)
theory Reference_Instances
  imports Connector Waitfree_Queue
begin

text \<open>
  Concrete instances of the three third-party interfaces, which show that their laws can hold
  together and on which the theorems that assume them are exercised: a list with a capacity for
  crossbeam's queue, integers for chrono, and a byte codec for FlatBuffers. They stand for the
  libraries only in the concrete examples.
\<close>

section \<open>The queue\<close>

definition ref_queue :: "(nat \<times> 'i list, 'i) array_queue" where
  "ref_queue = \<lparr>
     aq_new = (\<lambda>n. if n = 0 then None else Some (n, [])),
     aq_push = (\<lambda>(n, xs) x. if length xs < n then (Ok (), n, xs @ [x]) else (Err x, n, xs)),
     aq_pop = (\<lambda>(n, xs). case xs of [] \<Rightarrow> (Err (), n, []) | y # ys \<Rightarrow> (Ok y, n, ys)),
     aq_is_empty = (\<lambda>(n, xs). xs = [])\<rparr>"

lemma ref_queue_laws: "array_queue_laws ref_queue snd fst"
  by (auto simp: array_queue_laws_def ref_queue_def)

section \<open>chrono\<close>

definition ref_chrono :: "(int, int) chrono" where
  "ref_chrono = \<lparr>
     ch_zero = 0,
     ch_from_std = (\<lambda>d. if int (as_nanos d) \<le> chrono_max then Some (int (as_nanos d)) else None),
     ch_to_std = (\<lambda>x. if x < 0 then None else Some (dur (nat x))),
     ch_add = (\<lambda>x y. if \<bar>x + y\<bar> \<le> chrono_max then Some (x + y) else None),
     ch_sub = (\<lambda>x y. if \<bar>x - y\<bar> \<le> chrono_max then Some (x - y) else None),
     ch_neg = (\<lambda>x. - x),
     ch_seconds = (\<lambda>w. if \<bar>sint w * 10 ^ 9\<bar> \<le> chrono_max then Some (sint w * 10 ^ 9) else None),
     ch_nanoseconds = sint,
     ch_num_seconds = (\<lambda>x. word_of_int (trunc_div x (10 ^ 9))),
     ch_num_nanoseconds = (\<lambda>x. if - (2 ^ 63) \<le> x \<and> x < 2 ^ 63 then Some (word_of_int x) else None),
     nd_epoch = 0,
     nd_since = (\<lambda>a b. a - b),
     nd_add = (\<lambda>a x. Some (a + x)),
     nd_timestamp = (\<lambda>a. word_of_int (a div 10 ^ 9)),
     nd_subsec_micros = (\<lambda>a. word_of_int (a mod 10 ^ 9 div 10 ^ 3))\<rparr>"

lemma sint_i64_of_int:
  assumes "- (2 ^ 63) \<le> x" "x < 2 ^ 63"
  shows "sint (word_of_int x :: i64) = x"
  using assms by (simp add: signed_of_int signed_take_bit_int_eq_self)

lemma trunc_div_bound: "\<bar>x\<bar> \<le> chrono_max \<Longrightarrow> \<bar>trunc_div x (10 ^ 9)\<bar> < 2 ^ 63"
proof -
  assume "\<bar>x\<bar> \<le> chrono_max"
  then have "\<bar>x\<bar> div 10 ^ 9 \<le> chrono_max div 10 ^ 9" by (intro zdiv_mono1) simp_all
  then have "\<bar>x\<bar> div 10 ^ 9 < 2 ^ 63" by (simp add: chrono_max_def)
  then show ?thesis by (cases "x = 0") (simp_all add: trunc_div_def abs_mult)
qed

lemma ref_chrono_laws: "chrono_laws ref_chrono (\<lambda>x. x) (\<lambda>x. x)"
proof -
  have "nat x < duration_bound" if "x \<le> chrono_max" for x
    using that by (simp add: duration_bound_def chrono_max_def nat_less_iff)
  moreover have "sint (word_of_int (trunc_div x (10 ^ 9)) :: i64) = trunc_div x (10 ^ 9)"
    if "\<bar>x\<bar> \<le> chrono_max" for x
    using trunc_div_bound [OF that] by (intro sint_i64_of_int) linarith+
  moreover have "sint (word_of_int (x div 10 ^ 9) :: i64) = x div 10 ^ 9" if "\<bar>x\<bar> \<le> chrono_max" for x
  proof (rule sint_i64_of_int)
    show "- (2 ^ 63) \<le> x div 10 ^ 9" "x div 10 ^ 9 < 2 ^ 63" using that by (simp_all add: chrono_max_def)
  qed
  moreover have "int (unat (word_of_int (x mod 10 ^ 9 div 10 ^ 3) :: u32)) = x mod 10 ^ 9 div 10 ^ 3" for x
  proof -
    have "0 \<le> x mod 10 ^ 9 div 10 ^ 3" "x mod 10 ^ 9 div 10 ^ 3 < 2 ^ 32"
      using pos_mod_bound [of "10 ^ 9" x] by (simp_all add: pos_imp_zdiv_nonneg_iff)
    then show ?thesis by (simp add: uint_word_of_int flip: uint_nat)
  qed
  ultimately show ?thesis
    unfolding chrono_laws_def ref_chrono_def
    by (simp add: sint_i64_of_int)
qed

section \<open>FlatBuffers\<close>

text \<open>Fixed-width little-endian numbers.\<close>

fun digits :: "nat \<Rightarrow> nat \<Rightarrow> bytes" where
  "digits 0 n = []"
| "digits (Suc k) n = word_of_nat n # digits k (n div 256)"

fun undigits :: "bytes \<Rightarrow> nat" where
  "undigits [] = 0"
| "undigits (b # bs) = unat b + 256 * undigits bs"

lemma length_digits [simp]: "length (digits k n) = k"
  by (induction k arbitrary: n) simp_all

lemma undigits_digits: "undigits (digits k n) = n mod 256 ^ k"
proof (induction k arbitrary: n)
  case (Suc k)
  have "n mod (256 * 256 ^ k) = 256 * (n div 256 mod 256 ^ k) + n mod 256"
    by (rule mod_mult2_eq)
  then show ?case by (simp add: Suc.IH unat_of_nat)
qed simp

lemma digits_div: "map (\<lambda>i. word_of_nat (n div 256 ^ i)) [0..<k] = digits k n"
proof (induction k arbitrary: n)
  case (Suc k)
  have "[0..<Suc k] = 0 # map Suc [0..<k]" by (simp add: upt_conv_Cons map_Suc_upt del: upt_Suc)
  then show ?case using Suc.IH [of "n div 256"] by (simp add: comp_def div_mult2_eq del: upt_Suc)
qed simp

lemma le32_digits: "le32 w = digits 4 (unat w)"
  by (simp only: le32_def digits_div)

definition enc32 :: "u32 \<Rightarrow> bytes" where "enc32 w = digits 4 (unat w)"
definition enc64 :: "u64 \<Rightarrow> bytes" where "enc64 w = digits 8 (unat w)"
definition dec32 :: "bytes \<Rightarrow> u32" where "dec32 bs = word_of_nat (undigits (take 4 bs))"
definition dec64 :: "bytes \<Rightarrow> u64" where "dec64 bs = word_of_nat (undigits (take 8 bs))"

lemma dec_enc [simp]:
  "dec32 (enc32 w @ r) = w" "dec64 (enc64 v @ r) = v" "dec32 (enc32 w) = w"
  "length (enc32 w) = 4" "length (enc64 v) = 8"
  using unat_u32_less [of w] unat_u64_less [of v]
  by (simp_all add: enc32_def enc64_def dec32_def dec64_def undigits_digits)

text \<open>Optional fields carry a presence byte; the payload comes last.\<close>

fun enc_meta :: "packet_meta option \<Rightarrow> bytes" where
  "enc_meta None = [0]"
| "enc_meta (Some m) = 1 # enc32 (pm_src m) @ enc32 (pm_dst m)"

fun dec_meta :: "bytes \<Rightarrow> packet_meta option \<times> bytes" where
  "dec_meta bs = (if hd bs = 0 then (None, tl bs)
     else (Some \<lparr>pm_src = dec32 (tl bs), pm_dst = dec32 (drop 5 bs)\<rparr>, drop 9 bs))"

fun enc_time :: "fb_time option \<Rightarrow> bytes" where
  "enc_time None = [0]"
| "enc_time (Some t) = 1 # enc64 (tm_seconds t) @ enc64 (tm_nseconds t)"

fun dec_time :: "bytes \<Rightarrow> fb_time option \<times> bytes" where
  "dec_time bs = (if hd bs = 0 then (None, tl bs)
     else (Some \<lparr>tm_seconds = dec64 (tl bs), tm_nseconds = dec64 (drop 9 bs)\<rparr>, drop 17 bs))"

fun enc_payload :: "bytes option \<Rightarrow> bytes" where
  "enc_payload None = [0]"
| "enc_payload (Some p) = 1 # p"

fun dec_payload :: "bytes \<Rightarrow> bytes option" where
  "dec_payload bs = (if hd bs = 0 then None else Some (tl bs))"

lemma dec_meta_enc [simp]: "dec_meta (enc_meta m @ r) = (m, r)"
  by (cases m) simp_all

lemma dec_time_enc [simp]: "dec_time (enc_time t @ r) = (t, r)"
  by (cases t) simp_all

lemma dec_payload_enc [simp]: "dec_payload (enc_payload p) = p"
  by (cases p) simp_all

declare dec_meta.simps [simp del] dec_time.simps [simp del] dec_payload.simps [simp del]

fun enc_to_table :: "to_tansiv_table \<Rightarrow> bytes" where
  "enc_to_table AtDeadlineT = [0]"
| "enc_to_table (SendPacketT m t p) = 1 # enc_meta m @ enc_time t @ enc_payload p"

fun dec_to_table :: "bytes \<Rightarrow> to_tansiv_table" where
  "dec_to_table bs = (if hd bs = 0 then AtDeadlineT else
     (let (m, r) = dec_meta (tl bs); (t, r) = dec_time r in SendPacketT m t (dec_payload r)))"

fun enc_from_table :: "from_tansiv_table \<Rightarrow> bytes" where
  "enc_from_table (GotoDeadlineT t) = 0 # enc_time t"
| "enc_from_table (DeliverPacketT m p) = 1 # enc_meta m @ enc_payload p"
| "enc_from_table EndSimulationT = [2]"

fun dec_from_table :: "bytes \<Rightarrow> from_tansiv_table" where
  "dec_from_table bs =
     (if hd bs = 0 then GotoDeadlineT (fst (dec_time (tl bs)))
      else if hd bs = 1 then (let (m, r) = dec_meta (tl bs) in DeliverPacketT m (dec_payload r))
      else EndSimulationT)"

lemma dec_to_table_enc [simp]: "dec_to_table (enc_to_table t) = t"
  by (cases t) simp_all

lemma dec_from_table_enc [simp]: "dec_from_table (enc_from_table t) = t"
  using dec_time_enc [where r = "[]"] by (cases t) simp_all

declare dec_to_table.simps [simp del] dec_from_table.simps [simp del]

fun enc_to_type :: "to_tansiv_type \<Rightarrow> bytes" where
  "enc_to_type ToNONE = [0, 0]"
| "enc_to_type ToAtDeadline = [1, 0]"
| "enc_to_type ToSendPacket = [2, 0]"
| "enc_to_type (ToUnknown u) = [3, u]"

fun enc_from_type :: "from_tansiv_type \<Rightarrow> bytes" where
  "enc_from_type FromNONE = [0, 0]"
| "enc_from_type FromGotoDeadline = [1, 0]"
| "enc_from_type FromDeliverPacket = [2, 0]"
| "enc_from_type FromEndSimulation = [3, 0]"
| "enc_from_type (FromUnknown u) = [4, u]"

definition dec_to_type :: "u8 \<Rightarrow> u8 \<Rightarrow> to_tansiv_type" where
  "dec_to_type a u = (if a = 0 then ToNONE else if a = 1 then ToAtDeadline
     else if a = 2 then ToSendPacket else ToUnknown u)"

definition dec_from_type :: "u8 \<Rightarrow> u8 \<Rightarrow> from_tansiv_type" where
  "dec_from_type a u = (if a = 0 then FromNONE else if a = 1 then FromGotoDeadline
     else if a = 2 then FromDeliverPacket else if a = 3 then FromEndSimulation else FromUnknown u)"

fun dec_to_msg :: "bytes \<Rightarrow> to_tansiv_msg option" where
  "dec_to_msg (a # u # t # r) = Some \<lparr>to_content_type = dec_to_type a u, to_content = Some (dec_to_table (t # r))\<rparr>"
| "dec_to_msg _ = None"

fun dec_from_msg :: "bytes \<Rightarrow> from_tansiv_msg option" where
  "dec_from_msg (a # u # t # r) =
     Some \<lparr>from_content_type = dec_from_type a u, from_content = Some (dec_from_table (t # r))\<rparr>"
| "dec_from_msg _ = None"

lemma dec_to_msg_enc: "dec_to_msg (enc_to_type ty @ enc_to_table t) = Some \<lparr>to_content_type = ty, to_content = Some t\<rparr>"
  using dec_to_table_enc [of t]
  by (cases ty; cases t) (simp_all add: dec_to_type_def del: dec_to_table_enc)

lemma dec_from_msg_enc:
  "dec_from_msg (enc_from_type ty @ enc_from_table t) = Some \<lparr>from_content_type = ty, from_content = Some t\<rparr>"
  using dec_from_table_enc [of t]
  by (cases ty; cases t) (simp_all add: dec_from_type_def del: dec_from_table_enc)

text \<open>
  The builder remembers the last thing written to it, so there is one offset.
\<close>

datatype ref_builder =
    RFresh
  | RVector bytes
  | RToTable to_tansiv_table
  | RFromTable from_tansiv_table
  | RToMsg to_tansiv_msg
  | RFromMsg from_tansiv_msg
  | RFinished bytes

fun ref_vector :: "ref_builder \<Rightarrow> bytes option" where
  "ref_vector (RVector p) = Some p"
| "ref_vector _ = None"

fun ref_to_table :: "ref_builder \<Rightarrow> to_tansiv_table option" where
  "ref_to_table (RToTable t) = Some t"
| "ref_to_table _ = None"

fun ref_from_table :: "ref_builder \<Rightarrow> from_tansiv_table option" where
  "ref_from_table (RFromTable t) = Some t"
| "ref_from_table _ = None"

fun ref_to_msg :: "ref_builder \<Rightarrow> to_tansiv_msg option" where
  "ref_to_msg (RToMsg m) = Some m"
| "ref_to_msg _ = None"

fun ref_from_msg :: "ref_builder \<Rightarrow> from_tansiv_msg option" where
  "ref_from_msg (RFromMsg m) = Some m"
| "ref_from_msg _ = None"

fun ref_body :: "ref_builder \<Rightarrow> bytes" where
  "ref_body (RToMsg \<lparr>to_content_type = ty, to_content = Some t\<rparr>) = enc_to_type ty @ enc_to_table t"
| "ref_body (RFromMsg \<lparr>from_content_type = ty, from_content = Some t\<rparr>) = enc_from_type ty @ enc_from_table t"
| "ref_body _ = []"

fun ref_finished :: "ref_builder \<Rightarrow> bytes option" where
  "ref_finished (RFinished bs) = Some bs"
| "ref_finished _ = None"

definition ref_fb :: "(ref_builder, unit) flatbuffers" where
  "ref_fb = \<lparr>
     fb_with_capacity = (\<lambda>n. RFresh),
     fb_reset = (\<lambda>b. RFresh),
     fb_create_vector = (\<lambda>b p. (RVector p, ())),
     fb_create_send_packet = (\<lambda>b m t off. (RToTable (SendPacketT (Some m) (Some t) (ref_vector b)), ())),
     fb_create_at_deadline = (\<lambda>b. (RToTable AtDeadlineT, ())),
     fb_create_to_tansiv_msg = (\<lambda>b ty off. (RToMsg \<lparr>to_content_type = ty, to_content = ref_to_table b\<rparr>, ())),
     fb_create_goto_deadline = (\<lambda>b t. (RFromTable (GotoDeadlineT (Some t)), ())),
     fb_create_deliver_packet = (\<lambda>b m off. (RFromTable (DeliverPacketT (Some m) (ref_vector b)), ())),
     fb_create_end_simulation = (\<lambda>b. (RFromTable EndSimulationT, ())),
     fb_create_from_tansiv_msg =
       (\<lambda>b ty off. (RFromMsg \<lparr>from_content_type = ty, from_content = ref_from_table b\<rparr>, ())),
     fb_finish_size_prefixed = (\<lambda>b off. RFinished (frame (ref_body b))),
     fb_finish = (\<lambda>b off. RFinished (ref_body b)),
     fb_finished_data = ref_finished,
     fb_root_from_tansiv = dec_from_msg,
     fb_root_to_tansiv = dec_to_msg,
     fb_read_u32 = dec32\<rparr>"

definition ref_view :: "(ref_builder, unit) fb_view" where
  "ref_view = \<lparr>
     fv_fresh = (\<lambda>b. b = RFresh),
     fv_vector = (\<lambda>b off. ref_vector b),
     fv_to_table = (\<lambda>b off. ref_to_table b),
     fv_from_table = (\<lambda>b off. ref_from_table b),
     fv_to_msg = (\<lambda>b off. ref_to_msg b),
     fv_from_msg = (\<lambda>b off. ref_from_msg b)\<rparr>"

lemma length_enc_to: "length (enc_to_type ty @ enc_to_table t) \<le> to_payload_length t + 40"
proof -
  have "length (enc_meta m) \<le> 9" "length (enc_time tm) \<le> 17" for m tm
    by (cases m; simp) (cases tm; simp)
  then have "length (enc_to_table t) \<le> to_payload_length t + 28"
  proof (cases t)
    case (SendPacketT m tm p)
    with \<open>length (enc_meta m) \<le> 9\<close> \<open>length (enc_time tm) \<le> 17\<close> show ?thesis by (cases p) simp_all
  qed simp
  then show ?thesis by (cases ty) simp_all
qed

lemma length_enc_from: "length (enc_from_type ty @ enc_from_table t) \<le> from_payload_length t + 40"
proof -
  have "length (enc_meta m) \<le> 9" "length (enc_time tm) \<le> 17" for m tm
    by (cases m; simp) (cases tm; simp)
  then have "length (enc_from_table t) \<le> from_payload_length t + 28"
  proof (cases t)
    case (DeliverPacketT m p)
    with \<open>length (enc_meta m) \<le> 9\<close> show ?thesis by (cases p) simp_all
  qed (simp_all add: le_trans [OF \<open>length (enc_time _) \<le> 17\<close>])
  then show ?thesis by (cases ty) simp_all
qed

lemma ref_to_msgE: "ref_to_msg b = Some m \<Longrightarrow> b = RToMsg m"
  by (cases b) simp_all

lemma ref_from_msgE: "ref_from_msg b = Some m \<Longrightarrow> b = RFromMsg m"
  by (cases b) simp_all

lemma ref_fb_laws: "fb_laws ref_fb ref_view"
proof -
  have to: "\<exists>body. ref_finished (RFinished (frame (ref_body b))) = Some (le32 (word_of_nat (length body)) @ body) \<and>
      length body < 2 ^ 32 \<and> dec_to_msg body = Some \<lparr>to_content_type = ty, to_content = Some t\<rparr>"
    if "ref_to_msg b = Some \<lparr>to_content_type = ty, to_content = Some t\<rparr>" "to_payload_length t \<le> fb_payload_limit"
    for b ty t
    using that ref_to_msgE [OF that(1)] length_enc_to [of ty t]
    by (intro exI [of _ "enc_to_type ty @ enc_to_table t"])
       (simp add: frame_def dec_to_msg_enc fb_payload_limit_def)
  have from': "\<exists>body. ref_finished (RFinished (frame (ref_body b))) = Some (le32 (word_of_nat (length body)) @ body) \<and>
      length body < 2 ^ 32 \<and> dec_from_msg body = Some \<lparr>from_content_type = ty, from_content = Some t\<rparr>"
    if "ref_from_msg b = Some \<lparr>from_content_type = ty, from_content = Some t\<rparr>"
      "from_payload_length t \<le> fb_payload_limit" for b ty t
    using that ref_from_msgE [OF that(1)] length_enc_from [of ty t]
    by (intro exI [of _ "enc_from_type ty @ enc_from_table t"])
       (simp add: frame_def dec_from_msg_enc fb_payload_limit_def)
  have "dec32 (le32 w) = w" for w
    by (simp add: le32_digits flip: enc32_def)
  with to from' show ?thesis
    unfolding fb_laws_def ref_fb_def ref_view_def by simp
qed

end
