(* ===== verification/Example_Run.thy ===== *)
theory Example_Run
  imports Deadline_Handler C_Api Test_Actor Reference_Instances
begin

text \<open>
  A small simulation, with the reference instances of the libraries and the Qemu timer: a client with
  two buffers starts, sends a packet, reaches its first deadline, where a packet is delivered to it, and
  receives it. It shows that what the theorems on runs ask for can happen.
\<close>

section \<open>The actor's messages\<close>

definition ex_goto :: "duration \<Rightarrow> bytes" where
  "ex_goto d = frame (enc_from_type FromGotoDeadline @ enc_from_table (GotoDeadlineT (Some (fb_time_of d))))"

definition ex_packet :: "packet \<Rightarrow> bytes" where
  "ex_packet = (\<lambda>(src, dst, p). frame (enc_from_type FromDeliverPacket @
     enc_from_table (DeliverPacketT (Some \<lparr>pm_src = src, pm_dst = dst\<rparr>) (Some p))))"

definition ex_stream :: "bytes \<Rightarrow> unix_stream" where
  "ex_stream bs = \<lparr>rx = bs, tx = [], wr_faults = []\<rparr>"

lemma from_frame_enc:
  assumes "length (enc_from_type ty @ enc_from_table t) < 2 ^ 32"
  shows "from_frame ref_fb (frame (enc_from_type ty @ enc_from_table t)) \<lparr>from_content_type = ty, from_content = Some t\<rparr>"
  unfolding from_frame_def
  by (rule exI [of _ "enc_from_type ty @ enc_from_table t"])
     (use assms in \<open>simp add: ref_fb_def dec_from_msg_enc MAX_PACKET_SIZE_def\<close>)

lemma ex_goto_frame: "control_frame ref_fb (NextDeadline d) (ex_goto d)"
  using from_frame_enc [of FromGotoDeadline "GotoDeadlineT (Some (fb_time_of d))"]
  by (simp add: control_frame_def ex_goto_def goto_deadline_msg_def frame_def MAX_PACKET_SIZE_def)

lemma ex_packet_frame:
  assumes "length p \<le> 1000"
  shows "packet_frames ref_fb [(src, dst, p)] [ex_packet (src, dst, p)]"
  using from_frame_enc [of FromDeliverPacket "DeliverPacketT (Some \<lparr>pm_src = src, pm_dst = dst\<rparr>) (Some p)"] assms
  by (simp add: packet_frames_def ex_packet_def deliver_packet_msg_def frame_def MAX_PACKET_SIZE_def)

lemma ex_end_frame:
  "control_frame ref_fb AfterEndSimulation (frame (enc_from_type FromEndSimulation @ enc_from_table EndSimulationT))"
  using from_frame_enc [of FromEndSimulation EndSimulationT]
  by (simp add: control_frame_def end_simulation_msg_def frame_def MAX_PACKET_SIZE_def)

lemma ex_big_packet:
  "from_frame ref_fb (ex_packet (src, dst, replicate MAX_PACKET_SIZE x)) (deliver_packet_msg src dst (replicate MAX_PACKET_SIZE x))"
  "MAX_PACKET_SIZE + 4 < length (ex_packet (src, dst, replicate MAX_PACKET_SIZE x))"
  using from_frame_enc [of FromDeliverPacket "DeliverPacketT (Some \<lparr>pm_src = src, pm_dst = dst\<rparr>) (Some (replicate MAX_PACKET_SIZE x))"]
    MAX_PACKET_SIZE_def
  by (simp_all add: ex_packet_def deliver_packet_msg_def frame_def)

section \<open>Creation\<close>

definition ex_cfg :: "int config" where
  "ex_cfg = \<lparr>actor_socket = ''actor'', cfg_address = 7, cfg_time_offset = 0, num_buffers = 2\<rparr>"

abbreviation ex_new ::
  "bytes \<Rightarrow> 'tm \<Rightarrow> ((ref_builder, unit, nat \<times> deliver_packet list, 'tm) client_context, error) result option" where
  "ex_new bs tm \<equiv> Context_new ref_fb ref_queue (\<lambda>_. Ok (ex_stream bs)) (Ok tm) (Ok ()) ex_cfg"

abbreviation ex_rel :: "(ref_builder, unit, nat \<times> deliver_packet list, 'tm) client_context \<Rightarrow> client_spec \<Rightarrow> bool" where
  "ex_rel \<equiv> client_rel ref_fb ref_view snd fst"

abbreviation ex_inv :: "(ref_builder, unit, nat \<times> deliver_packet list, 'tm) client_context \<Rightarrow> bool" where
  "ex_inv \<equiv> ctx_inv ref_fb ref_view snd fst"

lemma ex_cfg_buffers [simp]: "num_buffers ex_cfg = 2" "cfg_address ex_cfg = 7"
  by (simp_all add: ex_cfg_def)

lemma ex_new_ok:
  "\<exists>ctx. ex_new bs tm = Some (Ok ctx) \<and> ex_rel ctx (spec_new 7 2) \<and> \<not> start_once ctx \<and>
     actor (connector ctx) = ex_stream bs \<and> timer_context ctx = tm \<and> callbacks ctx = []"
proof -
  obtain ctx where c: "ex_new bs tm = Some (Ok ctx)" "actor (connector ctx) = ex_stream bs"
    using Context_new_succeeds [OF ref_queue_laws, of ex_cfg "\<lambda>_. Ok (ex_stream bs)" "ex_stream bs" ref_fb tm]
    by (auto simp: MAX_PACKET_SIZE_def isize_max_def)
  have "0 < num_buffers ex_cfg" by simp
  with new_refines [OF ref_queue_laws this c(1), of ref_view] Context_new_inv(2,3,12) [OF ref_queue_laws this c(1)] c
  show ?thesis by auto
qed

section \<open>A run\<close>

abbreviation ex_pkt :: packet where
  "ex_pkt \<equiv> (9, 7, [1, 2, 3])"

abbreviation ex_bytes :: bytes where
  "ex_bytes \<equiv> ex_goto (dur 100) @ ex_packet ex_pkt @ ex_goto (dur 200)"

abbreviation ex_ops :: "(int qemu_timer, i64, int, int, unit) timer_ops" where
  "ex_ops \<equiv> qemu_ops ref_chrono"

abbreviation ex_step ::
  "(ref_builder, unit, nat \<times> deliver_packet list, int qemu_timer) client_context \<Rightarrow> client_event \<Rightarrow>
     (ref_builder, unit, nat \<times> deliver_packet list, int qemu_timer) client_context \<Rightarrow> bool" where
  "ex_step \<equiv> client_step ex_ops qemu_slice ref_fb ref_queue snd fst"

lemma dur_inject [simp]: "m < duration_bound \<Longrightarrow> n < duration_bound \<Longrightarrow> dur m = dur n \<longleftrightarrow> m = n"
  by (simp add: duration_eq_iff)

lemma dur_le [simp]: "m < duration_bound \<Longrightarrow> n < duration_bound \<Longrightarrow> dur m \<le> dur n \<longleftrightarrow> m \<le> n"
  by (simp add: duration_le_iff)

lemma small_duration [simp]: "n < 10 ^ 9 \<Longrightarrow> n < duration_bound"
  by (erule less_trans) (simp add: duration_bound_def)

lemma ex_start:
  assumes st: "t_start T tm now (dur 100) = Some (Ok off, st)" and sl: "slice_of tm = (dur 0, dur 0)"
  shows "\<exists>ctx0 ctx. ex_new (ex_goto (dur 100) @ tail) tm = Some (Ok ctx0) \<and>
     client_step T slice_of ref_fb ref_queue snd fst ctx0 (EvStart (dur 100)) ctx \<and>
     ex_rel ctx (spec_new 7 2) \<and> rx (actor (connector ctx)) = tail \<and>
     wr_faults (actor (connector ctx)) = [] \<and> timer_context ctx = st"
proof -
  obtain ctx0 where c: "ex_new (ex_goto (dur 100) @ tail) tm = Some (Ok ctx0)" "ex_rel ctx0 (spec_new 7 2)" "\<not> start_once ctx0"
    "actor (connector ctx0) = ex_stream (ex_goto (dur 100) @ tail)" "timer_context ctx0 = tm"
    using ex_new_ok [of "ex_goto (dur 100) @ tail" tm] by blast
  have "inbox ref_fb snd ctx0 = []" "fst (input_queue ctx0) = 2" using c(2) by (simp_all add: client_rel_def spec_new_def)
  then have room: "length (snd (input_queue ctx0)) < fst (input_queue ctx0)" by (simp add: inbox_def)
  have rx: "rx (actor (connector ctx0)) = ex_goto (dur 100) @ tail"
    using c(4) by (simp add: ex_stream_def)
  obtain ctx where "client_step T slice_of ref_fb ref_queue snd fst ctx0 (EvStart (dur 100)) ctx" "ex_rel ctx (spec_new 7 2)"
    "rx (actor (connector ctx)) = tail"
    "wr_faults (actor (connector ctx)) = wr_faults (actor (connector ctx0))" "timer_context ctx = st"
    by (rule start_client_step [where slice_of = slice_of and T = T and tm' = st and off = off and now = now,
          OF ref_fb_laws c(2,3) rx ex_goto_frame room])
       (use st sl c(5) in simp_all)
  with c show ?thesis by (auto simp: ex_stream_def)
qed

text \<open>A client related to a state with an empty inbox and the actor's answer in its stream.\<close>

lemma ex_healthy:
  assumes "ex_rel ctx a" "cs_inbox a = []" "cs_limit a = 2" "\<forall>w \<in># cs_outbox a. stamp w \<le> dur 100"
    and "rx (actor (connector ctx)) = ex_packet ex_pkt @ ex_goto (dur 200)" "wr_faults (actor (connector ctx)) = []"
  shows "healthy ref_fb ref_view snd fst ctx (dur 0) (dur 100) [ex_pkt] (NextDeadline (dur 200))"
proof -
  have "in_time (dur 0) (dur 100) ctx" using outbox_late [OF assms(1), of "dur 100"] assms(4) by (simp add: in_time_iff)
  moreover have "length (snd (input_queue ctx)) + 1 < fst (input_queue ctx)"
  proof -
    have "inbox ref_fb snd ctx = []" "fst (input_queue ctx) = 2" using assms(1-3) by (simp_all add: client_rel_def)
    then show ?thesis by (simp add: inbox_def)
  qed
  moreover have "ex_inv ctx" using assms(1) by (simp add: client_rel_def)
  moreover have "\<exists>frs fr rest. rx (actor (connector ctx)) = concat frs @ fr @ rest \<and> packet_frames ref_fb [ex_pkt] frs \<and>
      control_frame ref_fb (NextDeadline (dur 200)) fr"
    by (rule exI [of _ "[ex_packet ex_pkt]"], rule exI [of _ "ex_goto (dur 200)"], rule exI [of _ "[]"])
       (use assms(5) ex_packet_frame [of "[1, 2, 3]" 9 7] ex_goto_frame [of "dur 200"] in simp)
  ultimately show ?thesis using assms(6) by (simp add: healthy_def)
qed

lemma ex_started:
  "\<exists>ctx0 ctx. ex_new ex_bytes (QemuTimer_new ref_chrono) = Some (Ok ctx0) \<and> ex_step ctx0 (EvStart (dur 100)) ctx \<and>
     ex_rel ctx (spec_new 7 2) \<and> rx (actor (connector ctx)) = ex_packet ex_pkt @ ex_goto (dur 200) \<and>
     wr_faults (actor (connector ctx)) = [] \<and>
     qemu_armed (\<lambda>x. x) (timer_context ctx) \<and> qt_offset (timer_context ctx) = 1000 \<and>
     qemu_slice (timer_context ctx) = (dur 0, dur 100)"
proof -
  let ?tm = "QemuTimer_new ref_chrono"
  obtain st where st: "QemuTimer_start ref_chrono ?tm 1000 (dur 100) = Some (Ok (ch_nanoseconds ref_chrono 1000), st)"
    "qemu_armed (\<lambda>x. x) st" "qt_offset st = sint (1000 :: i64)" "qt_prev_deadline st = qt_next_deadline ?tm"
    "qt_next_deadline st = dur 100"
    by (rule qemu_start_armed [OF ref_chrono_laws, of 1000 "dur 100"]) simp_all
  have "t_start ex_ops ?tm 1000 (dur 100) = Some (Ok (ch_nanoseconds ref_chrono 1000), st)"
    using st(1) by (simp add: qemu_ops_def)
  from ex_start [OF this, where slice_of = qemu_slice and tail = "ex_packet ex_pkt @ ex_goto (dur 200)"] st show ?thesis by (auto simp: QemuTimer_new_def)
qed

text \<open>Until the first deadline: a packet has been sent and waits, and the actor's answer is there.\<close>

abbreviation ex_sent :: client_spec where
  "ex_sent \<equiv> (spec_new 7 2)\<lparr>cs_outbox := {#(7, 9, dur 50, [4, 5])#}\<rparr>"

lemma ex_waiting:
  "\<exists>ctx0 ctx. ex_new ex_bytes (QemuTimer_new ref_chrono) = Some (Ok ctx0) \<and>
     run ex_step ctx0 [EvStart (dur 100), EvSend 9 [4, 5] (Ok ())] ctx \<and> ex_rel ctx ex_sent \<and>
     healthy ref_fb ref_view snd fst ctx (dur 0) (dur 100) [ex_pkt] (NextDeadline (dur 200)) \<and>
     qemu_armed (\<lambda>x. x) (timer_context ctx) \<and> qt_offset (timer_context ctx) = 1000 \<and>
     qemu_slice (timer_context ctx) = (dur 0, dur 100)"
proof -
  obtain ctx0 ctx1 where c: "ex_new ex_bytes (QemuTimer_new ref_chrono) = Some (Ok ctx0)"
    "ex_step ctx0 (EvStart (dur 100)) ctx1" "ex_rel ctx1 (spec_new 7 2)"
    "rx (actor (connector ctx1)) = ex_packet ex_pkt @ ex_goto (dur 200)" "wr_faults (actor (connector ctx1)) = []"
    "qemu_armed (\<lambda>x. x) (timer_context ctx1)" "qt_offset (timer_context ctx1) = 1000"
    "qemu_slice (timer_context ctx1) = (dur 0, dur 100)"
    using ex_started by blast
  obtain t where t: "QemuTimer_simulation_now ref_chrono (timer_context ctx1) 1050 = Some t"
    "int (as_nanos t) = sint (1050 :: i64) - 1000"
    by (rule qemu_simulation_now [OF ref_chrono_laws, of "timer_context ctx1" 1050]) (use c(7) in simp_all)
  then have "as_nanos t = 50" by simp
  then have t50: "t = dur 50" by (metis dur_as_nanos)
  have now: "t_simulation_now ex_ops (timer_context ctx1) 1050 = Some (dur 50)" using t(1) t50 by (simp add: qemu_ops_def)
  have "t_check_overrun ex_ops (timer_context ctx1) (dur 50) (upcoming_messages ctx1) = None"
    by (simp add: qemu_ops_def QemuTimer_check_deadline_overrun_def)
  then obtain ctx where s: "Context_send ex_ops ref_fb ctx1 1050 9 [4, 5] = Some (Ok (), ctx)" "ex_rel ctx ex_sent"
    "timer_context ctx = timer_context ctx1" "connector ctx = connector ctx1"
    using send_refines [OF ref_fb_laws c(3) now, of 9 "[4, 5]"] by (auto simp: spec_send_def spec_new_def MAX_PACKET_SIZE_def)
  have "healthy ref_fb ref_view snd fst ctx (dur 0) (dur 100) [ex_pkt] (NextDeadline (dur 200))"
    by (rule ex_healthy [OF s(2)]) (use c s in \<open>simp_all add: spec_new_def\<close>)
  moreover have "run ex_step ctx0 [EvStart (dur 100), EvSend 9 [4, 5] (Ok ())] ctx"
    by (rule run_two [where step = ex_step, OF c(2) c_send [OF s(1)]])
  ultimately show ?thesis using c s by auto
qed

text \<open>The whole run.\<close>

abbreviation ex_trace :: "stamped list \<Rightarrow> callback list \<Rightarrow> client_event list" where
  "ex_trace ws cbs \<equiv> [EvStart (dur 100), EvSend 9 [4, 5] (Ok ()),
     EvDeadline (dur 0) (dur 100) [ex_pkt] ws (NextDeadline (dur 200)) cbs, EvRecv (Ok ex_pkt)]"

text \<open>After the deadline, when the packet is there.\<close>

lemma ex_delivered:
  "\<exists>ctx0 ctx ws cbs a. ex_new ex_bytes (QemuTimer_new ref_chrono) = Some (Ok ctx0) \<and>
     run ex_step ctx0 ([EvStart (dur 100), EvSend 9 [4, 5] (Ok ())] @
       [EvDeadline (dur 0) (dur 100) [ex_pkt] ws (NextDeadline (dur 200)) cbs]) ctx \<and> ex_rel ctx a \<and> cs_inbox a = [ex_pkt]"
proof -
  obtain ctx0 ctx1 where c: "ex_new ex_bytes (QemuTimer_new ref_chrono) = Some (Ok ctx0)"
    "run ex_step ctx0 [EvStart (dur 100), EvSend 9 [4, 5] (Ok ())] ctx1" "ex_rel ctx1 ex_sent"
    "healthy ref_fb ref_view snd fst ctx1 (dur 0) (dur 100) [ex_pkt] (NextDeadline (dur 200))"
    "qemu_armed (\<lambda>x. x) (timer_context ctx1)" "qt_offset (timer_context ctx1) = 1000"
    "qemu_slice (timer_context ctx1) = (dur 0, dur 100)"
    using ex_waiting by blast
  obtain ctx2 ws cbs where d: "run ex_step ctx1 [EvDeadline (dur 0) (dur 100) [ex_pkt] ws (NextDeadline (dur 200)) cbs] ctx2"
    using qemu_handler_run [OF ref_chrono_laws ref_fb_laws ref_queue_laws refl c(5), of "dur 200" "[ex_pkt]"] c(4,6,7) by auto
  have sim: "client_sim ref_fb ref_view snd fst qemu_slice ctx1 ((dur 0, dur 100), ex_sent)"
    using c(3,7) by (simp add: client_sim_def)
  from timer_impl.client_run_sim [OF qemu.timer_impl_axioms ref_fb_laws ref_queue_laws d sim] obtain sl a where
    s: "run spec_step ((dur 0, dur 100), ex_sent) [EvDeadline (dur 0) (dur 100) [ex_pkt] ws (NextDeadline (dur 200)) cbs] (sl, a)"
    "ex_rel ctx2 a" by (auto simp: client_sim_def)
  have "cs_inbox a = [ex_pkt]" using run_oneD [OF s(1)] by (auto elim: spec_deadlineE simp: spec_deadline_def spec_new_def)
  with c(1) s(2) run_append [OF d c(2)] show ?thesis by blast
qed

lemma ex_run:
  "\<exists>ctx0 ctx ws cbs. ex_new ex_bytes (QemuTimer_new ref_chrono) = Some (Ok ctx0) \<and> run ex_step ctx0 (ex_trace ws cbs) ctx"
proof -
  obtain ctx0 ctx2 ws cbs a where c: "ex_new ex_bytes (QemuTimer_new ref_chrono) = Some (Ok ctx0)"
    "run ex_step ctx0 ([EvStart (dur 100), EvSend 9 [4, 5] (Ok ())] @
       [EvDeadline (dur 0) (dur 100) [ex_pkt] ws (NextDeadline (dur 200)) cbs]) ctx2" "ex_rel ctx2 a" "cs_inbox a = [ex_pkt]"
    using ex_delivered by blast
  obtain ctx where r: "Context_recv ref_fb ref_queue ctx2 [0, 0, 0, 0] = Some (Ok ex_pkt, [1, 2, 3, 0], ctx)"
    using recv_refines [OF ref_queue_laws c(3), of "[0, 0, 0, 0]"] c(4) by (auto simp: spec_recv_def)
  have "run ex_step ctx2 [EvRecv (Ok ex_pkt)] ctx" by (rule run_one [where step = ex_step, OF c_recv [OF r]])
  from run_append [OF this c(2)] c(1) show ?thesis by auto
qed

text \<open>The clock of a timer that was just created.\<close>

lemma ex_clock: "t_simulation_now ex_ops (QemuTimer_new ref_chrono) 50 = Some (dur 50)"
  by (simp add: qemu_ops_def QemuTimer_simulation_now_def QemuTimer_new_def ref_chrono_def chrono_max_def)

lemma ex_no_overrun: "t_check_overrun ex_ops tm t ups = None"
  by (simp add: qemu_ops_def QemuTimer_check_deadline_overrun_def)

lemma ex_new_deadlines:
  assumes "tm = QemuTimer_new ref_chrono"
  shows "t_previous_deadline ex_ops tm = Some (dur 0)" "t_next_deadline ex_ops tm = Some (dur 0)"
  using assms by (simp_all add: qemu_ops_def QemuTimer_simulation_previous_deadline_def QemuTimer_simulation_next_deadline_def QemuTimer_new_def)

section \<open>The other timers\<close>

text \<open>A process whose monotonic and local clocks both show \<open>n\<close> nanoseconds.\<close>

definition ex_env :: "nat \<Rightarrow> (int, unit) process_env" where
  "ex_env n = \<lparr>env_clock_gettime = (\<lambda>_. (0, duration_to_timespec (dur n))), env_local_now = int n,
     env_timer_settime = (\<lambda>_ _ _. (0, \<lparr>it_interval = timespec_zero, it_value = timespec_zero\<rparr>)),
     env_os_error = IoErr OtherKind ''os'', env_TIMER_ABSTIME = 1\<rparr>"

definition ex_process :: "(int, int, unit) process_timer" where
  "ex_process = \<lparr>pt_time_offset = 0, pt_application_time = SeqLock_new 0, pt_simulation_time = SeqLock_new 0,
     pt_timer_id = (), pt_at_deadline = True, pt_current_deadline = 0, pt_prev_deadline = dur 0, pt_next_deadline = dur 0,
     pt_prev_deadline_raw = dur 0, pt_next_deadline_raw = dur 0, pt_stopped = True, pt_deleted = False\<rparr>"

abbreviation ex_process_ops :: "((int, int, unit) process_timer, (int, unit) process_env, int, int, unit) timer_ops" where
  "ex_process_ops \<equiv> process_ops ref_chrono (\<lambda>_. 0)"

lemma ex_process_new: "ProcessTimer_new ref_chrono (Ok ()) (\<lambda>_ _. (0, ())) (IoErr OtherKind ''os'') ex_cfg = Ok ex_process"
  by (simp add: ProcessTimer_new_def timer_create_wrapper_def ex_cfg_def ref_chrono_def AdjustedTime_new_def ex_process_def)

lemma ex_gettime: "process_gettime (ex_env n) = Some (dur n)"
  by (simp add: process_gettime_def gettime_def ex_env_def timespec_round_trip)

lemma ex_settime: "settime_works (ex_env n)"
  by (simp add: settime_works_def ex_env_def normal_timespec_def timespec_zero_def)

text \<open>Freezing a running timer that is in order.\<close>

lemma ex_freeze:
  assumes "pt_ok st" "\<not> pt_at_deadline st"
  shows "\<exists>st1. ProcessTimer_freeze_time ref_chrono st (ex_env n) = Some (dur n, st1)"
  using assms freeze_ok [OF ex_gettime, of ref_chrono st n]
  by (simp add: ProcessTimer_application_now_def AdjustedTime_get_def read_released pt_ok_def ref_chrono_def)

text \<open>The timer after a start at time 1000, and a client with it.\<close>

definition ex_running :: "(int, int, unit) process_timer \<Rightarrow> bool" where
  "ex_running st \<longleftrightarrow> pt_ok st \<and> \<not> pt_at_deadline st \<and> \<not> pt_stopped st \<and> process_slice st = (dur 0, dur 100) \<and>
     sim_offset (\<lambda>x. x) st = - 1000 \<and> app_offset (\<lambda>x. x) st = - 1000 \<and> lateness (\<lambda>x. x) st = 0 \<and>
     as_nanos (pt_next_deadline_raw st) = 1100"

lemma ex_process_client:
  "\<exists>ctx0 ctx. ex_new (ex_goto (dur 100) @ tail) ex_process = Some (Ok ctx0) \<and>
     client_step ex_process_ops process_slice ref_fb ref_queue snd fst ctx0 (EvStart (dur 100)) ctx \<and>
     ex_rel ctx (spec_new 7 2) \<and> rx (actor (connector ctx)) = tail \<and> wr_faults (actor (connector ctx)) = [] \<and>
     ex_running (timer_context ctx)"
proof -
  obtain st where st: "ProcessTimer_start ref_chrono ex_process (ex_env 1000) (dur 100) = Some (Ok (pt_time_offset ex_process), st)"
    "pt_ok st" "\<not> pt_at_deadline st" "\<not> pt_stopped st" "sim_offset (\<lambda>x. x) st = - int (as_nanos (dur 1000))"
    "app_offset (\<lambda>x. x) st = pt_current_deadline ex_process - env_local_now (ex_env 1000)"
    "pt_prev_deadline st = dur 0" "pt_next_deadline st = dur 100" "lateness (\<lambda>x. x) st = 0"
    by (rule start_ok [OF ref_chrono_laws _ _ ex_gettime ex_settime, of ex_process 1000 "dur 100"])
       (simp_all add: ex_process_def pt_ok_def chrono_max_def)
  have t: "t_start ex_process_ops ex_process (ex_env 1000) (dur 100) = Some (Ok (pt_time_offset ex_process), st)"
    using st(1) by (simp add: process_ops_def)
  have "as_nanos (pt_next_deadline_raw st) = 1100" using st(5,8,9) by (simp add: lateness_def)
  with st have "ex_running st" by (simp add: ex_running_def ex_process_def ex_env_def)
  with ex_start [OF t, where slice_of = process_slice and tail = tail] show ?thesis by (auto simp: ex_process_def)
qed

lemma ex_process_started:
  "\<exists>ctx0 ctx. ex_new ex_bytes ex_process = Some (Ok ctx0) \<and>
     client_step ex_process_ops process_slice ref_fb ref_queue snd fst ctx0 (EvStart (dur 100)) ctx \<and>
     healthy ref_fb ref_view snd fst ctx (dur 0) (dur 100) [ex_pkt] (NextDeadline (dur 200)) \<and> ex_running (timer_context ctx)"
proof -
  obtain ctx0 ctx where c: "ex_new ex_bytes ex_process = Some (Ok ctx0)"
    "client_step ex_process_ops process_slice ref_fb ref_queue snd fst ctx0 (EvStart (dur 100)) ctx"
    "ex_rel ctx (spec_new 7 2)" "rx (actor (connector ctx)) = ex_packet ex_pkt @ ex_goto (dur 200)"
    "wr_faults (actor (connector ctx)) = []" "ex_running (timer_context ctx)"
    using ex_process_client [of "ex_packet ex_pkt @ ex_goto (dur 200)"] by auto
  have "healthy ref_fb ref_view snd fst ctx (dur 0) (dur 100) [ex_pkt] (NextDeadline (dur 200))"
    by (rule ex_healthy [OF c(3) _ _ _ c(4,5)]) (simp_all add: spec_new_def)
  with c show ?thesis by blast
qed

text \<open>Its first deadline, reached at time \<open>n\<close>, when the actor answers with \<open>after\<close> at once.\<close>

lemma ex_process_deadline:
  assumes "control_frame ref_fb after fr"
  shows "\<exists>ctx st1 ctx1. ex_running (timer_context ctx) \<and>
    ProcessTimer_freeze_time ref_chrono (timer_context ctx) (ex_env n) = Some (dur n, st1) \<and>
    Context_at_deadline ex_process_ops ref_fb ref_queue (ctx\<lparr>timer_context := st1\<rparr>) = Some (after, ctx1) \<and> timer_context ctx1 = st1"
proof -
  obtain ctx0 ctx where c: "ex_rel ctx (spec_new 7 2)" "rx (actor (connector ctx)) = fr"
    "wr_faults (actor (connector ctx)) = []" "ex_running (timer_context ctx)"
    using ex_process_client [of fr] by blast
  obtain st1 where f: "ProcessTimer_freeze_time ref_chrono (timer_context ctx) (ex_env n) = Some (dur n, st1)"
    using ex_freeze c(4) by (auto simp: ex_running_def)
  let ?ctx = "ctx\<lparr>timer_context := st1\<rparr>"
  have inv: "ex_inv ?ctx" using c(1) by (simp add: client_rel_def)
  have dl: "t_previous_deadline ex_process_ops (timer_context ?ctx) = Some (dur 0)"
    "t_next_deadline ex_process_ops (timer_context ?ctx) = Some (dur 100)"
    using frozen_deadlines [OF f, of "\<lambda>_. 0"] c(4) by (simp_all add: ex_running_def)
  have e: "inbox ref_fb snd ctx = []" "fst (input_queue ctx) = 2" "\<forall>w \<in># cs_outbox (spec_new 7 2). stamp w \<le> dur 100"
    using c(1) by (simp_all add: client_rel_def spec_new_def)
  have h: "wr_faults (actor (connector ?ctx)) = []" "in_time (dur 0) (dur 100) ?ctx"
    "rx (actor (connector ?ctx)) = concat [] @ fr @ []" "packet_frames ref_fb [] []"
    "length (snd (input_queue ?ctx)) + length ([] :: packet list) < fst (input_queue ?ctx)"
    using c(2,3) e outbox_late [OF c(1), of "dur 100"] by (simp_all add: packet_frames_def inbox_def in_time_iff)
  obtain ctx1 where "Context_at_deadline ex_process_ops ref_fb ref_queue ?ctx = Some (after, ctx1)"
    "timer_context ctx1 = timer_context ?ctx"
    by (rule at_deadline_exchange [OF ref_fb_laws ref_queue_laws inv dl h(1-4) assms h(5)])
  with c(4) f show ?thesis by auto
qed

text \<open>A virtual machine with a counter of 1 GHz and a kernel module that answers what it is asked.\<close>

definition ex_kvm_env :: "u64 \<Rightarrow> kvm_env" where
  "ex_kvm_env tsc = \<lparr>kv_rnd = (\<lambda>x. x), kv_rdtsc = tsc, kv_tsc_offset = 0, kv_register_deadline = (\<lambda>_ _ t. t),
     kv_init_check = (\<lambda>_. True), kv_tsc_khz = None\<rparr>"

abbreviation ex_kvm_ops :: "(kvm_timer, kvm_env, int, int, unit) timer_ops" where
  "ex_kvm_ops \<equiv> kvm_ops ref_chrono"

lemma ex_kvm_start:
  "\<exists>st. KvmTimer_start ref_chrono (KvmTimer_new 3) (ex_kvm_env 0) (dur 100) = Some (Ok 0, st) \<and> kvm_slice st = (dur 0, dur 100)"
proof -
  have "Duration_sub (dur 100) (dur 0) = Some (dur 100)" by (simp add: Duration_sub_eq_Some)
  then show ?thesis
    by (auto simp: KvmTimer_start_def KvmTimer_set_next_deadline_def KvmTimer_new_def ex_kvm_env_def ref_chrono_def)
qed

lemma ex_kvm_started:
  "\<exists>ctx0 ctx. ex_new ex_bytes (KvmTimer_new 3) = Some (Ok ctx0) \<and>
     client_step ex_kvm_ops kvm_slice ref_fb ref_queue snd fst ctx0 (EvStart (dur 100)) ctx \<and>
     healthy ref_fb ref_view snd fst ctx (dur 0) (dur 100) [ex_pkt] (NextDeadline (dur 200)) \<and>
     kvm_slice (timer_context ctx) = (dur 0, dur 100)"
proof -
  obtain st where st: "t_start ex_kvm_ops (KvmTimer_new 3) (ex_kvm_env 0) (dur 100) = Some (Ok 0, st)"
    "kt_prev_deadline st = dur 0" "kt_next_deadline st = dur 100"
    using ex_kvm_start by (auto simp: kvm_ops_def)
  from ex_start [OF st(1), where slice_of = kvm_slice and tail = "ex_packet ex_pkt @ ex_goto (dur 200)"] obtain ctx0 ctx where
    c: "ex_new ex_bytes (KvmTimer_new 3) = Some (Ok ctx0)"
    "client_step ex_kvm_ops kvm_slice ref_fb ref_queue snd fst ctx0 (EvStart (dur 100)) ctx"
    "ex_rel ctx (spec_new 7 2)" "rx (actor (connector ctx)) = ex_packet ex_pkt @ ex_goto (dur 200)"
    "wr_faults (actor (connector ctx)) = []" "timer_context ctx = st"
    by (auto simp: KvmTimer_new_def)
  have "healthy ref_fb ref_view snd fst ctx (dur 0) (dur 100) [ex_pkt] (NextDeadline (dur 200))"
    by (rule ex_healthy [OF c(3) _ _ _ c(4,5)]) (simp_all add: spec_new_def)
  then show ?thesis using c st by auto
qed

section \<open>The client's messages and the actor\<close>

definition ex_mark :: bytes where
  "ex_mark = frame (enc_to_type ToAtDeadline @ enc_to_table AtDeadlineT)"

definition ex_send_packet :: "stamped \<Rightarrow> bytes" where
  "ex_send_packet = (\<lambda>(src, dst, t, p). frame (enc_to_type ToSendPacket @
     enc_to_table (SendPacketT (Some \<lparr>pm_src = src, pm_dst = dst\<rparr>) (Some (fb_time_of t)) (Some p))))"

lemma to_frame_enc:
  assumes "length (enc_to_type ty @ enc_to_table t) < 2 ^ 32"
  shows "to_frame ref_fb (frame (enc_to_type ty @ enc_to_table t)) \<lparr>to_content_type = ty, to_content = Some t\<rparr>"
  unfolding to_frame_def
  by (rule exI [of _ "enc_to_type ty @ enc_to_table t"])
     (use assms in \<open>simp add: ref_fb_def dec_to_msg_enc MAX_PACKET_SIZE_def\<close>)

lemma ex_mark_frame: "to_frame ref_fb ex_mark at_deadline_msg" "length ex_mark \<le> MAX_PACKET_SIZE + 4"
  using to_frame_enc [of ToAtDeadline AtDeadlineT] by (simp_all add: ex_mark_def at_deadline_msg_def frame_def MAX_PACKET_SIZE_def)

lemma ex_send_packet_frame:
  assumes "length p \<le> 1000"
  shows "to_frame ref_fb (ex_send_packet (src, dst, t, p)) (send_packet_msg src dst t p)"
    "length (ex_send_packet (src, dst, t, p)) \<le> MAX_PACKET_SIZE + 4"
  using to_frame_enc [of ToSendPacket "SendPacketT (Some \<lparr>pm_src = src, pm_dst = dst\<rparr>) (Some (fb_time_of t)) (Some p)"] assms
  by (simp_all add: ex_send_packet_def send_packet_msg_def frame_def MAX_PACKET_SIZE_def)

lemma ex_goto_data: "fb_finished_data ref_fb (create_goto_deadline ref_fb c d) = Some (ex_goto d)"
  by (simp add: create_goto_deadline_def Let_def ref_fb_def ex_goto_def)

lemma ex_end_data:
  "fb_finished_data ref_fb (create_end_simulation ref_fb c) = Some (frame (enc_from_type FromEndSimulation @ enc_from_table EndSimulationT))"
  by (simp add: create_end_simulation_def ref_fb_def)

lemma ex_script:
  "\<exists>ta ta'. actor_ok ta \<and> ta_client ta = ex_stream [] \<and> start_actor ref_fb ta = Some (Ok (), ta') \<and>
     length (tx (ta_client ta')) \<le> MAX_PACKET_SIZE"
proof -
  obtain ta :: "ref_builder test_actor" where ta: "actor_ok ta" "ta_client ta = ex_stream []"
    by (rule actor_new_ok [of ref_fb])
  have nf: "wr_faults (ta_client ta) = []" using ta by (simp add: ex_stream_def)
  show ?thesis
    by (rule start_actor_writes [OF ref_fb_laws ta(1) nf], rule exI [of _ ta])
       (use ta in \<open>auto simp: ex_goto_data ex_end_data ex_stream_def ex_goto_def frame_def MAX_PACKET_SIZE_def\<close>)
qed

text \<open>A pool of one free buffer.\<close>

definition ex_pool :: bytes_pool where
  "ex_pool = \<lparr>buffer_size = 64, buffers = replicate 64 0, buffer_busy = [False]\<rparr>"

lemma ex_pool_ok: "bytes_ib.wf_pool ex_pool" "card (pool_busy ex_pool) < num_buffers_of ex_pool"
  "buffer_size ex_pool = 64" "pool_busy ex_pool = {}"
proof -
  show e: "pool_busy ex_pool = {}" by (auto simp: ex_pool_def busy_set_def)
  then show "card (pool_busy ex_pool) < num_buffers_of ex_pool" by (simp add: ex_pool_def)
  show "bytes_ib.wf_pool ex_pool" "buffer_size ex_pool = 64"
    by (simp_all add: ex_pool_def bytes_ib.wf_pool_def bytes_wf_arr_def isize_max_def)
qed

lemma ex_frames_short: "length (ex_goto d) \<le> buffer_size ex_pool + 4" "length (ex_packet ex_pkt) \<le> buffer_size ex_pool + 4"
  by (simp_all add: ex_pool_ok(3) ex_goto_def ex_packet_def frame_def)

lemma ex_stream_simps: "rx (ex_stream bs) = bs @ []" "(ex_stream bs)\<lparr>rx := r\<rparr> = ex_stream r"
  by (simp_all add: ex_stream_def)

end
