(* ===== verification/Example_Coordinator.thy ===== *)
theory Example_Coordinator
  imports Client_Coordinator Example_Run
begin

text \<open>
  A coordinator with two machines, with exact arithmetic for doubles, a network that delivers at once and the reference
  codec: its first turn, in which the packet that the first machine sends is delivered to the second one. It shows that
  what the theorems on the coordinator ask for can happen.
\<close>

section \<open>The libraries\<close>

fun insert_message :: "message \<Rightarrow> message list \<Rightarrow> message list" where
  "insert_message m [] = [m]"
| "insert_message m (y # ys) = (if sortMessages y m then y # insert_message m ys else m # y # ys)"

definition ref_cpp :: cpp_lib where
  "ref_cpp = \<lparr>cpp_rnd = (\<lambda>x. x), cpp_order = (\<lambda>xs. xs), cpp_sort = (\<lambda>ms. foldr insert_message ms [])\<rparr>"

lemma mset_insert_message [simp]: "mset (insert_message m ms) = add_mset m (mset ms)"
  by (induction ms) auto

lemma set_insert_message [simp]: "set (insert_message m ms) = insert m (set ms)"
  by (induction ms) auto

lemma sortMessages_trans:
  assumes "\<not> sortMessages y m" "\<not> sortMessages z y" "sent_time y \<noteq> NotANumber"
  shows "\<not> sortMessages z m"
  using assms by (cases "sent_time m"; cases "sent_time y"; cases "sent_time z") (auto simp: sortMessages_def)

lemma sorted_insert_message:
  assumes "sorted_wrt (\<lambda>i j. \<not> sortMessages j i) ms" "\<forall>y \<in> insert m (set ms). sent_time y \<noteq> NotANumber"
  shows "sorted_wrt (\<lambda>i j. \<not> sortMessages j i) (insert_message m ms)"
  using assms
proof (induction ms)
  case (Cons y ys)
  show ?case
  proof (cases "sortMessages y m")
    case True
    then have "\<not> sortMessages m y" by (simp add: sortMessages_def f64_less_asym)
    with True Cons show ?thesis by auto
  next
    case False
    then have "\<not> sortMessages z m" if "z \<in> set ys" for z
      using that Cons.prems sortMessages_trans [of y m z] by auto
    with False Cons.prems show ?thesis by auto
  qed
qed simp

lemma ref_cpp_laws: "cpp_laws ref_cpp"
proof -
  have "mset (foldr insert_message ms []) = mset ms" for ms by (induction ms) auto
  moreover have "sorted_wrt (\<lambda>i j. \<not> sortMessages j i) (foldr insert_message ms [])"
    if "\<forall>m \<in> set ms. sent_time m \<noteq> NotANumber" for ms
    using that
  proof (induction ms)
    case (Cons m ms)
    have "set (foldr insert_message ms []) = set ms" by (induction ms) auto
    with Cons show ?case by (auto intro!: sorted_insert_message)
  qed simp
  ultimately show ?thesis by (auto simp: cpp_laws_def ref_cpp_def rounding_def mono_def)
qed

text \<open>A network whose state is its clock; the latency of every route is 100 ns, and what was sent last has arrived.\<close>

definition ref_simgrid :: "(f64, unit) simgrid" where
  "ref_simgrid = \<lparr>sg_clock = (\<lambda>g. g), sg_next_events = (\<lambda>_ _. []), sg_latency = (\<lambda>_ _ _. Finite (1 / 10 ^ 7)),
     sg_sleep_until = (\<lambda>g t. if f64_less g t then t else g), sg_sendto_async = (\<lambda>g _ _ _. ((), g)),
     sg_test_any = (\<lambda>g cs. (int (length cs) - 1, g))\<rparr>"

lemma ref_simgrid_laws: "simgrid_laws ref_simgrid"
  by (simp add: simgrid_laws_def ref_simgrid_def)

lemma ref_simgrid_simps [simp]:
  "sg_test_any ref_simgrid g cs = (int (length cs) - 1, g)" "sg_clock ref_simgrid g = g"
  "sg_sleep_until ref_simgrid g t = (if f64_less g t then t else g)"
  by (simp_all add: ref_simgrid_def)

section \<open>A coordinator\<close>

definition ex_socket :: "bytes \<Rightarrow> vm_socket" where
  "ex_socket bs = \<lparr>sk_in = bs, sk_out = [], sk_recv_answers = [Interrupted, Count 3], sk_send_answers = [Count 5, Interrupted]\<rparr>"

abbreviation ex_name :: "in_addr_t \<Rightarrow> string" where
  "ex_name a \<equiv> Ipv4Addr_fmt (vsg_address_to_ipv4addr a)"

definition ex_slice :: "string \<Rightarrow> stamped list" where
  "ex_slice n = (if n = ex_name 7 then [(7, 9, dur 50, [4, 5])] else [])"

definition ex_vms :: vms_interface where
  "ex_vms = \<lparr>a_vm_stopped = False, simulate_until_any_stop = False, socket_name = ''actor'', connection_socket = 3,
     vm_sockets = [(ex_name 7, 4), (ex_name 9, 5)], vm_sockets_trash = [],
     vm_deployments = [(ex_name 7, ''a''), (ex_name 9, ''b'')],
     vi_fds = [4 \<mapsto> ex_socket (ex_send_packet (7, 9, dur 50, [4, 5]) @ ex_mark), 5 \<mapsto> ex_socket ex_mark],
     vi_launched = [], vi_unlinked = False\<rparr>"

definition ex_coordinator :: "(f64, unit) coordinator" where
  "ex_coordinator = \<lparr>vms_interface = ex_vms, co_engine = Finite 0, pending_comms = [], pending_messages = [],
     tansiv_actors = [(1, ''a''), (2, ''b'')], force_min_latency = Finite (- 1), co_min_latency = Finite (1 / 10 ^ 7)\<rparr>"

lemma ex_name_inject [simp]: "ex_name a = ex_name b \<longleftrightarrow> a = b"
  by (metis from_str_fmt ipv4addr_u32(2) option.inject swap_bytes_swap vsg_address_to_ipv4addr_def)

lemma ex_vms_ok: "vi_ok ex_vms"
  by (simp add: vi_ok_def ex_vms_def)

lemma ex_coordinator_ok: "co_ok ex_coordinator" "vi_ok (vms_interface ex_coordinator)"
  using ex_vms_ok by (simp_all add: co_ok_def ex_coordinator_def)

lemma ex_slice_bytes:
  "slice_bytes ref_fb [(7, 9, dur 50, [4, 5])] (ex_send_packet (7, 9, dur 50, [4, 5]) @ ex_mark)" "slice_bytes ref_fb [] ex_mark"
proof -
  have l: "length ex_mark \<le> SCRATCH_BUFFER_LEN + 4" "length (ex_send_packet (7, 9, dur 50, [4, 5])) \<le> SCRATCH_BUFFER_LEN + 4"
    using ex_mark_frame ex_send_packet_frame(2) [of "[4, 5]" 7 9 "dur 50"] by (simp_all add: SCRATCH_BUFFER_LEN_def MAX_PACKET_SIZE_def)
  show "slice_bytes ref_fb [] ex_mark" using l ex_mark_frame by (auto simp: slice_bytes_def)
  show "slice_bytes ref_fb [(7, 9, dur 50, [4, 5])] (ex_send_packet (7, 9, dur 50, [4, 5]) @ ex_mark)"
    unfolding slice_bytes_def
    by (rule exI [of _ "[ex_send_packet (7, 9, dur 50, [4, 5])]"], rule exI [of _ ex_mark])
       (use l ex_mark_frame ex_send_packet_frame(1) [of "[4, 5]" 7 9 "dur 50"] in \<open>simp add: fb_payload_limit_def\<close>)
qed

definition ex_input :: "string \<Rightarrow> bytes" where
  "ex_input n = (if n = ex_name 7 then ex_send_packet (7, 9, dur 50, [4, 5]) @ ex_mark else ex_mark)"

lemma ex_machines: "in_protocol ref_fb ex_slice ex_input (\<lambda>_. []) ex_vms"
  using ex_slice_bytes
  by (simp add: in_protocol_def ex_vms_def ex_slice_def ex_input_def readable_def writable_def ex_socket_def)

lemma ex_time: "simgridToVmTime (cpp_rnd ref_cpp) (Finite (1 / 10 ^ 7)) = Some \<lparr>vt_seconds = 0, vt_nseconds = 100\<rparr>"
proof -
  have "\<lfloor>1 / 10000000 :: rat\<rfloor> = 0" by (simp add: floor_eq_iff)
  then show ?thesis by (simp add: simgridToVmTime_def ref_cpp_def f64_sub_def)
qed

abbreviation ex_message :: message where
  "ex_message \<equiv> message_of (cpp_rnd ref_cpp) (7, 9, dur 50, [4, 5])"

lemma ex_message_fields: "sent_time ex_message = Finite (5 / 10 ^ 8)" "msg_src ex_message = ex_name 7" "msg_dst ex_message = ex_name 9"
proof -
  have "as_secs (dur 50) = 0" "subsec_nanos (dur 50) = 50" by (simp_all add: as_secs_def subsec_nanos_def)
  then show "sent_time ex_message = Finite (5 / 10 ^ 8)" "msg_src ex_message = ex_name 7" "msg_dst ex_message = ex_name 9"
    by (simp_all add: message_of_def Message_new_def vmToSimgridTime_def ref_cpp_def f64_of_u64_def)
qed

text \<open>The exchange of the first slice.\<close>

lemma ex_goTo:
  "\<exists>buf fds. goto_message ref_fb \<lparr>vt_seconds = 0, vt_nseconds = 100\<rparr> = Some buf \<and>
     goTo ref_fb ref_cpp ex_vms (Finite (1 / 10 ^ 7)) = Some ([ex_message], ex_vms\<lparr>vm_sockets_trash := [], vi_fds := fds\<rparr>) \<and>
     written_to fds 5 = buf \<and> writable fds 5"
proof -
  obtain buf where b: "goto_message ref_fb \<lparr>vt_seconds = 0, vt_nseconds = 100\<rparr> = Some buf"
    using goto_message_frame [OF ref_fb_laws] by blast
  show ?thesis
  proof (rule goTo_in_protocol [OF ref_fb_laws ref_cpp_laws ex_vms_ok ex_time b ex_machines])
    fix messages fds
    assume g: "goTo ref_fb ref_cpp ex_vms (Finite (1 / 10 ^ 7)) = Some (messages, ex_vms\<lparr>vm_sockets_trash := [], vi_fds := fds\<rparr>)"
      "mset messages = (\<Sum>(n, _) \<in># mset (vm_sockets ex_vms). mset (map (message_of (cpp_rnd ref_cpp)) (ex_slice n)))"
      and w: "list_all (\<lambda>(n, fd). readable fds fd [] \<and> written_to fds fd = written_to (vi_fds ex_vms) fd @ buf \<and> writable fds fd)
        (vm_sockets ex_vms)"
    have "mset messages = {#ex_message#}" using g(2) by (simp add: ex_vms_def ex_slice_def)
    then have "messages = [ex_message]" by simp
    moreover have "written_to fds 5 = buf" "writable fds 5" using w by (simp_all add: ex_vms_def written_to_def ex_socket_def)
    ultimately show ?thesis using g(1) b by auto
  qed
qed

text \<open>The first turn, in which the packet is sent and delivered.\<close>

lemma ex_turn:
  "\<exists>self. coordinator_turn ref_simgrid ref_fb ref_cpp ex_coordinator =
     Some ((Finite (1 / 10 ^ 7), [ex_message], [ex_message]), self)"
proof -
  obtain fds where g: "goTo ref_fb ref_cpp ex_vms (Finite (1 / 10 ^ 7)) = Some ([ex_message], ex_vms\<lparr>vm_sockets_trash := [], vi_fds := fds\<rparr>)"
    using ex_goTo by blast
  let ?vms = "ex_vms\<lparr>vm_sockets_trash := [], vi_fds := fds\<rparr>"
  have f: "forget_dead ref_simgrid ex_coordinator = Some ex_coordinator"
    by (simp add: forget_dead_def get_dead_vm_hosts_def ex_coordinator_def ex_vms_def)
  have d: "f64_min (f64_add (cpp_rnd ref_cpp) (sg_clock ref_simgrid (co_engine ex_coordinator)) (co_min_latency ex_coordinator))
      (get_next_event (cpp_rnd ref_cpp) ref_simgrid (co_engine ex_coordinator)) = Finite (1 / 10 ^ 7)"
    by (simp add: f64_min_def get_next_event_def ref_simgrid_def ex_coordinator_def ref_cpp_def)
  have c: "causality_check (cpp_rnd ref_cpp) ex_message (Finite 0)"
    using causality_check_exact [OF ex_message_fields(1) refl, of 0] by (simp add: ref_cpp_def)
  have h: "getHostOfVm ?vms (ex_name 7) = ''a''" "getHostOfVm ?vms (ex_name 9) = ''b''"
    by (simp_all add: getHostOfVm_def ex_vms_def)
  let ?self = "ex_coordinator\<lparr>vms_interface := ?vms, co_engine := Finite (5 / 10 ^ 8), pending_comms := [()], pending_messages := [ex_message]\<rparr>"
  have fw: "forward_messages ref_simgrid ref_cpp [ex_message] (ex_coordinator\<lparr>vms_interface := ?vms\<rparr>) = Some ?self"
    using c h by (simp add: ex_message_fields ref_simgrid_def ex_coordinator_def)
  obtain vms where v: "deliverMessage ref_fb ?vms ex_message = Some vms"
    using deliverMessage_defined [OF ref_fb_laws, of ex_message ?vms] by (auto simp: message_of_data fb_payload_limit_def)
  obtain self where da: "deliver_arrived ref_simgrid ref_fb (sleep_to_deadline ref_simgrid (Finite (1 / 10 ^ 7)) ?self) = Some ([ex_message], self)"
    using v by (simp add: deliver_arrived.simps sleep_to_deadline_def erase_def)
  have "vms_interface ex_coordinator = ex_vms" by (simp add: ex_coordinator_def)
  with da show ?thesis by (simp only: coordinator_turn_def f d g fw Option.bind.simps prod.case) blast
qed

text \<open>The bytes of a deadline in the reference codec.\<close>

lemma ex_goto_bytes:
  "goto_message ref_fb vt = Some (frame (enc_from_type FromGotoDeadline @ enc_from_table
     (GotoDeadlineT (Some \<lparr>tm_seconds = vt_seconds vt, tm_nseconds = vt_nseconds vt\<rparr>))))"
  by (simp add: goto_message_def ref_fb_def)

lemma ex_goto_length: "goto_message ref_fb vt = Some buf \<Longrightarrow> length buf \<le> MAX_PACKET_SIZE + 4"
  by (auto simp: ex_goto_bytes frame_def MAX_PACKET_SIZE_def)

text \<open>A machine that sends a packet of the largest size that a client accepts.\<close>

definition ex_big_vms :: "bytes \<Rightarrow> vms_interface" where
  "ex_big_vms bs = ex_vms\<lparr>vm_sockets := [(ex_name 7, 4)], vi_fds := [4 \<mapsto> ex_socket bs]\<rparr>"

lemma ex_big_send:
  "to_frame ref_fb (ex_send_packet (src, dst, t, replicate MAX_PACKET_SIZE x)) (send_packet_msg src dst t (replicate MAX_PACKET_SIZE x))"
  "SCRATCH_BUFFER_LEN + 4 < length (ex_send_packet (src, dst, t, replicate MAX_PACKET_SIZE x))"
  using to_frame_enc [of ToSendPacket "SendPacketT (Some \<lparr>pm_src = src, pm_dst = dst\<rparr>) (Some (fb_time_of t)) (Some (replicate MAX_PACKET_SIZE x))"]
    MAX_PACKET_SIZE_def
  by (simp_all add: ex_send_packet_def send_packet_msg_def frame_def SCRATCH_BUFFER_LEN_def)

lemma ex_big_goTo:
  "\<exists>self. goTo ref_fb ref_cpp (ex_big_vms (ex_send_packet (7, 9, dur 50, replicate MAX_PACKET_SIZE 0))) (Finite (1 / 10 ^ 7)) = Some ([], self) \<and>
     fst ` set (vm_sockets self) \<subseteq> {ex_name 7} \<and> vm_sockets_trash self = [ex_name 7]"
proof -
  let ?self = "ex_big_vms (ex_send_packet (7, 9, dur 50, replicate MAX_PACKET_SIZE 0))"
  obtain buf where b: "goto_message ref_fb \<lparr>vt_seconds = 0, vt_nseconds = 100\<rparr> = Some buf"
    using goto_message_frame [OF ref_fb_laws] by blast
  let ?self1 = "?self\<lparr>vm_sockets_trash := [], vi_fds := send_to_all (vi_fds ?self) (vm_sockets ?self) buf\<rparr>"
  obtain body where fr: "ex_send_packet (7, 9, dur 50, replicate MAX_PACKET_SIZE 0) = frame body" "length body < 2 ^ 32"
    using ex_big_send(1) [of 7 9 "dur 50" 0] by (auto simp: to_frame_def)
  have len: "SCRATCH_BUFFER_LEN < length body" using ex_big_send(2) [of 7 9 "dur 50" 0] fr(1) by (simp add: frame_def)
  have r: "readable (vi_fds ?self1) 4 (frame body @ [])"
  proof -
    have "readable (vi_fds ?self) 4 (frame body @ [])" using fr(1) by (simp add: ex_big_vms_def readable_def ex_socket_def)
    then show ?thesis by (simp add: send_to_all_readable)
  qed
  have fd: "map_of (vm_sockets ?self1) (ex_name 7) = Some 4" by (simp add: ex_big_vms_def)
  from collect_oversized [OF ref_fb_laws r len fr(2) fd] obtain fds where
    c: "collect ref_fb (cpp_rnd ref_cpp) (ex_name 7) 4 [] ?self1 = Some ([], ?self1\<lparr>vi_fds := fds,
      vm_sockets_trash := vm_sockets_trash ?self1 @ [ex_name 7], a_vm_stopped := True\<rparr>)" by blast
  have o: "cpp_order ref_cpp xs = xs" "vm_sockets ?self = [(ex_name 7, 4)]" "cpp_sort ref_cpp [] = []" for xs
    by (simp_all add: ref_cpp_def ex_big_vms_def)
  show ?thesis using ex_time b c by (simp add: goTo_def o)
qed

end
