(* ===== verification/Coordinator_Properties.thy ===== *)
theory Coordinator_Properties
  imports Example_Coordinator
begin

text \<open>
  The properties of the coordinator, and of the coordinator and a client together, each with an instance on the
  example of \<open>Example_Coordinator\<close>.
\<close>

section \<open>Slices\<close>

text \<open>
  C16. A packet that a machine sends in a slice is among the messages the coordinator collects at the deadline, and
  delivering it writes, to the connection of the machine it is addressed to and after the deadline, the frame of a
  packet with the same addresses and the same payload. This is for machines that follow the protocol, on connections that do
  not fail but may interrupt calls and transfer in pieces.
\<close>

theorem packet_reaches_peer:
  assumes "fb_laws F V" "cpp_laws L" "vi_ok self"
    and "simgridToVmTime (cpp_rnd L) deadline = Some vt" "goto_message F vt = Some buf"
    and "in_protocol F ws bs rest self"
    and "(n, fd) \<in> set (vm_sockets self)" "(src, dst, time, pl) \<in> set (ws n)" "length pl \<le> fb_payload_limit"
    and "(Ipv4Addr_fmt (vsg_address_to_ipv4addr dst), fd') \<in> set (vm_sockets self)"
  shows "\<exists>messages self1 m self2 fr. goTo F L self deadline = Some (messages, self1) \<and> m \<in> set messages \<and>
    deliverMessage F self1 m = Some self2 \<and> from_frame F fr (deliver_packet_msg src dst pl) \<and>
    written_to (vi_fds self2) fd' = written_to (vi_fds self) fd' @ buf @ fr"
  by (rule packet_relayed [OF assms]) blast

theorem packet_reaches_peer_witness:
  "\<exists>messages self1 m self2 buf fr. goTo ref_fb ref_cpp ex_vms (Finite (1 / 10 ^ 7)) = Some (messages, self1) \<and> m \<in> set messages \<and>
     deliverMessage ref_fb self1 m = Some self2 \<and> from_frame ref_fb fr (deliver_packet_msg 7 9 [4, 5]) \<and>
     written_to (vi_fds self2) 5 = buf @ fr"
proof -
  have s: "(ex_name 7, 4) \<in> set (vm_sockets ex_vms)" "(ex_name 9, 5) \<in> set (vm_sockets ex_vms)"
    "(7, 9, dur 50, [4, 5]) \<in> set (ex_slice (ex_name 7))" "written_to (vi_fds ex_vms) 5 = []"
    by (simp_all add: ex_vms_def ex_slice_def written_to_def ex_socket_def)
  have l: "length ([4, 5] :: bytes) \<le> fb_payload_limit" by (simp add: fb_payload_limit_def)
  from packet_reaches_peer [OF ref_fb_laws ref_cpp_laws ex_vms_ok ex_time ex_goto_bytes ex_machines s(1,3) l s(2)] s(4)
  show ?thesis by fastforce
qed

text \<open>
  C20. The exchange of a slice: every machine is told the deadline, exactly the bytes of its slice are read from its connection,
  and the messages returned are those of the packets of all machines, in the order of their times.
\<close>

theorem goto_exchange:
  assumes "fb_laws F V" "cpp_laws L" "vi_ok self"
    and "simgridToVmTime (cpp_rnd L) deadline = Some vt" "goto_message F vt = Some buf"
    and "in_protocol F ws bs rest self"
  shows "\<exists>messages fds. goTo F L self deadline = Some (messages, self\<lparr>vm_sockets_trash := [], vi_fds := fds\<rparr>) \<and>
    mset messages = (\<Sum>(n, _) \<in># mset (vm_sockets self). mset (map (message_of (cpp_rnd L)) (ws n))) \<and>
    sorted_wrt (\<lambda>i j. \<not> sortMessages j i) messages \<and>
    list_all (\<lambda>(n, fd). readable fds fd (rest n) \<and> written_to fds fd = written_to (vi_fds self) fd @ buf) (vm_sockets self)"
  by (rule goTo_in_protocol [OF assms], intro exI conjI, assumption+) (auto simp: list_all_iff)

theorem goto_exchange_witness:
  "\<exists>fds. goTo ref_fb ref_cpp ex_vms (Finite (1 / 10 ^ 7)) = Some ([ex_message], ex_vms\<lparr>vm_sockets_trash := [], vi_fds := fds\<rparr>) \<and>
     readable fds 4 [] \<and> readable fds 5 []"
proof -
  obtain messages fds where
    g: "goTo ref_fb ref_cpp ex_vms (Finite (1 / 10 ^ 7)) = Some (messages, ex_vms\<lparr>vm_sockets_trash := [], vi_fds := fds\<rparr>)"
    "mset messages = (\<Sum>(n, _) \<in># mset (vm_sockets ex_vms). mset (map (message_of (cpp_rnd ref_cpp)) (ex_slice n)))"
    "list_all (\<lambda>(n, fd). readable fds fd []) (vm_sockets ex_vms)"
    using goto_exchange [OF ref_fb_laws ref_cpp_laws ex_vms_ok ex_time ex_goto_bytes ex_machines] by (fastforce simp: list_all_iff)
  have "mset messages = {#ex_message#}" using g(2) by (simp add: ex_vms_def ex_slice_def)
  with g(1,3) show ?thesis by (auto simp: ex_vms_def)
qed

text \<open>
  C24. The transfers of the wire protocol are not affected by how the system splits or interrupts them: on a connection that
  works, sending writes exactly the bytes of the buffer, and receiving a message that fits into the buffer returns exactly its
  body and leaves what follows it.
\<close>

theorem socket_transfers_whole:
  assumes "fb_laws F V" "writable fds fd" "readable fds fd (frame body @ rest)" "length body \<le> n" "length body < 2 ^ 32"
  shows "fst (vsg_protocol_send fds fd buf) = Ok () \<and>
    written_to (snd (vsg_protocol_send fds fd buf)) fd = written_to fds fd @ buf \<and>
    (\<exists>fds'. fb_recv F fds fd n = (Ok body, fds') \<and> readable fds' fd rest \<and> read_only fds fd fds')"
proof -
  have "\<exists>fds'. fb_recv F fds fd n = (Ok body, fds') \<and> readable fds' fd rest \<and> read_only fds fd fds'"
    by (rule fb_recv_frame [OF assms(1,3,5), of n]) (use assms(4) in auto)
  with send_writable [OF assms(2)] show ?thesis by simp
qed

theorem socket_transfers_whole_witness:
  "written_to (snd (vsg_protocol_send [4 \<mapsto> ex_socket (frame [1, 2, 3] @ [9])] 4 [5, 6])) 4 = [5, 6] \<and>
   (\<exists>fds. fb_recv ref_fb [4 \<mapsto> ex_socket (frame [1, 2, 3] @ [9])] 4 2048 = (Ok [1, 2, 3], fds) \<and> readable fds 4 [9])"
proof -
  let ?fds = "[4 \<mapsto> ex_socket (frame [1, 2, 3] @ [9])]"
  have c: "writable ?fds 4" "readable ?fds 4 (frame [1, 2, 3] @ [9])" "written_to ?fds 4 = []"
    by (simp_all add: writable_def readable_def written_to_def ex_socket_def)
  show ?thesis
    using socket_transfers_whole [OF ref_fb_laws c(1,2), of 2048] c(3) by auto
qed

section \<open>Turns\<close>





text \<open>
  C19. The coordinator ends once the machines have: with machines that send finitely many bytes in all and then close their connections, the loop
  returns with no machine left, or one of its turns ends the process (a failed assertion, or a message that is not
  understood), after at most as many turns as there are bytes sent, plus one for each machine. It never runs forever.
\<close>

theorem coordinator_ends:
  assumes "co_ok self" "cpp_laws L" "vi_ok (vms_interface self)" "\<not> simulate_until_any_stop (vms_interface self)"
  shows "(\<exists>self'. coordinator_loop G F L self = Some self' \<and> \<not> vmActive (vms_interface self')) \<or>
    (\<exists>n self'. n \<le> vm_weight (vms_interface self) \<and> turns G F L n self = Some self' \<and> vmActive (vms_interface self') \<and>
       coordinator_turn G F L self' = None)"
  using assms by (rule loop_ends)

theorem coordinator_ends_witness:
  "(\<exists>self'. coordinator_loop ref_simgrid ref_fb ref_cpp ex_coordinator = Some self' \<and> \<not> vmActive (vms_interface self')) \<or>
    (\<exists>n self'. n \<le> vm_weight ex_vms \<and> turns ref_simgrid ref_fb ref_cpp n ex_coordinator = Some self' \<and>
       vmActive (vms_interface self') \<and> coordinator_turn ref_simgrid ref_fb ref_cpp self' = None)"
  using coordinator_ends [OF ex_coordinator_ok(1) ref_cpp_laws ex_coordinator_ok(2), of ref_simgrid ref_fb]
  by (simp add: ex_coordinator_def ex_vms_def)



section \<open>Deadlines and the client\<close>





text \<open>
  C23. A machine that sends a packet whose frame is longer than the coordinator's scratch buffer of 2048 bytes is given up: its
  connection is closed and it is no longer among the machines, although its clients may send such packets.
\<close>

theorem oversized_slice_given_up:
  assumes "fb_laws F V" "cpp_laws L" "vi_ok self" "(n, fd) \<in> set (vm_sockets self)"
    and "to_frame F fr (send_packet_msg src dst t p)" "SCRATCH_BUFFER_LEN + 4 < length fr" "readable (vi_fds self) fd (fr @ rest)"
    and "goTo F L self deadline = Some (messages, self')"
  shows "n \<notin> fst ` set (vm_sockets self') \<and> n \<in> set (vm_sockets_trash self') \<and> a_vm_stopped self'"
proof -
  obtain body where b: "fr = frame body" "length body < 2 ^ 32" using assms(5) by (auto simp: to_frame_def)
  then have "SCRATCH_BUFFER_LEN < length body" using assms(6) by (simp add: frame_def)
  from goTo_oversized [OF assms(1-4) _ this b(2) assms(8)] assms(7) b(1) show ?thesis by simp
qed

theorem oversized_slice_given_up_witness:
  "\<exists>self. goTo ref_fb ref_cpp (ex_big_vms (ex_send_packet (7, 9, dur 50, replicate MAX_PACKET_SIZE 0))) (Finite (1 / 10 ^ 7)) = Some ([], self) \<and>
     vm_sockets self = [] \<and> vm_sockets_trash self = [ex_name 7]"
proof -
  let ?fr = "ex_send_packet (7, 9, dur 50, replicate MAX_PACKET_SIZE 0)"
  let ?self = "ex_big_vms ?fr"
  obtain self where g: "goTo ref_fb ref_cpp ?self (Finite (1 / 10 ^ 7)) = Some ([], self)" "fst ` set (vm_sockets self) \<subseteq> {ex_name 7}"
    "vm_sockets_trash self = [ex_name 7]"
    using ex_big_goTo by blast
  have s: "vi_ok ?self" "(ex_name 7, 4) \<in> set (vm_sockets ?self)" "readable (vi_fds ?self) 4 (?fr @ [])"
    by (simp_all add: ex_big_vms_def ex_vms_def vi_ok_def readable_def ex_socket_def)
  note big = ex_big_send [of 7 9 "dur 50" 0]
  have "ex_name 7 \<notin> fst ` set (vm_sockets self)"
    by (rule conjunct1 [OF oversized_slice_given_up [OF ref_fb_laws ref_cpp_laws s(1,2) big s(3) g(1)]])
  then have "fst ` set (vm_sockets self) = {}" using subset_singletonD [OF g(2)] by force
  then have "vm_sockets self = []" by simp
  with g(1,3) show ?thesis by blast
qed

end
