(* ===== verification/Log_Buffer.thy ===== *)
theory Log_Buffer
  imports Tansiv_Prelude
begin

text \<open>
  The circular buffer in which the kernel module keeps its log until a worker writes it to a file,
  in \<open>kvm/Kernelspace/tansiv-timer.c\<close>. Pointers into the buffer are offsets in bytes from its start; an access out of its bounds, which
  is undefined, is \<open>None\<close>. The buffer is only used under a spinlock.
\<close>

section \<open>The buffer\<close>

record circular_buffer =
  cb_buffer :: bytes
  cb_buffer_end :: nat
  cb_head :: nat
  cb_tail :: nat
  cb_size :: int
  cb_used :: int
  cb_item_size :: nat

text \<open>\<open>memory\<close> is what \<open>kmalloc\<close> returns.\<close>

definition cb_init :: "circular_buffer \<Rightarrow> nat \<Rightarrow> nat \<Rightarrow> bytes option \<Rightarrow> circular_buffer" where
  "cb_init cb n item_size memory =
     (case memory of
        None \<Rightarrow> cb\<lparr>cb_buffer := []\<rparr>
      | Some buffer \<Rightarrow> \<lparr>cb_buffer = buffer, cb_buffer_end = n * item_size, cb_head = 0, cb_tail = 0,
          cb_size = int n, cb_used = 0, cb_item_size = item_size\<rparr>)"

definition memcpy_to :: "bytes \<Rightarrow> nat \<Rightarrow> bytes \<Rightarrow> nat \<Rightarrow> bytes option" where
  "memcpy_to dest offset src n =
     (if offset + n \<le> length dest \<and> n \<le> length src then Some (take offset dest @ take n src @ drop (offset + n) dest) else None)"

definition memcpy_from :: "bytes \<Rightarrow> nat \<Rightarrow> nat \<Rightarrow> bytes option" where
  "memcpy_from src offset n = (if offset + n \<le> length src then Some (take n (drop offset src)) else None)"

definition cb_push :: "circular_buffer \<Rightarrow> bytes \<Rightarrow> circular_buffer option" where
  "cb_push cb item = do {
     buffer \<leftarrow> memcpy_to (cb_buffer cb) (cb_head cb) item (cb_item_size cb);
     head \<leftarrow> Some (cb_head cb + cb_item_size cb);
     head \<leftarrow> Some (if head = cb_buffer_end cb then 0 else head);
     Some (cb\<lparr>cb_buffer := buffer, cb_head := head, cb_used := cb_used cb + 1\<rparr>)
   }"

definition cb_pop :: "circular_buffer \<Rightarrow> (bytes \<times> circular_buffer) option" where
  "cb_pop cb = do {
     item \<leftarrow> memcpy_from (cb_buffer cb) (cb_tail cb) (cb_item_size cb);
     tail \<leftarrow> Some (cb_tail cb + cb_item_size cb);
     tail \<leftarrow> Some (if tail = cb_buffer_end cb then 0 else tail);
     Some (item, cb\<lparr>cb_tail := tail, cb_used := cb_used cb - 1\<rparr>)
   }"

text \<open>The text in a line's buffer, up to its end (\<open>strlen\<close>).\<close>

definition c_string :: "bytes \<Rightarrow> bytes" where
  "c_string = takeWhile (\<lambda>b. b \<noteq> 0)"

text \<open>The worker; \<open>kernel_write\<close> is the file after a write, whether it succeeds or not.\<close>

function write_logs :: "('f \<Rightarrow> bytes \<Rightarrow> 'f) \<Rightarrow> circular_buffer \<Rightarrow> 'f \<Rightarrow> (circular_buffer \<times> 'f) option" where
  "write_logs kernel_write cb logs_file =
     (if 0 < cb_used cb then
        (case cb_pop cb of
           None \<Rightarrow> None
         | Some (buffer, cb) \<Rightarrow> write_logs kernel_write cb (kernel_write logs_file (c_string buffer)))
      else Some (cb, logs_file))"
  by pat_completeness auto
termination
  by (relation "measure (\<lambda>(_, cb, _). nat (cb_used cb))") (auto simp: cb_pop_def bind_eq_Some_conv)

declare write_logs.simps [simp del]

section \<open>A queue\<close>

text \<open>The item in a slot, and the buffer as the queue \<open>q\<close> of items, the oldest of them in slot \<open>t\<close>.\<close>

definition slot :: "circular_buffer \<Rightarrow> nat \<Rightarrow> bytes" where
  "slot cb k = take (cb_item_size cb) (drop (k * cb_item_size cb) (cb_buffer cb))"

definition cb_shape :: "circular_buffer \<Rightarrow> nat \<Rightarrow> bool" where
  "cb_shape cb n \<longleftrightarrow> 0 < n \<and> 0 < cb_item_size cb \<and> length (cb_buffer cb) = n * cb_item_size cb \<and>
     cb_buffer_end cb = n * cb_item_size cb \<and> cb_size cb = int n"

definition cb_holds :: "circular_buffer \<Rightarrow> nat \<Rightarrow> nat \<Rightarrow> bytes list \<Rightarrow> bool" where
  "cb_holds cb n t q \<longleftrightarrow> cb_shape cb n \<and> t < n \<and> cb_tail cb = t * cb_item_size cb \<and> cb_used cb = int (length q) \<and>
     cb_head cb = ((t + length q) mod n) * cb_item_size cb \<and> (\<forall>i < length q. slot cb ((t + i) mod n) = q ! i)"

definition is_queue :: "circular_buffer \<Rightarrow> nat \<Rightarrow> bytes list \<Rightarrow> bool" where
  "is_queue cb n q \<longleftrightarrow> length q \<le> n \<and> (\<exists>t. cb_holds cb n t q)"

lemma cb_init_queue:
  assumes "0 < n" "0 < w" "length memory = n * w"
  shows "is_queue (cb_init cb n w (Some memory)) n []"
  using assms by (auto simp: is_queue_def cb_holds_def cb_shape_def cb_init_def)

lemma slot_range: "k < n \<Longrightarrow> k * w + w \<le> n * (w :: nat)"
  by (metis Suc_leI add.commute mult_Suc mult_le_mono1)

lemma wrap_offset:
  assumes "k < n" "0 < w"
  shows "(if k * w + w = n * w then 0 else k * w + w) = (Suc k mod n) * (w :: nat)"
proof (cases "Suc k = n")
  case True
  then show ?thesis using assms by auto
next
  case False
  then have "k * w + w \<noteq> n * w" using assms(2) by (metis add.commute mult_Suc mult_cancel2 not_gr0)
  with False assms(1) show ?thesis by simp
qed

text \<open>Writing a slot changes that slot only.\<close>

lemma memcpy_slot:
  assumes "cb_shape cb n" "k < n" "length item = cb_item_size cb"
  obtains buf where "memcpy_to (cb_buffer cb) (k * cb_item_size cb) item (cb_item_size cb) = Some buf"
    "length buf = length (cb_buffer cb)"
    "\<And>h u. slot (cb\<lparr>cb_buffer := buf, cb_head := h, cb_used := u\<rparr>) k = item"
    "\<And>j h u. j < n \<Longrightarrow> j \<noteq> k \<Longrightarrow> slot (cb\<lparr>cb_buffer := buf, cb_head := h, cb_used := u\<rparr>) j = slot cb j"
proof -
  let ?w = "cb_item_size cb"
  let ?buf = "take (k * ?w) (cb_buffer cb) @ item @ drop (k * ?w + ?w) (cb_buffer cb)"
  have len: "length (cb_buffer cb) = n * ?w" "k * ?w + ?w \<le> n * ?w" using assms slot_range by (simp_all add: cb_shape_def)
  then have m: "min (n * ?w) (k * ?w) = k * ?w" by linarith
  have "take ?w (drop (j * ?w) ?buf) = take ?w (drop (j * ?w) (cb_buffer cb))" if j: "j < n" "j \<noteq> k" for j
  proof (cases "j < k")
    case True
    have b: "j * ?w + ?w \<le> k * ?w" by (rule slot_range [OF True])
    have "j * ?w - k * ?w = 0" using b by linarith
    with m have d: "drop (j * ?w) ?buf = take (k * ?w - j * ?w) (drop (j * ?w) (cb_buffer cb)) @ item @ drop (k * ?w + ?w) (cb_buffer cb)"
      using len by (simp add: drop_take)
    show ?thesis unfolding d using b len by simp
  next
    case False
    then have b: "k * ?w + ?w \<le> j * ?w" using j slot_range [of k j ?w] by simp
    have "drop (j * ?w) ?buf = drop (j * ?w - (k * ?w + ?w)) (drop (k * ?w + ?w) (cb_buffer cb))"
      using b len m assms(3) False by simp
    with b show ?thesis by simp
  qed
  moreover have "memcpy_to (cb_buffer cb) (k * ?w) item ?w = Some ?buf" "length ?buf = length (cb_buffer cb)"
    using len assms(3) by (simp_all add: memcpy_to_def)
  moreover have "take ?w (drop (k * ?w) ?buf) = item" using len m assms(3) by simp
  ultimately show ?thesis using that [of ?buf] by (simp add: slot_def)
qed

text \<open>Popping takes the oldest item.\<close>

lemma cb_pop_holds:
  assumes h: "cb_holds cb n t (x # xs)"
  obtains cb' where "cb_pop cb = Some (x, cb')" "cb_holds cb' n (Suc t mod n) xs" "cb_item_size cb' = cb_item_size cb"
proof -
  let ?w = "cb_item_size cb"
  have s: "cb_shape cb n" "t < n" "cb_tail cb = t * ?w" using h by (simp_all add: cb_holds_def)
  have "slot cb ((t + 0) mod n) = (x # xs) ! 0" using h unfolding cb_holds_def by (metis length_greater_0_conv list.distinct(1))
  then have x: "slot cb t = x" using s(2) by simp
  have "memcpy_from (cb_buffer cb) (cb_tail cb) ?w = Some x"
    using s x slot_range [OF s(2), of ?w] by (simp add: memcpy_from_def slot_def cb_shape_def)
  then have p: "cb_pop cb = Some (x, cb\<lparr>cb_tail := (Suc t mod n) * ?w, cb_used := cb_used cb - 1\<rparr>)"
    using s wrap_offset [OF s(2), of ?w] by (simp add: cb_pop_def cb_shape_def)
  let ?cb = "cb\<lparr>cb_tail := (Suc t mod n) * ?w, cb_used := cb_used cb - 1\<rparr>"
  have "slot ?cb ((Suc t mod n + i) mod n) = xs ! i" if "i < length xs" for i
  proof -
    have "slot cb ((t + Suc i) mod n) = (x # xs) ! Suc i" using h that unfolding cb_holds_def by (metis Suc_less_eq length_Cons)
    then show ?thesis by (simp add: slot_def mod_add_left_eq)
  qed
  moreover have "(Suc t mod n + length xs) mod n = (t + length (x # xs)) mod n" by (simp add: mod_add_left_eq)
  ultimately have "cb_holds ?cb n (Suc t mod n) xs" using h s by (simp add: cb_holds_def cb_shape_def)
  with p that show ?thesis by simp
qed

text \<open>Pushing fills the next slot, whether it is free or not.\<close>

lemma cb_push_slots:
  assumes h: "cb_holds cb n t q" and i: "length item = cb_item_size cb"
  obtains cb' where "cb_push cb item = Some cb'" "cb_shape cb' n" "cb_item_size cb' = cb_item_size cb" "cb_tail cb' = cb_tail cb"
    "cb_used cb' = int (length q) + 1" "cb_head cb' = ((t + Suc (length q)) mod n) * cb_item_size cb"
    "\<forall>j < n. slot cb' j = (if j = (t + length q) mod n then item else slot cb j)"
proof -
  let ?w = "cb_item_size cb" and ?k = "(t + length q) mod n"
  have s: "cb_shape cb n" "cb_head cb = ?k * ?w" "cb_used cb = int (length q)" using h by (simp_all add: cb_holds_def)
  have k: "?k < n" "0 < ?w" using s(1) by (simp_all add: cb_shape_def)
  obtain buf where b: "memcpy_to (cb_buffer cb) (?k * ?w) item ?w = Some buf" "length buf = length (cb_buffer cb)"
    "\<And>h u. slot (cb\<lparr>cb_buffer := buf, cb_head := h, cb_used := u\<rparr>) ?k = item"
    "\<And>j h u. j < n \<Longrightarrow> j \<noteq> ?k \<Longrightarrow> slot (cb\<lparr>cb_buffer := buf, cb_head := h, cb_used := u\<rparr>) j = slot cb j"
    using memcpy_slot [OF s(1) k(1) i] by blast
  let ?cb = "cb\<lparr>cb_buffer := buf, cb_head := (Suc ?k mod n) * ?w, cb_used := cb_used cb + 1\<rparr>"
  have "cb_push cb item = Some ?cb"
    using b(1) s wrap_offset [OF k] by (simp add: cb_push_def cb_shape_def)
  moreover have "Suc ?k mod n = (t + Suc (length q)) mod n" by (simp add: mod_Suc_eq)
  ultimately show ?thesis using that [of ?cb] b s by (auto simp: cb_shape_def)
qed

lemma mod_distinct:
  assumes "i < j" "j < n + i"
  shows "(t + i) mod n \<noteq> (t + j) mod (n :: nat)"
proof
  assume "(t + i) mod n = (t + j) mod n"
  then have "(t + i - (t + j)) mod n = 0 \<and> n dvd (t + j) - (t + i)" by (metis assms(1) diff_is_0_eq' mod_0 mod_eq_dvd_iff_nat
    nat_add_left_cancel_le less_imp_le)
  then have "n dvd j - i" by simp
  then show False using assms by (auto dest: dvd_imp_le)
qed

text \<open>With a free slot this is the end of a queue; without, the newest item takes the place of the oldest and is there twice.\<close>

lemma cb_push_room:
  assumes h: "cb_holds cb n t q" and i: "length item = cb_item_size cb" and room: "length q < n"
  obtains cb' where "cb_push cb item = Some cb'" "cb_holds cb' n t (q @ [item])" "cb_item_size cb' = cb_item_size cb"
proof (rule cb_push_slots [OF h i])
  fix cb' assume p: "cb_push cb item = Some cb'" "cb_shape cb' n" "cb_item_size cb' = cb_item_size cb" "cb_tail cb' = cb_tail cb"
    "cb_used cb' = int (length q) + 1" "cb_head cb' = ((t + Suc (length q)) mod n) * cb_item_size cb"
    "\<forall>j < n. slot cb' j = (if j = (t + length q) mod n then item else slot cb j)"
  have "slot cb' ((t + j) mod n) = (q @ [item]) ! j" if "j < Suc (length q)" for j
  proof (cases "j = length q")
    case False
    then have j: "j < length q" using that by simp
    have "(t + j) mod n \<noteq> (t + length q) mod n" by (rule mod_distinct) (use j room in simp_all)
    then show ?thesis using p(7) h j room by (simp add: cb_holds_def nth_append)
  qed (use p(7) room in simp)
  then have "cb_holds cb' n t (q @ [item])" using p h by (simp add: cb_holds_def)
  with that p(1,3) show thesis by blast
qed

lemma cb_push_full:
  assumes h: "cb_holds cb n t q" and i: "length item = cb_item_size cb" and full: "length q = n"
  obtains cb' where "cb_push cb item = Some cb'" "cb_holds cb' n t (item # tl q @ [item])"
proof (rule cb_push_slots [OF h i])
  fix cb' assume p: "cb_push cb item = Some cb'" "cb_shape cb' n" "cb_item_size cb' = cb_item_size cb" "cb_tail cb' = cb_tail cb"
    "cb_used cb' = int (length q) + 1" "cb_head cb' = ((t + Suc (length q)) mod n) * cb_item_size cb"
    "\<forall>j < n. slot cb' j = (if j = (t + length q) mod n then item else slot cb j)"
  have n: "0 < n" "t < n" using h by (simp_all add: cb_holds_def cb_shape_def)
  have t: "slot cb' t = item" using p(7) n full by simp
  have "slot cb' ((t + j) mod n) = (item # tl q @ [item]) ! j" if j: "j < Suc n" for j
  proof (cases "j = 0 \<or> j = n")
    case True
    then show ?thesis using t n full by (auto simp: nth_append nth_Cons')
  next
    case False
    then have "(t + 0) mod n \<noteq> (t + j) mod n" using j by (intro mod_distinct) simp_all
    then have "slot cb' ((t + j) mod n) = slot cb ((t + j) mod n)" using p(7) n full by simp
    also have "\<dots> = q ! j" using h j False full by (simp add: cb_holds_def)
    also have "\<dots> = (item # tl q @ [item]) ! j" using False j full by (cases j) (auto simp: nth_append nth_tl)
    finally show ?thesis .
  qed
  moreover have "length (item # tl q @ [item]) = Suc n" using n full by simp
  ultimately have "cb_holds cb' n t (item # tl q @ [item])" using p h full by (simp add: cb_holds_def)
  with that p(1) show thesis by blast
qed

text \<open>The worker writes everything, in order.\<close>

lemma write_logs_all:
  assumes "cb_holds cb n t q"
  shows "\<exists>cb' t'. write_logs kernel_write cb logs_file = Some (cb', foldl kernel_write logs_file (map c_string q)) \<and> cb_holds cb' n t' []"
  using assms
proof (induction q arbitrary: cb t logs_file)
  case Nil
  then show ?case by (auto simp: write_logs.simps [of kernel_write cb] cb_holds_def)
next
  case (Cons x xs)
  obtain cb1 where c: "cb_pop cb = Some (x, cb1)" "cb_holds cb1 n (Suc t mod n) xs" by (rule cb_pop_holds [OF Cons.prems])
  have "0 < cb_used cb" using Cons.prems by (simp add: cb_holds_def)
  with c(1) Cons.IH [OF c(2), of "kernel_write logs_file (c_string x)"] show ?case by (simp add: write_logs.simps [of kernel_write cb])
qed

text \<open>A push is always defined on such a buffer, even beyond its capacity.\<close>

lemma cb_push_any:
  assumes h: "cb_holds cb n t q" and i: "length item = cb_item_size cb"
  obtains cb' q' where "cb_push cb item = Some cb'" "cb_holds cb' n t q'" "cb_item_size cb' = cb_item_size cb"
proof (rule cb_push_slots [OF h i])
  fix cb' assume p: "cb_push cb item = Some cb'" "cb_shape cb' n" "cb_item_size cb' = cb_item_size cb" "cb_tail cb' = cb_tail cb"
    "cb_used cb' = int (length q) + 1" "cb_head cb' = ((t + Suc (length q)) mod n) * cb_item_size cb"
  let ?q = "map (\<lambda>j. slot cb' ((t + j) mod n)) [0..<Suc (length q)]"
  have l: "length ?q = Suc (length q)" by simp
  have "cb_holds cb' n t ?q"
    unfolding cb_holds_def l using p h by (simp add: cb_holds_def del: upt_Suc)
  with that p(1,3) show thesis by blast
qed

end
