(* ===== verification/Kvm_Module.thy ===== *)
theory Kvm_Module
  imports Timer_Qemukvm Log_Buffer Vsg_Address
begin

text \<open>
  The kernel module that ends the slices of a virtual machine, \<open>kvm/Kernelspace/tansiv-timer.c\<close>, and
  the functions through which the client calls it, \<open>kvm/tansiv-timer/tansiv-timer.c\<close>.

  The functions of the kernel and of its KVM are arguments, in \<open>kernel\<close>; what the module asks them to do is
  recorded (hooks, references put, exits requested, work scheduled). A dereference of a null or an uninitialised pointer is \<open>None\<close>. A structure in user
  space is part of the request, and comes back as it is after the call. Reading the time stamp counter twice gives the
  pair \<open>k_rdtsc\<close>; \<open>k_stack\<close> is what the line buffer on the stack holds before.
\<close>

section \<open>State\<close>

type_synonym pid_t = c_int

record 'p kernel =
  k_find_get_pid :: "pid_t \<Rightarrow> 'p option"
  k_pid_nr :: "'p \<Rightarrow> pid_t"
  k_krealloc_ok :: bool
  k_copy_from_user_ok :: bool
  k_copy_to_user_ok :: bool
  k_rdtsc :: "u64 \<times> u64"
  k_cpu :: c_int
  k_get_tsc_offset :: "pid_t \<Rightarrow> u64"
  k_get_tsc_scaling_ratio :: "pid_t \<Rightarrow> u64"
  k_set_preemption_timer :: "pid_t \<Rightarrow> u64 \<Rightarrow> u64"
  k_scale_tsc :: "u64 \<Rightarrow> u64 \<Rightarrow> u64"
  k_stack :: bytes

record 'p struct_pid_array =
  pa_array :: "'p option list option"
  pa_size :: nat
  pa_used :: nat

record tansiv_vm_tsc_infos =
  ti_tsc_offset :: u64
  ti_tsc_scaling_ratio :: u64

record 'p tansiv_vm =
  vm_pid :: "'p option"
  vcpus_pids :: "'p struct_pid_array"
  init_status :: bool
  vm_deadline :: u64
  vm_tsc_offset :: u64
  vm_tsc_scaling_ratio :: u64
  vm_deadline_tsc :: u64
  timer_start :: u64
  lapic_tsc_deadline :: u64
  tsc_infos :: tansiv_vm_tsc_infos

record 'p tansiv_module =
  files :: "c_int \<Rightarrow> 'p tansiv_vm option"
  logs_buffer :: circular_buffer
  works_scheduled :: nat
  tsc_hooks :: "pid_t list"
  pids_put :: "'p list"
  exits_requested :: "pid_t list"

section \<open>Arrays of processes\<close>

abbreviation k_ENOMEM :: int where "k_ENOMEM \<equiv> 12"
abbreviation k_EFAULT :: int where "k_EFAULT \<equiv> 14"
abbreviation k_EINVAL :: int where "k_EINVAL \<equiv> 22"

definition DEFAULT_NUMBER_VCPUS :: nat where
  "DEFAULT_NUMBER_VCPUS = 8"

definition init_struct_pid_array :: "bool \<Rightarrow> 'p struct_pid_array \<Rightarrow> nat \<Rightarrow> int \<times> 'p struct_pid_array" where
  "init_struct_pid_array kmalloc_ok array n =
     (if \<not> kmalloc_ok then (- k_ENOMEM, array\<lparr>pa_array := None\<rparr>)
      else (0, \<lparr>pa_array = Some (replicate n None), pa_size = n, pa_used = 0\<rparr>))"

text \<open>
  The process's structure is copied before the check, so that an unknown process is a null pointer dereferenced; the check itself
  is of the address of the copy, which is never null.
\<close>

definition register_target_pid :: "'p kernel \<Rightarrow> pid_t \<Rightarrow> (int \<times> 'p) option" where
  "register_target_pid K pid = do {
     target_pid \<leftarrow> k_find_get_pid K pid;
     Some (0, target_pid)
   }"

definition insert_struct_pid_array :: "'p kernel \<Rightarrow> 'p struct_pid_array \<Rightarrow> pid_t \<Rightarrow> (int \<times> 'p struct_pid_array) option" where
  "insert_struct_pid_array K array pid =
     (let full = (pa_used array = pa_size array);
          grown = (if full then
              (if k_krealloc_ok K then
                 array\<lparr>pa_array := Some (take (2 * pa_size array + 1) (case_option [] (\<lambda>xs. xs) (pa_array array)) @
                     replicate (2 * pa_size array + 1 - length (case_option [] (\<lambda>xs. xs) (pa_array array))) None),
                   pa_size := 2 * pa_size array + 1\<rparr>
               else array\<lparr>pa_array := None\<rparr>)
            else array)
      in if full \<and> \<not> k_krealloc_ok K then Some (- k_ENOMEM, grown)
         else do {
           slots \<leftarrow> pa_array grown;
           assert_that (pa_used grown < length slots);
           (error, target_pid) \<leftarrow> register_target_pid K pid;
           Some (error, grown\<lparr>pa_array := Some (slots[pa_used grown := Some target_pid])\<rparr>)
         })"

section \<open>Log lines\<close>

fun show_nat :: "nat \<Rightarrow> string" where
  "show_nat n = (if n < 10 then [digit_char n] else show_nat (n div 10) @ [digit_char (n mod 10)])"

declare show_nat.simps [simp del]

text \<open>The conversions \<open>%d\<close>, \<open>%llu\<close> and \<open>%lld\<close>.\<close>

definition show_signed :: "int \<Rightarrow> string" where
  "show_signed i = (if i < 0 then ''-'' @ show_nat (nat (- i)) else show_nat (nat i))"

definition show_u64 :: "u64 \<Rightarrow> string" where
  "show_u64 w = show_nat (unat w)"

text \<open>A line printed to the buffer on the stack, with its end mark.\<close>

definition sprintf_line :: "bytes \<Rightarrow> string \<Rightarrow> bytes" where
  "sprintf_line stack line = map of_char line @ [0] @ drop (length line + 1) stack"

definition push_line :: "'p tansiv_module \<Rightarrow> bytes \<Rightarrow> 'p tansiv_module option" where
  "push_line md buffer = do {
     cb \<leftarrow> cb_push (logs_buffer md) buffer;
     Some (md\<lparr>logs_buffer := cb, works_scheduled := works_scheduled md + 1\<rparr>)
   }"

section \<open>The timer and the shared page\<close>

text \<open>
  The handler of a machine's timer; \<open>timer_tsc_deadline\<close>, \<open>softexpires\<close> and \<open>now\<close> are what the kernel's timer and clock show.
\<close>

definition timer_handler ::
  "'p kernel \<Rightarrow> u64 \<Rightarrow> i64 \<Rightarrow> i64 \<Rightarrow> 'p tansiv_vm \<Rightarrow> 'p tansiv_module \<Rightarrow> ('p tansiv_vm \<times> 'p tansiv_module) option" where
  "timer_handler K timer_tsc_deadline softexpires now vm md = do {
     vm \<leftarrow> Some (if lapic_tsc_deadline vm = timer_tsc_deadline
         then vm\<lparr>lapic_tsc_deadline := timer_start vm + vm_deadline_tsc vm\<rparr>
         else vm\<lparr>lapic_tsc_deadline := timer_tsc_deadline\<rparr>);
     programmed_tsc \<leftarrow> Some (k_scale_tsc K (lapic_tsc_deadline vm) (vm_tsc_scaling_ratio vm) + vm_tsc_offset vm);
     pid \<leftarrow> vm_pid vm;
     buffer \<leftarrow> Some (sprintf_line (k_stack K) (''timer-handler;'' @ show_signed (sint (k_pid_nr K pid)) @ '';'' @
         show_signed (sint (k_cpu K)) @ '';'' @ show_signed (sint softexpires) @ '';'' @ show_signed (sint now) @ '';'' @
         show_u64 programmed_tsc @ '';'' @ show_u64 (vm_deadline vm) @ [CHR 0x0A]));
     md \<leftarrow> push_line md buffer;
     Some (vm, md\<lparr>exits_requested := exits_requested md @ [k_pid_nr K pid]\<rparr>)
   }"

definition update_tsc_infos :: "'p tansiv_vm \<Rightarrow> u64 \<Rightarrow> u64 \<Rightarrow> 'p tansiv_vm" where
  "update_tsc_infos vm tsc_offset tsc_scaling_ratio =
     vm\<lparr>tsc_infos := \<lparr>ti_tsc_offset = tsc_offset, ti_tsc_scaling_ratio = tsc_scaling_ratio\<rparr>\<rparr>"

section \<open>The device\<close>

text \<open>The allocations are arguments; \<open>uninit\<close> is what the memory of the machine's array holds before.\<close>

definition init_vm :: "bool \<Rightarrow> bool \<Rightarrow> bool \<Rightarrow> 'p struct_pid_array \<Rightarrow> 'p tansiv_vm option" where
  "init_vm vm_ok page_ok array_ok uninit = do {
     assert_that (vm_ok \<and> page_ok);
     Some \<lparr>vm_pid = None, vcpus_pids = snd (init_struct_pid_array array_ok uninit DEFAULT_NUMBER_VCPUS), init_status = False,
       vm_deadline = 0, vm_tsc_offset = 0, vm_tsc_scaling_ratio = 0, vm_deadline_tsc = 0, timer_start = 0, lapic_tsc_deadline = 0,
       tsc_infos = \<lparr>ti_tsc_offset = 0, ti_tsc_scaling_ratio = 0\<rparr>\<rparr>
   }"

text \<open>References to the machine's process and to those of its virtual CPUs are put; each of them must have been initialised.\<close>

fun all_some :: "'a option list \<Rightarrow> 'a list option" where
  "all_some [] = Some []"
| "all_some (x # xs) = do { y \<leftarrow> x; ys \<leftarrow> all_some xs; Some (y # ys) }"

definition free_vm :: "'p tansiv_vm \<Rightarrow> 'p tansiv_module \<Rightarrow> 'p tansiv_module option" where
  "free_vm vm md = do {
     pid \<leftarrow> vm_pid vm;
     slots \<leftarrow> Some (case_option [] (\<lambda>xs. xs) (pa_array (vcpus_pids vm)));
     assert_that (pa_used (vcpus_pids vm) \<le> length slots);
     vcpus \<leftarrow> all_some (take (pa_used (vcpus_pids vm)) slots);
     Some (md\<lparr>pids_put := pids_put md @ pid # vcpus\<rparr>)
   }"

definition device_open :: "bool \<Rightarrow> bool \<Rightarrow> bool \<Rightarrow> 'p struct_pid_array \<Rightarrow> 'p tansiv_module \<Rightarrow> c_int \<Rightarrow> 'p tansiv_module option" where
  "device_open vm_ok page_ok array_ok uninit md fd = do {
     vm \<leftarrow> init_vm vm_ok page_ok array_ok uninit;
     Some (md\<lparr>files := (files md)(fd \<mapsto> vm)\<rparr>)
   }"

definition device_release :: "'p tansiv_module \<Rightarrow> c_int \<Rightarrow> 'p tansiv_module option" where
  "device_release md fd = do {
     vm \<leftarrow> files md fd;
     md \<leftarrow> free_vm vm md;
     Some (md\<lparr>files := (files md)(fd := None)\<rparr>)
   }"

record tansiv_deadline_ioctl =
  dl_deadline :: u64
  dl_deadline_tsc :: u64
  dl_vmx_timer_value :: u64

datatype ioctl_request =
    TANSIV_REGISTER_VM pid_t
  | TANSIV_REGISTER_DEADLINE tansiv_deadline_ioctl
  | TANSIV_REGISTER_VCPU pid_t
  | TANSIV_INIT_END
  | TANSIV_INIT_CHECK bool
  | UnknownIoctl u32

definition register_deadline ::
  "'p kernel \<Rightarrow> tansiv_deadline_ioctl \<Rightarrow> 'p tansiv_vm \<Rightarrow> 'p tansiv_module \<Rightarrow>
     (tansiv_deadline_ioctl \<times> 'p tansiv_vm \<times> 'p tansiv_module) option" where
  "register_deadline K deadline vm md = do {
     pid \<leftarrow> map_option (k_pid_nr K) (vm_pid vm);
     md \<leftarrow> Some (if vm_deadline vm = 0 then md\<lparr>tsc_hooks := tsc_hooks md @ [pid]\<rparr> else md);
     vm \<leftarrow> Some (vm\<lparr>vm_deadline := vm_deadline vm + dl_deadline deadline, vm_deadline_tsc := dl_deadline_tsc deadline\<rparr>);
     (tsc_before, tsc_after) \<leftarrow> Some (k_rdtsc K);
     vm \<leftarrow> Some (vm\<lparr>vm_tsc_offset := k_get_tsc_offset K pid, vm_tsc_scaling_ratio := k_get_tsc_scaling_ratio K pid,
         timer_start := drop_bit 1 (tsc_before + tsc_after)\<rparr>);
     vmx_timer_value \<leftarrow> Some (k_set_preemption_timer K pid (vm_deadline_tsc vm));
     deadline \<leftarrow> Some (deadline\<lparr>dl_vmx_timer_value := vmx_timer_value\<rparr>);
     tsc_before_guest \<leftarrow> Some (k_scale_tsc K tsc_before (vm_tsc_scaling_ratio vm) + vm_tsc_offset vm);
     tsc_after_guest \<leftarrow> Some (k_scale_tsc K tsc_after (vm_tsc_scaling_ratio vm) + vm_tsc_offset vm);
     buffer \<leftarrow> Some (sprintf_line (k_stack K) (''register-deadline;'' @ show_signed (sint pid) @ '';'' @
         show_signed (sint (k_cpu K)) @ '';'' @ show_u64 (vm_deadline vm) @ '';'' @
         show_u64 tsc_before_guest @ '';'' @ show_u64 tsc_after_guest @ [CHR 0x0A]));
     md \<leftarrow> push_line md buffer;
     Some (deadline, vm, md)
   }"

text \<open>The handler of requests: its result, the structure in user space, the machine and the module after it.\<close>

definition device_ioctl ::
  "'p kernel \<Rightarrow> 'p tansiv_vm \<Rightarrow> 'p tansiv_module \<Rightarrow> ioctl_request \<Rightarrow> (int \<times> ioctl_request \<times> 'p tansiv_vm \<times> 'p tansiv_module) option" where
  "device_ioctl K vm md req =
     (case req of
        UnknownIoctl n \<Rightarrow> Some (- k_EINVAL, req, vm, md)
      | _ \<Rightarrow>
          if \<not> k_copy_from_user_ok K then Some (- k_EFAULT, req, vm, md)
          else (case req of
              TANSIV_REGISTER_VM pid \<Rightarrow> do {
                (error, target_pid) \<leftarrow> register_target_pid K pid;
                vm \<leftarrow> Some (vm\<lparr>vm_pid := Some target_pid\<rparr>);
                if error \<noteq> 0 then Some (- k_EFAULT, req, vm, md\<lparr>pids_put := pids_put md @ [target_pid]\<rparr>)
                else Some (0, req, vm, md)
              }
            | TANSIV_REGISTER_DEADLINE deadline \<Rightarrow> do {
                (deadline, vm, md) \<leftarrow> register_deadline K deadline vm md;
                if \<not> k_copy_to_user_ok K then Some (- k_EFAULT, req, vm, md)
                else Some (0, TANSIV_REGISTER_DEADLINE deadline, vm, md)
              }
            | TANSIV_REGISTER_VCPU vcpu_pid \<Rightarrow> do {
                (_, array) \<leftarrow> insert_struct_pid_array K (vcpus_pids vm) vcpu_pid;
                Some (0, req, vm\<lparr>vcpus_pids := array\<rparr>, md)
              }
            | TANSIV_INIT_END \<Rightarrow> Some (0, req, vm\<lparr>init_status := True\<rparr>, md)
            | TANSIV_INIT_CHECK _ \<Rightarrow>
                if \<not> k_copy_to_user_ok K then Some (- k_EFAULT, req, vm, md)
                else Some (0, TANSIV_INIT_CHECK (init_status vm), vm, md)
            | UnknownIoctl n \<Rightarrow> Some (- k_EINVAL, req, vm, md)))"

text \<open>One page at offset 0 can be mapped, and nothing else.\<close>

definition device_mmap :: "nat \<Rightarrow> nat \<Rightarrow> 'p tansiv_vm \<Rightarrow> int \<times> tansiv_vm_tsc_infos option" where
  "device_mmap vm_pgoff vma_pages vm =
     (if \<not> (vm_pgoff = 0 \<and> vma_pages = 1) then (- k_EINVAL, None) else (0, Some (tsc_infos vm)))"

definition tsc_khz_show :: "u32 \<Rightarrow> string" where
  "tsc_khz_show tsc_khz = show_nat (unat tsc_khz) @ [CHR 0x0A]"

section \<open>The client's side\<close>

text \<open>The system call \<open>ioctl\<close> on a descriptor.\<close>

definition sys_ioctl ::
  "'p kernel \<Rightarrow> 'p tansiv_module \<Rightarrow> c_int \<Rightarrow> ioctl_request \<Rightarrow> (int \<times> ioctl_request \<times> 'p tansiv_module) option" where
  "sys_ioctl K md fd req =
     (case files md fd of
        None \<Rightarrow> Some (- 1, req, md)
      | Some vm \<Rightarrow> do {
          (r, req, vm, md) \<leftarrow> device_ioctl K vm md req;
          Some (if r < 0 then - 1 else r, req, md\<lparr>files := (files md)(fd \<mapsto> vm)\<rparr>)
        })"

text \<open>\<open>opened\<close> is the answer of \<open>open\<close>; without a device the process exits.\<close>

definition open_device :: "c_int \<Rightarrow> c_int option" where
  "open_device opened = (if sint opened < 0 then None else Some opened)"

definition ioctl_register_vm :: "'p kernel \<Rightarrow> 'p tansiv_module \<Rightarrow> c_int \<Rightarrow> pid_t \<Rightarrow> (int \<times> 'p tansiv_module) option" where
  "ioctl_register_vm K md fd pid = do {
     (error, _, md) \<leftarrow> sys_ioctl K md fd (TANSIV_REGISTER_VM pid);
     if error < 0 then Some (- 1, md) else Some (error, md)
   }"

definition ioctl_register_deadline ::
  "'p kernel \<Rightarrow> u64 \<Rightarrow> 'p tansiv_module \<Rightarrow> c_int \<Rightarrow> u64 \<Rightarrow> u64 \<Rightarrow> (u64 \<times> 'p tansiv_module) option" where
  "ioctl_register_deadline K uninit md fd deadline deadline_tsc = do {
     info \<leftarrow> Some \<lparr>dl_deadline = deadline, dl_deadline_tsc = deadline_tsc, dl_vmx_timer_value = uninit\<rparr>;
     (error, req, md) \<leftarrow> sys_ioctl K md fd (TANSIV_REGISTER_DEADLINE info);
     if error < 0 then Some (- 1, md)
     else (case req of
         TANSIV_REGISTER_DEADLINE info \<Rightarrow> Some (dl_vmx_timer_value info, md)
       | _ \<Rightarrow> None)
   }"

definition ioctl_register_vcpu :: "'p kernel \<Rightarrow> 'p tansiv_module \<Rightarrow> c_int \<Rightarrow> pid_t \<Rightarrow> (int \<times> 'p tansiv_module) option" where
  "ioctl_register_vcpu K md fd vcpu_pid = do {
     (error, _, md) \<leftarrow> sys_ioctl K md fd (TANSIV_REGISTER_VCPU vcpu_pid);
     if error < 0 then Some (- 1, md) else Some (error, md)
   }"

definition ioctl_init_end :: "'p kernel \<Rightarrow> 'p tansiv_module \<Rightarrow> c_int \<Rightarrow> (int \<times> 'p tansiv_module) option" where
  "ioctl_init_end K md fd = do {
     (error, _, md) \<leftarrow> sys_ioctl K md fd TANSIV_INIT_END;
     if error < 0 then Some (- 1, md) else Some (error, md)
   }"

text \<open>The \<open>-1\<close> of a failed call is converted to the result's type, which makes it true.\<close>

definition ioctl_init_check :: "'p kernel \<Rightarrow> 'p tansiv_module \<Rightarrow> c_int \<Rightarrow> (bool \<times> 'p tansiv_module) option" where
  "ioctl_init_check K md fd = do {
     (error, req, md) \<leftarrow> sys_ioctl K md fd (TANSIV_INIT_CHECK False);
     if error < 0 then Some ((- 1 :: int) \<noteq> 0, md)
     else (case req of
         TANSIV_INIT_CHECK status \<Rightarrow> Some (status, md)
       | _ \<Rightarrow> None)
   }"

section \<open>Properties\<close>

text \<open>A registration of a virtual CPU overwrites the one before: the number in use is never counted up.\<close>

lemma insert_keeps_used:
  assumes "insert_struct_pid_array K array pid = Some (r, array')"
  shows "pa_used array' = pa_used array"
  using assms by (auto simp: insert_struct_pid_array_def Let_def bind_eq_Some_conv split: if_splits)

fun register_vcpus :: "'p kernel \<Rightarrow> c_int \<Rightarrow> pid_t list \<Rightarrow> 'p tansiv_module \<Rightarrow> 'p tansiv_module option" where
  "register_vcpus K fd [] md = Some md"
| "register_vcpus K fd (pid # pids) md = do {
     (_, md) \<leftarrow> ioctl_register_vcpu K md fd pid;
     register_vcpus K fd pids md
   }"

lemma register_vcpu_used:
  assumes "ioctl_register_vcpu K md fd pid = Some (r, md')" "files md fd = Some vm"
  obtains vm' where "files md' fd = Some vm'" "pa_used (vcpus_pids vm') = pa_used (vcpus_pids vm)" "vm_pid vm' = vm_pid vm"
    "pids_put md' = pids_put md"
proof -
  obtain e req vm' md1 where d: "device_ioctl K vm md (TANSIV_REGISTER_VCPU pid) = Some (e, req, vm', md1)"
    "md' = md1\<lparr>files := (files md1)(fd \<mapsto> vm')\<rparr>"
    using assms by (auto simp: ioctl_register_vcpu_def sys_ioctl_def bind_eq_Some_conv split: if_splits)
  then have "pa_used (vcpus_pids vm') = pa_used (vcpus_pids vm) \<and> vm_pid vm' = vm_pid vm \<and> md1 = md"
    by (auto simp: device_ioctl_def bind_eq_Some_conv insert_keeps_used split: if_splits)
  with d(2) that show ?thesis by simp
qed

lemma register_vcpus_used:
  assumes "register_vcpus K fd pids md = Some md'" "files md fd = Some vm"
  shows "\<exists>vm'. files md' fd = Some vm' \<and> pa_used (vcpus_pids vm') = pa_used (vcpus_pids vm) \<and> vm_pid vm' = vm_pid vm \<and>
    pids_put md' = pids_put md"
  using assms
proof (induction pids arbitrary: md vm)
  case (Cons pid pids)
  then obtain r md1 where s: "ioctl_register_vcpu K md fd pid = Some (r, md1)" "register_vcpus K fd pids md1 = Some md'"
    by (auto simp: bind_eq_Some_conv)
  obtain vm1 where v: "files md1 fd = Some vm1" "pa_used (vcpus_pids vm1) = pa_used (vcpus_pids vm)" "vm_pid vm1 = vm_pid vm"
    "pids_put md1 = pids_put md"
    by (rule register_vcpu_used [OF s(1) Cons.prems(2)])
  from Cons.IH [OF s(2) v(1)] v show ?case by auto
qed simp

text \<open>So closing the device puts the reference of the machine's process only, however many virtual CPUs were registered.\<close>

lemma release_puts_one:
  assumes "register_vcpus K fd pids md = Some md1" "files md fd = Some vm" "pa_used (vcpus_pids vm) = 0" "vm_pid vm = Some p"
  shows "\<exists>md'. device_release md1 fd = Some md' \<and> pids_put md' = pids_put md @ [p] \<and> files md' fd = None"
  using register_vcpus_used [OF assms(1,2)] assms(3,4) by (auto simp: device_release_def free_vm_def)

text \<open>A call that fails says that the module is initialised.\<close>

lemma init_check_failed:
  assumes "files md fd = None \<or> \<not> k_copy_from_user_ok K \<or> \<not> k_copy_to_user_ok K"
  shows "\<exists>md'. ioctl_init_check K md fd = Some (True, md')"
  using assms by (cases "files md fd") (auto simp: ioctl_init_check_def sys_ioctl_def device_ioctl_def)

section \<open>The module and the client's timer\<close>

definition LOGS_LINE_SIZE :: nat where
  "LOGS_LINE_SIZE = 500"

definition LOGS_BUFFER_SIZE :: nat where
  "LOGS_BUFFER_SIZE = 500"

text \<open>The lines printed fit into their buffer.\<close>

lemma show_nat_length: "n < 10 ^ Suc k \<Longrightarrow> length (show_nat n) \<le> Suc k"
proof (induction k arbitrary: n)
  case (Suc k)
  then have "n div 10 < 10 ^ Suc k" by (simp add: less_mult_imp_div_less)
  from Suc.IH [OF this] show ?case by (simp add: show_nat.simps [of n])
qed (simp add: show_nat.simps)

lemma show_u64_length: "length (show_u64 w) \<le> 20"
  using show_nat_length [of "unat w" 19] unat_u64_less [of w] by (simp add: show_u64_def)

lemma show_int32_length: "length (show_signed (sint (w :: c_int))) \<le> 11"
proof -
  have "- 2147483648 \<le> sint w \<and> sint w < 2147483648" using sint_range_size [of w] by (simp add: word_size)
  then have "nat (sint w) < 10000000000" "nat (- sint w) < 10000000000" by linarith+
  with show_nat_length [of "nat (sint w)" 9] show_nat_length [of "nat (- sint w)" 9] show ?thesis by (simp add: show_signed_def)
qed

lemma sprintf_line_length: "length line < length stack \<Longrightarrow> length (sprintf_line stack line) = length stack"
  by (simp add: sprintf_line_def)

definition log_ok :: "'p kernel \<Rightarrow> 'p tansiv_module \<Rightarrow> bool" where
  "log_ok K md \<longleftrightarrow> length (k_stack K) = LOGS_LINE_SIZE \<and>
     (\<exists>n t q. cb_holds (logs_buffer md) n t q \<and> cb_item_size (logs_buffer md) = LOGS_LINE_SIZE)"

lemma push_line_ok:
  assumes "log_ok K md" "length line < LOGS_LINE_SIZE"
  obtains md' where "push_line md (sprintf_line (k_stack K) line) = Some md'" "log_ok K md'" "files md' = files md"
    "tsc_hooks md' = tsc_hooks md"
proof -
  obtain n t q where h: "cb_holds (logs_buffer md) n t q" "cb_item_size (logs_buffer md) = LOGS_LINE_SIZE"
    using assms(1) by (auto simp: log_ok_def)
  have "length (sprintf_line (k_stack K) line) = cb_item_size (logs_buffer md)"
    using assms h(2) by (simp add: log_ok_def sprintf_line_length)
  from cb_push_any [OF h(1) this] obtain cb q' where "cb_push (logs_buffer md) (sprintf_line (k_stack K) line) = Some cb"
    "cb_holds cb n t q'" "cb_item_size cb = LOGS_LINE_SIZE" using h(2) by metis
  with that assms(1) show ?thesis by (auto simp: push_line_def log_ok_def)
qed

text \<open>The handler of the timer logs the moment and makes the machine leave the guest.\<close>

lemma show_int64_length: "length (show_signed (sint (w :: i64))) \<le> 20"
proof -
  have "- 9223372036854775808 \<le> sint w \<and> sint w < 9223372036854775808" using sint_range_size [of w] by (simp add: word_size)
  then have "nat (sint w) < 10000000000000000000" "nat (- sint w) < 10000000000000000000" by linarith+
  with show_nat_length [of "nat (sint w)" 18] show_nat_length [of "nat (- sint w)" 18] show ?thesis by (simp add: show_signed_def)
qed

lemma timer_handler_exits:
  assumes "log_ok K md" "vm_pid vm = Some p"
  shows "\<exists>vm' md'. timer_handler K tsc softexpires now vm md = Some (vm', md') \<and> log_ok K md' \<and> k_pid_nr K p \<in> set (exits_requested md') \<and>
    lapic_tsc_deadline vm' = (if lapic_tsc_deadline vm = tsc then timer_start vm + vm_deadline_tsc vm else tsc)"
proof -
  let ?l = "if lapic_tsc_deadline vm = tsc then timer_start vm + vm_deadline_tsc vm else tsc"
  let ?t = "k_scale_tsc K ?l (vm_tsc_scaling_ratio vm) + vm_tsc_offset vm"
  let ?line = "''timer-handler;'' @ show_signed (sint (k_pid_nr K p)) @ '';'' @ show_signed (sint (k_cpu K)) @ '';'' @
     show_signed (sint softexpires) @ '';'' @ show_signed (sint now) @ '';'' @ show_u64 ?t @ '';'' @ show_u64 (vm_deadline vm) @ [CHR 0x0A]"
  have "length ?line < LOGS_LINE_SIZE"
    using show_int32_length [of "k_pid_nr K p"] show_int32_length [of "k_cpu K"] show_int64_length [of softexpires]
      show_int64_length [of now] show_u64_length [of ?t] show_u64_length [of "vm_deadline vm"] by (simp add: LOGS_LINE_SIZE_def)
  then obtain md' where "push_line md (sprintf_line (k_stack K) ?line) = Some md'" "log_ok K md'"
    using push_line_ok [OF assms(1)] by metis
  then show ?thesis using assms(2) by (cases "lapic_tsc_deadline vm = tsc") (simp_all add: timer_handler_def log_ok_def)
qed

text \<open>The registration of a deadline.\<close>

lemma register_deadline_effect:
  assumes "log_ok K md" "vm_pid vm = Some p"
  obtains vm' md' where "register_deadline K dl vm md =
      Some (dl\<lparr>dl_vmx_timer_value := k_set_preemption_timer K (k_pid_nr K p) (dl_deadline_tsc dl)\<rparr>, vm', md')"
    "vm_deadline vm' = vm_deadline vm + dl_deadline dl" "vm_pid vm' = Some p" "files md' = files md" "log_ok K md'"
    "tsc_hooks md' = tsc_hooks md @ (if vm_deadline vm = 0 then [k_pid_nr K p] else [])"
proof -
  obtain b a where ab: "k_rdtsc K = (b, a)" by (cases "k_rdtsc K")
  let ?pid = "k_pid_nr K p" and ?d = "vm_deadline vm + dl_deadline dl"
  let ?md = "if vm_deadline vm = 0 then md\<lparr>tsc_hooks := tsc_hooks md @ [?pid]\<rparr> else md"
  let ?g = "\<lambda>x. k_scale_tsc K x (k_get_tsc_scaling_ratio K ?pid) + k_get_tsc_offset K ?pid"
  let ?line = "''register-deadline;'' @ show_signed (sint ?pid) @ '';'' @ show_signed (sint (k_cpu K)) @ '';'' @ show_u64 ?d @ '';'' @
     show_u64 (?g b) @ '';'' @ show_u64 (?g a) @ [CHR 0x0A]"
  have "length ?line < LOGS_LINE_SIZE"
    using show_int32_length [of ?pid] show_int32_length [of "k_cpu K"] show_u64_length [of ?d] show_u64_length [of "?g b"]
      show_u64_length [of "?g a"] by (simp add: LOGS_LINE_SIZE_def)
  moreover have "log_ok K ?md" using assms(1) by (simp add: log_ok_def)
  ultimately obtain md' where m: "push_line ?md (sprintf_line (k_stack K) ?line) = Some md'" "log_ok K md'" "files md' = files ?md"
    "tsc_hooks md' = tsc_hooks ?md" using push_line_ok by metis
  let ?vm = "vm\<lparr>vm_deadline := ?d, vm_deadline_tsc := dl_deadline_tsc dl, vm_tsc_offset := k_get_tsc_offset K ?pid,
     vm_tsc_scaling_ratio := k_get_tsc_scaling_ratio K ?pid, timer_start := drop_bit 1 (b + a)\<rparr>"
  have "register_deadline K dl vm md = Some (dl\<lparr>dl_vmx_timer_value := k_set_preemption_timer K ?pid (dl_deadline_tsc dl)\<rparr>, ?vm, md')"
    using m(1) assms(2) ab by (simp add: register_deadline_def)
  then show ?thesis using that [of ?vm md'] m assms(2) by (simp split: if_splits)
qed

text \<open>
  The client's timer on the module: its environment calls the functions above on the module's state \<open>md\<close>. The module is in step
  when the deadlines registered add up to the client's next deadline.
\<close>

definition kvm_with_module :: "'p kernel \<Rightarrow> u64 \<Rightarrow> 'p tansiv_module \<Rightarrow> kvm_env \<Rightarrow> kvm_env" where
  "kvm_with_module K uninit md env = env\<lparr>
     kv_register_deadline := (\<lambda>fd deadline deadline_tsc.
       case ioctl_register_deadline K uninit md fd deadline deadline_tsc of None \<Rightarrow> 0 | Some (v, _) \<Rightarrow> v),
     kv_init_check := (\<lambda>fd. case ioctl_init_check K md fd of None \<Rightarrow> False | Some (b, _) \<Rightarrow> b)\<rparr>"

definition in_step :: "'p kernel \<Rightarrow> 'p tansiv_module \<Rightarrow> kvm_timer \<Rightarrow> bool" where
  "in_step K md self \<longleftrightarrow> log_ok K md \<and> (\<exists>vm p. files md (kt_fd self) = Some vm \<and> vm_pid vm = Some p \<and>
     vm_deadline vm = word_of_nat (as_nanos (kt_next_deadline self)))"

lemma set_next_deadline_in_step:
  assumes "in_step K md self" "k_copy_from_user_ok K" "k_copy_to_user_ok K"
    and s: "KvmTimer_set_next_deadline self (kvm_with_module K uninit md env) d = Some self'"
  obtains tsc md' where "ioctl_register_deadline K uninit md (kt_fd self)
      (word_of_nat (as_nanos d - as_nanos (kt_next_deadline self))) tsc = Some (kt_vmx_timer_value self', md')"
    "in_step K md' self'"
proof -
  let ?now = "kt_next_deadline self"
  obtain vm p where vm: "log_ok K md" "files md (kt_fd self) = Some vm" "vm_pid vm = Some p" "vm_deadline vm = word_of_nat (as_nanos ?now)"
    using assms(1) by (auto simp: in_step_def)
  obtain slice where sl: "Duration_sub d ?now = Some slice" using s by (auto simp: KvmTimer_set_next_deadline_def bind_eq_Some_conv)
  then have le: "as_nanos ?now \<le> as_nanos d" "as_nanos slice = as_nanos d - as_nanos ?now"
    by (simp_all add: Duration_sub_eq_Some duration_le_iff)
  let ?n = "word_of_nat (as_nanos slice) :: u64"
  let ?tsc = "u64_of_f64 (f64_mul (kv_rnd env) (f64_of_u64 (kv_rnd env) ?n) (kt_tsc_freq self))"
  let ?dl = "\<lparr>dl_deadline = ?n, dl_deadline_tsc = ?tsc, dl_vmx_timer_value = uninit\<rparr>"
  obtain vm' md1 where r: "register_deadline K ?dl vm md =
      Some (?dl\<lparr>dl_vmx_timer_value := k_set_preemption_timer K (k_pid_nr K p) (dl_deadline_tsc ?dl)\<rparr>, vm', md1)"
    "vm_deadline vm' = vm_deadline vm + dl_deadline ?dl" "vm_pid vm' = Some p" "files md1 = files md" "log_ok K md1"
    by (rule register_deadline_effect [OF vm(1,3)])
  let ?md = "md1\<lparr>files := (files md1)(kt_fd self \<mapsto> vm')\<rparr>"
  have i: "ioctl_register_deadline K uninit md (kt_fd self) ?n ?tsc = Some (k_set_preemption_timer K (k_pid_nr K p) ?tsc, ?md)"
    using r(1) vm(2) assms(2,3) by (simp add: ioctl_register_deadline_def sys_ioctl_def device_ioctl_def)
  have self': "self' = self\<lparr>kt_prev_deadline := ?now, kt_next_deadline := d, kt_vmx_timer_value := k_set_preemption_timer K (k_pid_nr K p) ?tsc\<rparr>"
    using s sl i by (simp add: KvmTimer_set_next_deadline_def kvm_with_module_def)
  have "vm_deadline vm' = word_of_nat (as_nanos d)"
    using r(2) vm(4) le by (simp flip: of_nat_add)
  then have "in_step K ?md self'" using r(3,5) self' by (simp add: in_step_def log_ok_def)
  with that i self' le(2) show ?thesis by simp
qed

section \<open>The frequency\<close>

text \<open>The frequency that the module prints is the one that the client reads.\<close>

lemma parse_digits_snoc: "parse_digits acc (xs @ [c]) = do { a \<leftarrow> parse_digits acc xs; d \<leftarrow> digit c; Some (10 * a + d) }"
  by (induction acc xs rule: parse_digits.induct) (auto split: option.splits)

lemma parse_show_nat: "parse_digits 0 (show_nat n) = Some (int n)"
proof (induction n rule: show_nat.induct)
  case (1 n)
  show ?case
  proof (cases "n < 10")
    case False
    have "int n = 10 * int (n div 10) + int (n mod 10)" by (metis div_mult_mod_eq mult.commute of_nat_add of_nat_mult of_nat_numeral)
    with False 1 show ?thesis by (simp add: show_nat.simps [of n] parse_digits_snoc)
  qed (simp add: show_nat.simps)
qed

lemma show_nat_digits: "c \<in> set (show_nat n) \<Longrightarrow> digit c \<noteq> None"
proof (induction n rule: show_nat.induct)
  case (1 n)
  then show ?case by (cases "n < 10") (auto simp: show_nat.simps [of n])
qed

lemma show_nat_nonempty: "show_nat n \<noteq> []"
  by (simp add: show_nat.simps)

lemma digit_not_space: "digit c \<noteq> None \<Longrightarrow> \<not> is_space c \<and> c \<noteq> CHR ''-'' \<and> c \<noteq> CHR ''+''"
  by (auto simp: is_space_def digit_def)

lemma trim_show_nat: "trim (show_nat n @ [CHR 0x0A]) = show_nat n"
proof -
  have ns: "\<not> is_space c" if "c \<in> set (show_nat n)" for c using digit_not_space [OF show_nat_digits [OF that]] by simp
  have d: "dropWhile is_space xs = xs" if "\<And>c. c \<in> set xs \<Longrightarrow> \<not> is_space c" for xs :: string
    using that by (cases xs) simp_all
  obtain c cs where c: "show_nat n = c # cs" "\<not> is_space c" using show_nat_nonempty [of n] ns by (cases "show_nat n") auto
  have "dropWhile is_space (show_nat n @ [CHR 0x0A]) = show_nat n @ [CHR 0x0A]" using c by simp
  moreover have "is_space (CHR 0x0A)" by (simp add: is_space_def)
  moreover have "dropWhile is_space (rev (show_nat n)) = rev (show_nat n)" by (rule d) (use ns in simp)
  ultimately show ?thesis by (simp add: trim_def)
qed

lemma frequency_parsed: "parse_i64 (trim (tsc_khz_show w)) = Some (word_of_nat (unat w))"
proof -
  obtain c cs where c: "show_nat (unat w) = c # cs" "c \<noteq> CHR ''-''" "c \<noteq> CHR ''+''"
    using show_nat_nonempty [of "unat w"] digit_not_space [OF show_nat_digits, of _ "unat w"] by (cases "show_nat (unat w)") auto
  have p: "parse_digits 0 (c # cs) = Some (int (unat w))" using parse_show_nat [of "unat w"] c(1) by simp
  have "unat w < 2 ^ 63" using unat_u32_less [of w] by simp
  then have "int (unat w) < int (2 ^ 63)" by (simp only: of_nat_less_iff)
  moreover have "trim (tsc_khz_show w) = c # cs" using trim_show_nat [of "unat w"] c(1) by (simp add: tsc_khz_show_def)
  moreover have "- 9223372036854775808 \<le> uint w" by (rule order_trans [of _ 0]) simp_all
  ultimately show ?thesis using c(2,3) p by (simp add: parse_i64_def Let_def del: parse_digits.simps)
qed

section \<open>Set-up\<close>

text \<open>The module's log is set up when it is loaded; the device, its class and the file in sysfs are only created and reported.\<close>

definition tansiv_timer_init :: "int \<Rightarrow> bytes option \<Rightarrow> 'p tansiv_module \<Rightarrow> int \<times> 'p tansiv_module" where
  "tansiv_timer_init registered memory md =
     (if registered < 0 then (registered, md)
      else (registered, md\<lparr>logs_buffer := cb_init (logs_buffer md) LOGS_BUFFER_SIZE LOGS_LINE_SIZE memory\<rparr>))"

lemma init_log_ok:
  assumes "length memory = LOGS_BUFFER_SIZE * LOGS_LINE_SIZE" "length (k_stack K) = LOGS_LINE_SIZE"
  shows "log_ok K (snd (tansiv_timer_init 0 (Some memory) md))"
proof -
  have "is_queue (cb_init (logs_buffer md) LOGS_BUFFER_SIZE LOGS_LINE_SIZE (Some memory)) LOGS_BUFFER_SIZE []"
    by (rule cb_init_queue) (use assms(1) in \<open>simp_all add: LOGS_BUFFER_SIZE_def LOGS_LINE_SIZE_def\<close>)
  moreover have "cb_item_size (cb_init (logs_buffer md) LOGS_BUFFER_SIZE LOGS_LINE_SIZE (Some memory)) = LOGS_LINE_SIZE"
    by (simp add: cb_init_def)
  ultimately show ?thesis using assms(2) by (auto simp: log_ok_def tansiv_timer_init_def is_queue_def)
qed

text \<open>After the device has been opened and the machine's process registered, the module is in step with a new timer.\<close>

lemma opened_in_step:
  assumes "log_ok K md" "device_open True True array_ok uninit md fd = Some md1"
    and "k_copy_from_user_ok K" "ioctl_register_vm K md1 fd pid = Some (r, md')"
  shows "in_step K md' (KvmTimer_new fd)"
proof -
  have "logs_buffer md1 = logs_buffer md" using assms(2) by (auto simp: device_open_def init_vm_def)
  then have log: "log_ok K md1" using assms(1) by (simp add: log_ok_def)
  obtain vm where vm: "files md1 fd = Some vm" "vm_deadline vm = 0"
    using assms(2) by (auto simp: device_open_def init_vm_def)
  from assms(3,4) vm obtain p where "files md' fd = Some (vm\<lparr>vm_pid := Some p\<rparr>)" "logs_buffer md' = logs_buffer md1"
    by (auto simp: ioctl_register_vm_def sys_ioctl_def device_ioctl_def register_target_pid_def bind_eq_Some_conv)
  with vm log show ?thesis by (simp add: in_step_def KvmTimer_new_def log_ok_def duration_bound_def)
qed

end
