(* ===== verification/Kvm_Properties.thy ===== *)
theory Kvm_Properties
  imports Kvm_Module Reference_Instances
begin

text \<open>
  The properties of the kernel module and of the client's timer on it, with instances on a module for one machine
  and a log of two lines.
\<close>

section \<open>An example\<close>

definition ex_kernel :: "nat kernel" where
  "ex_kernel = \<lparr>k_find_get_pid = (\<lambda>pid. Some (unat pid)), k_pid_nr = word_of_nat, k_krealloc_ok = True, k_copy_from_user_ok = True,
     k_copy_to_user_ok = True, k_rdtsc = (1000, 1002), k_cpu = 0, k_get_tsc_offset = (\<lambda>_. 5), k_get_tsc_scaling_ratio = (\<lambda>_. 1),
     k_set_preemption_timer = (\<lambda>_ t. 1001 + t), k_scale_tsc = (\<lambda>t _. t), k_stack = replicate LOGS_LINE_SIZE 0\<rparr>"

definition ex_module :: "nat tansiv_module" where
  "ex_module = \<lparr>files = [3 \<mapsto> \<lparr>vm_pid = Some 42, vcpus_pids = \<lparr>pa_array = Some (replicate 8 None), pa_size = 8, pa_used = 0\<rparr>,
       init_status = True, vm_deadline = 0, vm_tsc_offset = 0, vm_tsc_scaling_ratio = 0, vm_deadline_tsc = 0, timer_start = 0,
       lapic_tsc_deadline = 0, tsc_infos = \<lparr>ti_tsc_offset = 0, ti_tsc_scaling_ratio = 0\<rparr>\<rparr>],
     logs_buffer = \<lparr>cb_buffer = replicate (2 * LOGS_LINE_SIZE) 0, cb_buffer_end = 2 * LOGS_LINE_SIZE, cb_head = 0, cb_tail = 0,
       cb_size = 2, cb_used = 0, cb_item_size = LOGS_LINE_SIZE\<rparr>,
     works_scheduled = 0, tsc_hooks = [], pids_put = [], exits_requested = []\<rparr>"

definition ex_plain_env :: kvm_env where
  "ex_plain_env = \<lparr>kv_rnd = (\<lambda>x. x), kv_rdtsc = 0, kv_tsc_offset = 0, kv_register_deadline = (\<lambda>_ _ _. 0), kv_init_check = (\<lambda>_. False),
     kv_tsc_khz = None\<rparr>"


section \<open>Deadlines\<close>



text \<open>
  C27. A failing request passes for an initialised module: where the device cannot be asked, the client's check of the initialisation succeeds, and
  start goes on instead of stopping with the message that the module is not initialised.
\<close>

theorem failed_init_check_passes:
  assumes "files md (kt_fd self) = None \<or> \<not> k_copy_from_user_ok K \<or> \<not> k_copy_to_user_ok K" "kt_next_deadline self \<le> d"
  shows "kv_init_check (kvm_with_module K uninit md env) (kt_fd self) \<and>
    (\<exists>self'. KvmTimer_start C self (kvm_with_module K uninit md env) d = Some (Ok (ch_zero C), self'))"
proof -
  obtain md' where "ioctl_init_check K md (kt_fd self) = Some (True, md')" using init_check_failed [OF assms(1)] by blast
  moreover obtain slice where "Duration_sub d (kt_next_deadline self) = Some slice"
    using assms(2) by (auto simp: Duration_sub_def)
  ultimately show ?thesis
    by (simp add: kvm_with_module_def KvmTimer_start_def KvmTimer_set_next_deadline_def)
qed

theorem failed_init_check_passes_witness:
  "\<exists>self. files ex_module 4 = None \<and>
     KvmTimer_start ref_chrono (KvmTimer_new 4) (kvm_with_module ex_kernel 0 ex_module ex_plain_env) (dur 100) = Some (Ok 0, self)"
proof -
  have f: "files ex_module 4 = None" by (simp add: ex_module_def)
  have "kt_next_deadline (KvmTimer_new 4) \<le> dur 100" by (simp add: KvmTimer_new_def duration_le_iff duration_bound_def)
  with failed_init_check_passes [of ex_module "KvmTimer_new 4" ex_kernel "dur 100" 0 ex_plain_env ref_chrono] f show ?thesis
    by (simp add: KvmTimer_new_def ref_chrono_def)
qed

section \<open>The log\<close>

definition ex_log :: "nat \<Rightarrow> circular_buffer" where
  "ex_log k = \<lparr>cb_buffer = [1, 2], cb_buffer_end = 2, cb_head = k mod 2, cb_tail = 0, cb_size = 2, cb_used = int k, cb_item_size = 1\<rparr>"

lemma ex_log_queue: "is_queue (ex_log 1) 2 [[1]]" "is_queue (ex_log 2) 2 [[1], [2]]"
  unfolding is_queue_def
  by (auto intro!: exI [of _ 0] simp: cb_holds_def cb_shape_def ex_log_def slot_def less_Suc_eq numeral_2_eq_2)

text \<open>
  C28. While it is not overfilled the circular buffer of the log is a queue: a push adds an item at the end, a pop takes the first one, and the worker
  writes the text of all items in their order and leaves the buffer empty.
\<close>

theorem log_buffer_is_queue:
  assumes "is_queue cb n q" "length item = cb_item_size cb"
  shows "(length q < n \<longrightarrow> (\<exists>cb'. cb_push cb item = Some cb' \<and> is_queue cb' n (q @ [item]))) \<and>
    (q \<noteq> [] \<longrightarrow> (\<exists>cb'. cb_pop cb = Some (hd q, cb') \<and> is_queue cb' n (tl q))) \<and>
    (\<exists>cb'. write_logs kernel_write cb logs_file = Some (cb', foldl kernel_write logs_file (map c_string q)) \<and> is_queue cb' n [])"
proof -
  obtain t where h: "cb_holds cb n t q" and l: "length q \<le> n" using assms(1) by (auto simp: is_queue_def)
  have "\<exists>cb'. cb_push cb item = Some cb' \<and> is_queue cb' n (q @ [item])" if "length q < n"
    by (rule cb_push_room [OF h assms(2) that]) (use that in \<open>auto simp: is_queue_def\<close>)
  moreover have "\<exists>cb'. cb_pop cb = Some (hd q, cb') \<and> is_queue cb' n (tl q)" if ne: "q \<noteq> []"
  proof -
    obtain x xs where q: "q = x # xs" using ne by (cases q) auto
    show ?thesis by (rule cb_pop_holds [OF h [unfolded q]]) (use q l in \<open>auto simp: is_queue_def\<close>)
  qed
  ultimately show ?thesis using write_logs_all [OF h, of kernel_write logs_file] by (auto simp: is_queue_def)
qed

theorem log_buffer_is_queue_witness:
  "\<exists>cb cb'. cb_push (ex_log 1) [7] = Some cb \<and> is_queue cb 2 [[1], [7]] \<and>
     write_logs (\<lambda>f b. f @ b) (ex_log 1) [] = Some (cb', [1])"
proof -
  have "length [7] = cb_item_size (ex_log 1)" by (simp add: ex_log_def)
  from log_buffer_is_queue [OF ex_log_queue(1) this, of "\<lambda>f b. f @ b" "[]"] show ?thesis by (auto simp: c_string_def)
qed

text \<open>
  C29. A push to a full log is reported and carried out all the same: what the worker writes then starts with the newest line in the
  place of the oldest, which is lost, and ends with the newest line again.
\<close>

theorem log_overrun_corrupts:
  assumes "is_queue cb n q" "length item = cb_item_size cb" "length q = n"
  shows "\<exists>cb' cb''. cb_push cb item = Some cb' \<and>
    write_logs kernel_write cb' logs_file = Some (cb'', foldl kernel_write logs_file (map c_string (item # tl q @ [item])))"
proof -
  obtain t where h: "cb_holds cb n t q" using assms(1) by (auto simp: is_queue_def)
  show ?thesis
  proof (rule cb_push_full [OF h assms(2,3)])
    fix cb' assume "cb_push cb item = Some cb'" "cb_holds cb' n t (item # tl q @ [item])"
    with write_logs_all [of cb' n t _ kernel_write logs_file] show ?thesis by blast
  qed
qed

theorem log_overrun_corrupts_witness:
  "\<exists>cb' cb''. cb_push (ex_log 2) [3] = Some cb' \<and> write_logs (\<lambda>f b. f @ b) cb' [] = Some (cb'', [3, 2, 3])"
proof -
  have "length [3] = cb_item_size (ex_log 2)" "length [[1], [2 :: u8]] = 2" by (simp_all add: ex_log_def)
  from log_overrun_corrupts [OF ex_log_queue(2) this, of "\<lambda>f b. f @ b" "[]"] show ?thesis by (simp add: c_string_def)
qed

section \<open>Virtual CPUs\<close>

text \<open>
  C30. Registering virtual CPUs does not count them: whichever were registered, closing the device gives back the reference to the
  machine's process only, and those taken on the processes of its virtual CPUs are never given back.
\<close>

theorem vcpu_references_leak:
  assumes "register_vcpus K fd pids md = Some md1" "files md fd = Some vm" "pa_used (vcpus_pids vm) = 0" "vm_pid vm = Some p"
  shows "\<exists>md'. device_release md1 fd = Some md' \<and> pids_put md' = pids_put md @ [p] \<and> files md' fd = None"
  using assms by (rule release_puts_one)

theorem vcpu_references_leak_witness:
  "\<exists>md1 md'. register_vcpus ex_kernel 3 [50, 51] ex_module = Some md1 \<and> device_release md1 3 = Some md' \<and> pids_put md' = [42]"
proof -
  obtain vm where vm: "files ex_module 3 = Some vm" "pa_used (vcpus_pids vm) = 0" "vm_pid vm = Some 42" by (simp add: ex_module_def)
  obtain md1 where r: "register_vcpus ex_kernel 3 [50, 51] ex_module = Some md1"
    by (simp add: ioctl_register_vcpu_def sys_ioctl_def device_ioctl_def insert_struct_pid_array_def register_target_pid_def
        ex_module_def ex_kernel_def)
  have "pids_put ex_module = []" by (simp add: ex_module_def)
  with vcpu_references_leak [OF r vm] r show ?thesis by auto
qed

end
