(* ===== verification/Seq_Lock_Concurrent.thy ===== *)
theory Seq_Lock_Concurrent
  imports Seq_Lock
begin

text \<open>
  The sequence lock of \<open>seq_lock\<close> used by any number of threads at once. A step of a thread is one
  access to shared memory: the counter is loaded, compared and swapped, or incremented atomically,
  but the value is read and written one word at a time, so a read can overlap a write. Steps of
  different threads interleave arbitrarily (sequential consistency, which the source's orderings and
  fence are there to provide).

  The counter the code sees is the \<open>u64\<close> \<open>word_of_nat (sh_epoch s)\<close>: it wraps around, the number
  \<open>sh_epoch\<close> behind it does not. \<open>sh_hist\<close> lists the values the lock has held; neither of them is read by a
  thread. Spinning while the counter is odd is not a step.
\<close>

section \<open>Steps\<close>

text \<open>
  Where a thread is. \<open>RCopy c g ws\<close> has loaded the count \<open>c\<close> (at epoch \<open>g\<close>) and read the words \<open>ws\<close>;
  \<open>WCopy\<close> and \<open>WStore\<close> are inside \<open>write\<close>, reading the old words and storing the first \<open>k\<close> of the new
  ones; \<open>WExit c e\<close> has released the lock at count \<open>e\<close> and is about to run the two assertions.
\<close>

datatype 'w pc =
    Idle
  | RWait
  | RCopy u64 nat "'w list"
  | RDone "'w list"
  | WWait
  | WCas u64
  | WCopy u64 "'w list"
  | WStore u64 "'w list" nat
  | WExit u64 u64
  | Panicked

record 'w shared =
  sh_cells :: "'w list"
  sh_epoch :: nat
  sh_hist :: "'w list list"
  sh_pc :: "nat \<Rightarrow> 'w pc"

abbreviation sh_count :: "'w shared \<Rightarrow> u64" where
  "sh_count s \<equiv> word_of_nat (sh_epoch s)"

abbreviation goto_pc :: "nat \<Rightarrow> 'w pc \<Rightarrow> 'w shared \<Rightarrow> 'w shared" where
  "goto_pc i p s \<equiv> s\<lparr>sh_pc := (sh_pc s)(i := p)\<rparr>"

definition sh_init :: "'w list \<Rightarrow> 'w shared" where
  "sh_init v = \<lparr>sh_cells = v, sh_epoch = 0, sh_hist = [v], sh_pc = (\<lambda>_. Idle)\<rparr>"

text \<open>\<open>f i\<close> is the function thread \<open>i\<close> gives to \<open>write\<close>.\<close>

inductive lock_step :: "(nat \<Rightarrow> 'w list \<Rightarrow> 'w list) \<Rightarrow> 'w shared \<Rightarrow> 'w shared \<Rightarrow> bool" for f where
  read_begin: "sh_pc s i = Idle \<Longrightarrow> lock_step f s (goto_pc i RWait s)"
| read_load: "sh_pc s i = RWait \<Longrightarrow> sh_count s AND 1 = 0 \<Longrightarrow>
    lock_step f s (goto_pc i (RCopy (sh_count s) (sh_epoch s) []) s)"
| read_copy: "sh_pc s i = RCopy c g ws \<Longrightarrow> length ws < length (sh_cells s) \<Longrightarrow>
    lock_step f s (goto_pc i (RCopy c g (ws @ [sh_cells s ! length ws])) s)"
| read_ok: "sh_pc s i = RCopy c g ws \<Longrightarrow> length ws = length (sh_cells s) \<Longrightarrow> c AND 1 = 0 \<Longrightarrow> sh_count s = c \<Longrightarrow>
    lock_step f s (goto_pc i (RDone ws) s)"
| read_retry: "sh_pc s i = RCopy c g ws \<Longrightarrow> length ws = length (sh_cells s) \<Longrightarrow> c AND 1 = 0 \<Longrightarrow> sh_count s \<noteq> c \<Longrightarrow>
    lock_step f s (goto_pc i RWait s)"
| read_panic: "sh_pc s i = RCopy c g ws \<Longrightarrow> length ws = length (sh_cells s) \<Longrightarrow> c AND 1 \<noteq> 0 \<Longrightarrow>
    lock_step f s (goto_pc i Panicked s)"
| read_return: "sh_pc s i = RDone ws \<Longrightarrow> lock_step f s (goto_pc i Idle s)"
| write_begin: "sh_pc s i = Idle \<Longrightarrow> lock_step f s (goto_pc i WWait s)"
| write_load: "sh_pc s i = WWait \<Longrightarrow> sh_count s AND 1 = 0 \<Longrightarrow> lock_step f s (goto_pc i (WCas (sh_count s)) s)"
| write_enter: "sh_pc s i = WCas c \<Longrightarrow> sh_count s = c \<Longrightarrow>
    lock_step f s (goto_pc i (WCopy c []) (s\<lparr>sh_epoch := sh_epoch s + 1\<rparr>))"
| write_retry: "sh_pc s i = WCas c \<Longrightarrow> sh_count s \<noteq> c \<Longrightarrow> lock_step f s (goto_pc i WWait s)"
| write_copy: "sh_pc s i = WCopy c ws \<Longrightarrow> length ws < length (sh_cells s) \<Longrightarrow>
    lock_step f s (goto_pc i (WCopy c (ws @ [sh_cells s ! length ws])) s)"
| write_apply: "sh_pc s i = WCopy c ws \<Longrightarrow> length ws = length (sh_cells s) \<Longrightarrow>
    lock_step f s (goto_pc i (WStore c (f i ws) 0) s)"
| write_store: "sh_pc s i = WStore c ws k \<Longrightarrow> k < length (sh_cells s) \<Longrightarrow>
    lock_step f s (goto_pc i (WStore c ws (Suc k)) (s\<lparr>sh_cells := (sh_cells s)[k := ws ! k]\<rparr>))"
| write_release: "sh_pc s i = WStore c ws k \<Longrightarrow> k = length (sh_cells s) \<Longrightarrow>
    lock_step f s (goto_pc i (WExit c (sh_count s)) (s\<lparr>sh_epoch := sh_epoch s + 1, sh_hist := sh_hist s @ [ws]\<rparr>))"
| write_return: "sh_pc s i = WExit c e \<Longrightarrow> e AND 1 = 1 \<Longrightarrow> c + 1 = e \<Longrightarrow> lock_step f s (goto_pc i Idle s)"
| write_panic: "sh_pc s i = WExit c e \<Longrightarrow> \<not> (e AND 1 = 1 \<and> c + 1 = e) \<Longrightarrow> lock_step f s (goto_pc i Panicked s)"

inductive lock_reachable :: "(nat \<Rightarrow> 'w list \<Rightarrow> 'w list) \<Rightarrow> 'w list \<Rightarrow> 'w shared \<Rightarrow> bool" for f v where
  start: "lock_reachable f v (sh_init v)"
| next_state: "lock_reachable f v s \<Longrightarrow> lock_step f s s' \<Longrightarrow> lock_reachable f v s'"

section \<open>The invariant\<close>

fun inside :: "'w pc \<Rightarrow> bool" where
  "inside (WCopy _ _) = True"
| "inside (WStore _ _ _) = True"
| "inside _ = False"

text \<open>What is true of a thread at each point, in a shared state.\<close>

fun pc_ok :: "(nat \<Rightarrow> 'w list \<Rightarrow> 'w list) \<Rightarrow> 'w shared \<Rightarrow> nat \<Rightarrow> 'w pc \<Rightarrow> bool" where
  "pc_ok f s i (RCopy c g ws) \<longleftrightarrow> c = word_of_nat g \<and> even g \<and> g \<le> sh_epoch s \<and> length ws \<le> length (sh_cells s) \<and>
     (sh_epoch s = g \<longrightarrow> ws = take (length ws) (sh_cells s))"
| "pc_ok f s i (WCas c) \<longleftrightarrow> even c"
| "pc_ok f s i (WCopy c ws) \<longleftrightarrow> odd (sh_epoch s) \<and> c + 1 = sh_count s \<and> sh_cells s = last (sh_hist s) \<and>
     ws = take (length ws) (sh_cells s)"
| "pc_ok f s i (WStore c ws k) \<longleftrightarrow> odd (sh_epoch s) \<and> c + 1 = sh_count s \<and> ws = f i (last (sh_hist s)) \<and>
     k \<le> length (sh_cells s) \<and> sh_cells s = take k ws @ drop k (last (sh_hist s))"
| "pc_ok f s i (WExit c e) \<longleftrightarrow> odd e \<and> c + 1 = e"
| "pc_ok f s i Panicked \<longleftrightarrow> False"
| "pc_ok f s i _ \<longleftrightarrow> True"

text \<open>
  The history: one value per completed write, each the result of a thread's function on the one before
  it, and the cells hold the last one while no write is in progress.
\<close>

definition hist_ok :: "(nat \<Rightarrow> 'w list \<Rightarrow> 'w list) \<Rightarrow> 'w list \<Rightarrow> 'w shared \<Rightarrow> bool" where
  "hist_ok f v s \<longleftrightarrow> length (sh_hist s) = sh_epoch s div 2 + 1 \<and> sh_hist s ! 0 = v \<and>
     (\<forall>h \<in> set (sh_hist s). length h = length (sh_cells s)) \<and>
     (\<forall>j. Suc j < length (sh_hist s) \<longrightarrow> (\<exists>i. sh_hist s ! Suc j = f i (sh_hist s ! j))) \<and>
     (even (sh_epoch s) \<longrightarrow> sh_cells s = last (sh_hist s))"

text \<open>The counter is odd exactly while one thread, and only one, is inside \<open>write\<close>.\<close>

definition exclusive :: "'w shared \<Rightarrow> bool" where
  "exclusive s \<longleftrightarrow> (\<forall>i. inside (sh_pc s i) \<longrightarrow> odd (sh_epoch s)) \<and>
     (\<forall>i j. inside (sh_pc s i) \<and> inside (sh_pc s j) \<longrightarrow> i = j) \<and>
     (odd (sh_epoch s) \<longrightarrow> (\<exists>i. inside (sh_pc s i)))"

definition lock_inv :: "(nat \<Rightarrow> 'w list \<Rightarrow> 'w list) \<Rightarrow> 'w list \<Rightarrow> 'w shared \<Rightarrow> bool" where
  "lock_inv f v s \<longleftrightarrow> hist_ok f v s \<and> exclusive s \<and> (\<forall>i. pc_ok f s i (sh_pc s i))"

lemma hist_okD:
  assumes "hist_ok f v s"
  shows "sh_hist s \<noteq> []" "length (last (sh_hist s)) = length (sh_cells s)"
proof -
  show ne: "sh_hist s \<noteq> []" using assms by (auto simp: hist_ok_def)
  then show "length (last (sh_hist s)) = length (sh_cells s)" using assms by (simp add: hist_ok_def)
qed

lemma exclusive_cong:
  assumes "sh_epoch t = sh_epoch s" "\<And>j. inside (sh_pc t j) \<longleftrightarrow> inside (sh_pc s j)"
  shows "exclusive t \<longleftrightarrow> exclusive s"
  unfolding exclusive_def assms ..

lemma exclusive_goto:
  assumes "exclusive s" "inside p \<longleftrightarrow> inside (sh_pc s i)"
  shows "exclusive (goto_pc i p s)"
  using assms exclusive_cong [of "goto_pc i p s" s] by simp

lemma lock_inv_init: "lock_inv f v (sh_init v)"
  by (simp add: lock_inv_def hist_ok_def exclusive_def sh_init_def)

lemma even_word_of_nat [simp]: "even (word_of_nat n :: u64) \<longleftrightarrow> even n"
  by (simp add: even_of_nat_iff)

lemma and_one_word_of_nat: "(word_of_nat n :: u64) AND 1 = 0 \<longleftrightarrow> even n"
  by (simp add: and_one_even)

section \<open>Preservation\<close>

lemma pc_ok_goto [simp]: "pc_ok f (s\<lparr>sh_pc := ps\<rparr>) j q \<longleftrightarrow> pc_ok f s j q"
  by (cases q) simp_all

lemma pc_ok_others:
  assumes "pc_ok f t i p" "\<And>j. j \<noteq> i \<Longrightarrow> pc_ok f t j (sh_pc t j)"
  shows "pc_ok f (goto_pc i p t) j (sh_pc (goto_pc i p t) j)"
  using assms by simp

text \<open>Steps that leave the shared part alone and neither enter nor leave \<open>write\<close>.\<close>

lemma lock_inv_goto:
  assumes inv: "lock_inv f v s" and p: "inside p \<longleftrightarrow> inside (sh_pc s i)" "pc_ok f s i p"
  shows "lock_inv f v (goto_pc i p s)"
  using inv exclusive_goto [of s p i] p pc_ok_others [of f s i p]
  by (simp add: lock_inv_def hist_ok_def)

lemma lock_inv_pc: "lock_inv f v s \<Longrightarrow> sh_pc s i = p \<Longrightarrow> pc_ok f s i p"
  by (auto simp: lock_inv_def)

lemma lock_inv_enter:
  assumes inv: "lock_inv f v s" and i: "sh_pc s i = WCas c" "sh_count s = c"
  shows "lock_inv f v (goto_pc i (WCopy c []) (s\<lparr>sh_epoch := sh_epoch s + 1\<rparr>))"
proof -
  let ?t = "s\<lparr>sh_epoch := sh_epoch s + 1\<rparr>"
  have ev: "even (sh_epoch s)" using lock_inv_pc [OF inv i(1)] i(2) by auto
  have hist: "hist_ok f v s" using inv by (simp add: lock_inv_def)
  have out: "\<not> inside (sh_pc s j)" for j using inv ev by (auto simp: lock_inv_def exclusive_def)
  have "pc_ok f ?t j (sh_pc ?t j)" for j
    using lock_inv_pc [OF inv refl, of j] out [of j] by (cases "sh_pc s j") auto
  moreover have "pc_ok f ?t i (WCopy c [])" using ev hist i(2) by (simp add: hist_ok_def)
  ultimately have "pc_ok f (goto_pc i (WCopy c []) ?t) j (sh_pc (goto_pc i (WCopy c []) ?t) j)" for j
    by (intro pc_ok_others)
  moreover have "hist_ok f v (goto_pc i (WCopy c []) ?t)" using hist ev by (simp add: hist_ok_def)
  moreover have "exclusive (goto_pc i (WCopy c []) ?t)" using out ev by (simp add: exclusive_def)
  ultimately show ?thesis unfolding lock_inv_def by blast
qed

lemma lock_inv_WStore:
  assumes inv: "lock_inv f v s" and f: "\<And>i ws. length (f i ws) = length ws" and i: "sh_pc s i = WStore c ws k"
  shows "odd (sh_epoch s)" "c + 1 = sh_count s" "ws = f i (last (sh_hist s))"
    "sh_cells s = take k ws @ drop k (last (sh_hist s))" "length ws = length (sh_cells s)"
    "\<And>j. j \<noteq> i \<Longrightarrow> \<not> inside (sh_pc s j)"
proof -
  show "odd (sh_epoch s)" "c + 1 = sh_count s" and ws: "ws = f i (last (sh_hist s))"
    and "sh_cells s = take k ws @ drop k (last (sh_hist s))"
    using lock_inv_pc [OF inv i] unfolding pc_ok.simps by blast+
  show "length ws = length (sh_cells s)" using hist_okD(2) [of f v s] inv ws f by (simp add: lock_inv_def)
  show "\<not> inside (sh_pc s j)" if "j \<noteq> i" for j
    using inv i that unfolding lock_inv_def exclusive_def by (metis inside.simps(2))
qed

lemma lock_inv_store:
  assumes inv: "lock_inv f v s" and f: "\<And>i ws. length (f i ws) = length ws"
    and i: "sh_pc s i = WStore c ws k" "k < length (sh_cells s)"
  shows "lock_inv f v (goto_pc i (WStore c ws (Suc k)) (s\<lparr>sh_cells := (sh_cells s)[k := ws ! k]\<rparr>))"
proof -
  let ?t = "s\<lparr>sh_cells := (sh_cells s)[k := ws ! k]\<rparr>" and ?p = "WStore c ws (Suc k)"
  note w = lock_inv_WStore [OF inv f i(1)]
  have hist: "hist_ok f v s" and ex: "exclusive s" using inv by (simp_all add: lock_inv_def)
  have len: "length (last (sh_hist s)) = length (sh_cells s)" by (rule hist_okD(2) [OF hist])
  have "(take k ws @ drop k (last (sh_hist s)))[k := ws ! k] = take (Suc k) ws @ drop (Suc k) (last (sh_hist s))"
    using i(2) len w(5) by (simp add: list_update_append take_Suc_conv_app_nth flip: Cons_nth_drop_Suc)
  then have "(sh_cells s)[k := ws ! k] = take (Suc k) ws @ drop (Suc k) (last (sh_hist s))" by (simp only: w(4))
  then have new: "pc_ok f ?t i ?p" using w(1,2,5) i(2) len by (simp add: Suc_leI flip: w(3))
  have other: "pc_ok f ?t j (sh_pc ?t j)" if "j \<noteq> i" for j
    using lock_inv_pc [OF inv refl, of j] w(6) [OF that] w(1) by (cases "sh_pc s j") auto
  have "pc_ok f (goto_pc i ?p ?t) j (sh_pc (goto_pc i ?p ?t) j)" for j by (rule pc_ok_others [OF new other])
  moreover have "hist_ok f v (goto_pc i ?p ?t)" using hist w(1) by (simp add: hist_ok_def)
  moreover have "exclusive (goto_pc i ?p ?t)"
    using ex i(1) exclusive_cong [of "goto_pc i ?p ?t" s] by simp
  ultimately show ?thesis unfolding lock_inv_def by blast
qed

lemma hist_ok_snoc:
  assumes hist: "hist_ok f v s" and ws: "ws = f i (last (sh_hist s))" "sh_cells s = ws" and odd: "odd (sh_epoch s)"
  shows "hist_ok f v (s\<lparr>sh_epoch := sh_epoch s + 1, sh_hist := sh_hist s @ [ws], sh_pc := ps\<rparr>)"
proof -
  have ne: "sh_hist s \<noteq> []" by (rule hist_okD(1) [OF hist])
  have "\<exists>k. (sh_hist s @ [ws]) ! Suc j = f k ((sh_hist s @ [ws]) ! j)" if j: "Suc j < Suc (length (sh_hist s))" for j
  proof (cases "Suc j < length (sh_hist s)")
    case True
    with hist show ?thesis by (simp add: hist_ok_def nth_append)
  next
    case False
    then have l: "length (sh_hist s) = Suc j" using j by simp
    then have "(sh_hist s @ [ws]) ! Suc j = ws" "(sh_hist s @ [ws]) ! j = last (sh_hist s)"
      using ne by (simp_all add: nth_append last_conv_nth)
    with ws(1) show ?thesis by metis
  qed
  moreover have "(sh_epoch s + 1) div 2 = Suc (sh_epoch s div 2)" using odd by simp
  moreover have "(sh_hist s @ [ws]) ! 0 = v" using hist ne by (simp add: hist_ok_def nth_append)
  moreover have "\<forall>h \<in> set (sh_hist s @ [ws]). length h = length (sh_cells s)"
    using hist ws(2) by (simp add: hist_ok_def)
  ultimately show ?thesis using hist ws(2) odd by (simp add: hist_ok_def)
qed

lemma lock_inv_release:
  assumes inv: "lock_inv f v s" and f: "\<And>i ws. length (f i ws) = length ws"
    and i: "sh_pc s i = WStore c ws k" "k = length (sh_cells s)"
  shows "lock_inv f v (goto_pc i (WExit c (sh_count s)) (s\<lparr>sh_epoch := sh_epoch s + 1, sh_hist := sh_hist s @ [ws]\<rparr>))"
proof -
  let ?t = "s\<lparr>sh_epoch := sh_epoch s + 1, sh_hist := sh_hist s @ [ws]\<rparr>" and ?p = "WExit c (sh_count s)"
  note w = lock_inv_WStore [OF inv f i(1)]
  have hist: "hist_ok f v s" using inv by (simp add: lock_inv_def)
  have "take k ws @ drop k (last (sh_hist s)) = ws" using i(2) hist_okD(2) [OF hist] w(5) by simp
  then have cells: "sh_cells s = ws" using w(4) by simp
  have new: "pc_ok f ?t i ?p" using w(1,2) by simp
  have other: "pc_ok f ?t j (sh_pc ?t j)" if "j \<noteq> i" for j
    using lock_inv_pc [OF inv refl, of j] w(6) [OF that] w(1) by (cases "sh_pc s j") auto
  have "pc_ok f (goto_pc i ?p ?t) j (sh_pc (goto_pc i ?p ?t) j)" for j by (rule pc_ok_others [OF new other])
  moreover have "hist_ok f v (goto_pc i ?p ?t)" using hist_ok_snoc [OF hist w(3) cells w(1)] by simp
  moreover have "exclusive (goto_pc i ?p ?t)" using w(1,6) by (simp add: exclusive_def)
  ultimately show ?thesis unfolding lock_inv_def by blast
qed

lemma lock_inv_step:
  assumes f: "\<And>i ws. length (f i ws) = length ws" and step: "lock_step f s s'" and inv: "lock_inv f v s"
  shows "lock_inv f v s'"
  using step
proof cases
  case (write_enter i c)
  then show ?thesis using lock_inv_enter [OF inv] by simp
next
  case (write_store i c ws k)
  then show ?thesis using lock_inv_store [OF inv f] by simp
next
  case (write_release i c ws k)
  then show ?thesis using lock_inv_release [OF inv f] by simp
next
  case (write_panic i c e)
  then show ?thesis using lock_inv_pc [OF inv, of i] by (simp add: and_one_odd)
next
  case (read_panic i c g ws)
  then show ?thesis using lock_inv_pc [OF inv, of i] by (simp add: and_one_even)
next
  case (write_apply i c ws)
  have "pc_ok f s i (WStore c (f i ws) 0)" using lock_inv_pc [OF inv write_apply(2)] write_apply(3) by auto
  then show ?thesis unfolding write_apply(1) by (rule lock_inv_goto [OF inv, rotated]) (simp add: write_apply(2))
next
  case (read_copy i c g ws)
  have "pc_ok f s i (RCopy c g (ws @ [sh_cells s ! length ws]))"
    using lock_inv_pc [OF inv read_copy(2)] read_copy(3) by (auto simp: take_Suc_conv_app_nth)
  then show ?thesis unfolding read_copy(1) by (rule lock_inv_goto [OF inv, rotated]) (simp add: read_copy(2))
next
  case (write_copy i c ws)
  have "pc_ok f s i (WCopy c (ws @ [sh_cells s ! length ws]))"
    using lock_inv_pc [OF inv write_copy(2)] write_copy(3) by (auto simp: take_Suc_conv_app_nth)
  then show ?thesis unfolding write_copy(1) by (rule lock_inv_goto [OF inv, rotated]) (simp add: write_copy(2))
qed (use lock_inv_goto [OF inv] in \<open>simp_all add: and_one_word_of_nat\<close>)

lemma lock_reachable_inv:
  assumes "lock_reachable f v s" "\<And>i ws. length (f i ws) = length ws"
  shows "lock_inv f v s"
  using assms by (induction rule: lock_reachable.induct) (auto intro: lock_inv_init lock_inv_step)

section \<open>What the lock gives its users\<close>

lemma count_unwrap:
  assumes "(word_of_nat m :: u64) = word_of_nat n" "n \<le> m" "m < n + 2 ^ 64"
  shows "m = n"
proof -
  have "m mod 2 ^ 64 = n mod 2 ^ 64" using assms(1) by (simp add: word_of_nat_eq_iff take_bit_eq_mod)
  then have "2 ^ 64 dvd m - n" using assms(2) by (simp add: mod_eq_dvd_iff_nat)
  then show ?thesis using assms(2,3) by (auto dest: dvd_imp_le)
qed

lemma read_not_torn:
  assumes "lock_inv f v s" "lock_step f s s'" "sh_pc s i = RCopy c g ws" "sh_pc s' i = RDone us"
    and wrap: "sh_epoch s < g + 2 ^ 64"
  shows "us = last (sh_hist s') \<and> even (sh_epoch s')"
proof -
  have ok: "c = word_of_nat g" "even g" "g \<le> sh_epoch s" "sh_epoch s = g \<longrightarrow> ws = take (length ws) (sh_cells s)"
    using lock_inv_pc [OF assms(1,3)] by simp_all
  from assms(2-4) have s': "s' = goto_pc i (RDone ws) s" "us = ws" "length ws = length (sh_cells s)" "sh_count s = c"
    by (cases rule: lock_step.cases; auto split: if_splits)+
  have "sh_epoch s = g" using count_unwrap [OF _ ok(3) wrap] s'(4) ok(1) by simp
  then show ?thesis using ok s' assms(1) by (auto simp: lock_inv_def hist_ok_def)
qed

text \<open>A thread inside \<open>write\<close> leaves it by its own steps alone.\<close>

lemma goto_pc_same: "sh_pc s i = p \<Longrightarrow> goto_pc i p s = s"
  by (cases s) (simp add: fun_upd_idem)

lemma copy_all:
  assumes "sh_pc s i = WCopy c ws" "length ws \<le> length (sh_cells s)" "ws = take (length ws) (sh_cells s)"
  shows "(lock_step f)\<^sup>*\<^sup>* s (goto_pc i (WCopy c (sh_cells s)) s)"
  using assms
proof (induction "length (sh_cells s) - length ws" arbitrary: s ws)
  case 0
  then have "sh_pc s i = WCopy c (sh_cells s)" by simp
  then show ?case by (simp only: goto_pc_same rtranclp.rtrancl_refl)
next
  case (Suc n)
  let ?ws = "ws @ [sh_cells s ! length ws]" and ?t = "goto_pc i (WCopy c (ws @ [sh_cells s ! length ws])) s"
  have l: "length ws < length (sh_cells s)" using Suc(2) by simp
  have step: "lock_step f s ?t" by (rule write_copy [OF Suc(3) l])
  have ws: "?ws = take (length ?ws) (sh_cells ?t)" using Suc(5) l by (simp add: take_Suc_conv_app_nth)
  have "(lock_step f)\<^sup>*\<^sup>* ?t (goto_pc i (WCopy c (sh_cells ?t)) ?t)"
    by (rule Suc(1) [of ?t ?ws, OF _ _ _ ws]) (use Suc(2) l in simp_all)
  then show ?case using step by (simp add: converse_rtranclp_into_rtranclp)
qed

lemma store_all:
  assumes "lock_inv f v s" "\<And>i ws. length (f i ws) = length ws" "sh_pc s i = WStore c ws k"
  shows "\<exists>s'. (lock_step f)\<^sup>*\<^sup>* s s' \<and> sh_hist s' = sh_hist s @ [f i (last (sh_hist s))] \<and>
    sh_cells s' = last (sh_hist s') \<and> sh_pc s' = (sh_pc s)(i := Idle)"
  using assms(1,3)
proof (induction "length (sh_cells s) - k" arbitrary: s k)
  case 0
  let ?t = "goto_pc i (WExit c (sh_count s)) (s\<lparr>sh_epoch := sh_epoch s + 1, sh_hist := sh_hist s @ [ws]\<rparr>)"
  note w = lock_inv_WStore [OF 0(2) assms(2) 0(3)]
  have k: "k = length (sh_cells s)" using lock_inv_pc [OF 0(2,3)] 0(1) unfolding pc_ok.simps by linarith
  have rel: "lock_step f s ?t" by (rule write_release [OF 0(3) k])
  have ret: "lock_step f ?t (goto_pc i Idle ?t)"
    by (rule write_return [of _ _ c "sh_count s"]) (use w(1,2) in \<open>simp_all add: and_one_odd\<close>)
  have "hist_ok f v ?t" using lock_inv_step [OF assms(2) rel 0(2)] by (simp add: lock_inv_def)
  then have "sh_cells s = ws" using w(1) by (simp add: hist_ok_def)
  moreover have "(lock_step f)\<^sup>*\<^sup>* s (goto_pc i Idle ?t)" using rel ret by simp
  ultimately show ?case unfolding w(3) by (intro exI [of _ "goto_pc i Idle ?t"]) (simp flip: w(3))
next
  case (Suc n)
  let ?t = "goto_pc i (WStore c ws (Suc k)) (s\<lparr>sh_cells := (sh_cells s)[k := ws ! k]\<rparr>)"
  have step: "lock_step f s ?t" by (rule write_store [OF Suc(4)]) (use Suc(2) in simp)
  have "\<exists>s'. (lock_step f)\<^sup>*\<^sup>* ?t s' \<and> sh_hist s' = sh_hist ?t @ [f i (last (sh_hist ?t))] \<and>
    sh_cells s' = last (sh_hist s') \<and> sh_pc s' = (sh_pc ?t)(i := Idle)"
    by (rule Suc(1) [OF _ lock_inv_step [OF assms(2) step Suc(3)], of "Suc k"]) (use Suc(2) in simp_all)
  then obtain s' where "(lock_step f)\<^sup>*\<^sup>* ?t s'" "sh_hist s' = sh_hist s @ [f i (last (sh_hist s))]"
    "sh_cells s' = last (sh_hist s')" "sh_pc s' = (sh_pc s)(i := Idle)" by auto
  then show ?case using step by (meson converse_rtranclp_into_rtranclp)
qed

lemma lock_inv_steps:
  assumes "(lock_step f)\<^sup>*\<^sup>* s s'" "lock_inv f v s" "\<And>i ws. length (f i ws) = length ws"
  shows "lock_inv f v s'"
  using assms by (induction rule: rtranclp_induct) (auto intro: lock_inv_step)

lemma writer_finishes:
  assumes inv: "lock_inv f v s" and f: "\<And>i ws. length (f i ws) = length ws" and i: "inside (sh_pc s i)"
  shows "\<exists>s'. (lock_step f)\<^sup>*\<^sup>* s s' \<and> sh_hist s' = sh_hist s @ [f i (last (sh_hist s))] \<and>
    sh_cells s' = last (sh_hist s') \<and> sh_pc s' = (sh_pc s)(i := Idle)"
proof (cases "sh_pc s i")
  case (WCopy c ws)
  let ?t = "goto_pc i (WCopy c (sh_cells s)) s" and ?u = "goto_pc i (WStore c (f i (sh_cells s)) 0) s"
  have "ws = take (length ws) (sh_cells s)" using lock_inv_pc [OF inv WCopy] unfolding pc_ok.simps by blast
  then have "(lock_step f)\<^sup>*\<^sup>* s ?t" using copy_all [OF WCopy, of f] by (metis length_take min.absorb_iff2 min.commute)
  moreover have "lock_step f ?t ?u" using write_apply [of ?t i c "sh_cells s" f] by simp
  ultimately have steps: "(lock_step f)\<^sup>*\<^sup>* s ?u" by (rule rtranclp.rtrancl_into_rtrancl)
  have "\<exists>s'. (lock_step f)\<^sup>*\<^sup>* ?u s' \<and> sh_hist s' = sh_hist ?u @ [f i (last (sh_hist ?u))] \<and>
    sh_cells s' = last (sh_hist s') \<and> sh_pc s' = (sh_pc ?u)(i := Idle)"
    by (rule store_all [OF lock_inv_steps [OF steps inv f] f]) simp_all
  then show ?thesis using steps by (auto intro: rtranclp_trans)
qed (use store_all [OF inv f] i in simp_all)

text \<open>So a waiting thread is held up only by a writer that can go on.\<close>

lemma waiting_proceeds:
  assumes inv: "lock_inv f v s" and f: "\<And>i ws. length (f i ws) = length ws"
    and i: "sh_pc s i = RWait \<or> sh_pc s i = WWait"
  shows "\<exists>s'. (lock_step f)\<^sup>*\<^sup>* s s' \<and> sh_pc s' i = sh_pc s i \<and> even (sh_epoch s') \<and> sh_cells s' = last (sh_hist s')"
proof (cases "even (sh_epoch s)")
  case True
  with inv show ?thesis by (auto simp: lock_inv_def hist_ok_def)
next
  case False
  then obtain j where j: "inside (sh_pc s j)" using inv by (auto simp: lock_inv_def exclusive_def)
  then obtain s' where s': "(lock_step f)\<^sup>*\<^sup>* s s'" "sh_cells s' = last (sh_hist s')" "sh_pc s' = (sh_pc s)(j := Idle)"
    using writer_finishes [OF inv f j] by blast
  have "\<not> inside (sh_pc s' k)" for k
    using s'(3) inv j unfolding lock_inv_def exclusive_def by (metis fun_upd_apply inside.simps(3))
  then have "even (sh_epoch s')" using lock_inv_steps [OF s'(1) inv f] by (auto simp: lock_inv_def exclusive_def)
  moreover have "i \<noteq> j" using i j by auto
  ultimately show ?thesis using s' by (intro exI [of _ s']) simp
qed

end
