(* ===== verification/Spec2Isabelle.thy ===== *)
theory Spec2Isabelle
  imports Coordinator_Properties Kvm_Properties Seq_Lock_Concurrent
begin

text \<open>
  A verification development for Tansiv, a tool that runs processes and virtual machines against a simulated
  network.

  \<^bold>\<open>The program.\<close> A client library (\<open>src/src/client\<close>) lets an application or an emulator send and receive packets.
  Simulated time is cut into slices: at the end of each (a deadline) the client's timer calls a handler, which sends the
  packets of the slice to the simulation's side (the actor), receives those delivered to it and learns the next
  deadline. The coordinator (\<open>src/src/coordinator\<close>) is the actor of all clients: it tells them their
  deadlines, collects their packets, hands them to the network simulator SimGrid and delivers those that have arrived. Both sides speak a
  protocol of length-prefixed FlatBuffers messages over local sockets (\<open>src/src/wire\<close>). With KVM, slices are ended by a kernel
  module (\<open>src/src/kvm\<close>), with which the client's timer registers its deadlines.

  \<^bold>\<open>The theories and the code.\<close>
  \<^item> \<open>Tansiv_Prelude\<close>, \<open>Rust_Time\<close>, \<open>Float64\<close>: results, panics, machine words, atomics and list facts; \<open>Duration\<close> and the
    laws of the crate chrono; double-precision numbers.
  \<^item> \<open>Buffer_Pool\<close>, \<open>Bytes_Buffer\<close>, \<open>Flatbuilder_Buffer\<close>, \<open>Waitfree_Queue\<close>, \<open>Output_Msg_Set\<close>: the files of the same names
    in \<open>tansiv-client/src\<close>. The locale \<open>inner_buffer\<close> has the contract of the trait and the lemmas of a pool over it, and is interpreted on
    both kinds of buffers; \<open>message_set\<close> is the contract of the message set.
  \<^item> \<open>Flatbuffers\<close>, \<open>Connector\<close>, \<open>Unix_Connector\<close>: \<open>packets.fbs\<close>, \<open>connector/mod.rs\<close> and \<open>connector/unix.rs\<close>; the locale
    \<open>actor_connection\<close> is the contract of receiving from the actor.
  \<^item> \<open>Client_Error\<close>, \<open>Client_Context\<close>: \<open>error.rs\<close> and \<open>Context\<close> of \<open>lib.rs\<close>, one definition for each method. The lemmas on them are in
    \<open>Context_Output\<close>, \<open>Context_Input\<close>, \<open>Context_Invariant\<close> and \<open>Context_Deadline\<close>.
  \<^item> \<open>Libc_Timer\<close>, \<open>Seq_Lock\<close>, \<open>Seq_Lock_Concurrent\<close>: \<open>rust-deps\<close>; the lock once run by one thread at a time and once
    as a step relation on any number of threads, one atomic access at a time.
  \<^item> \<open>Timer\<close>, \<open>Timer_Process\<close>, \<open>Timer_Qemu\<close>, \<open>Timer_Qemukvm\<close>: \<open>timer/\<close>; what the client uses of a timer is a record, and its
    contract is the locale \<open>timer_impl\<close>, interpreted on all three. \<open>Deadline_Handler\<close> has their \<open>deadline_handler\<close> functions.
  \<^item> \<open>Client_Spec\<close>, \<open>Client_Run\<close>: what the client promises, as a state machine on bags and lists of packets, and the
    simulation of it by the client.
  \<^item> \<open>Vsg_Address\<close>, \<open>C_Api\<close>: the C interface, \<open>capi/src\<close>.
  \<^item> \<open>Test_Actor\<close>: the actor of the crate's tests and its scripts, in the test modules of \<open>connector/unix.rs\<close> and \<open>lib.rs\<close>.
  \<^item> \<open>Wire_Socket\<close>, \<open>Vms_Interface\<close>, \<open>Vms_Coordinator\<close>: \<open>wire/socket.cpp\<close>, \<open>VmsInterface.cpp\<close> and \<open>VmsCoordinator.cpp\<close>.
    The locale \<open>machines\<close> is what the coordinator's loop relies on of the machines' interface. \<open>Client_Coordinator\<close> puts client and coordinator together.
  \<^item> \<open>Log_Buffer\<close>, \<open>Kvm_Module\<close>: the kernel module, \<open>Kernelspace/tansiv-timer.c\<close>, and the functions through which it is called,
    \<open>tansiv-timer/tansiv-timer.c\<close>, together with the client's timer on it.
  \<^item> \<open>Reference_Instances\<close>, \<open>Example_Run\<close>, \<open>Example_Coordinator\<close>: concrete instances of the libraries and concrete runs,
    for the instances of the theorems. \<open>Coordinator_Properties\<close> and \<open>Kvm_Properties\<close> have the theorems on the
    coordinator and on the kernel module.

  \<^bold>\<open>How code is modelled.\<close> State is passed explicitly, in records with the fields of the structures. A panic, a failed
  assertion and, for the coordinator, undefined behaviour and the end of the process are \<open>None\<close>; errors are values of a sum type.
  Arithmetic is that of the debug profile: overflow panics where the code does not cast or wrap, and casts are at their
  widths. Third-party code is an argument of the definitions: the crates flatbuffers, chrono and crossbeam, the system
  calls, the kernel's functions, the C++ containers' order and sort, the rounding of doubles, SimGrid. What is assumed of it are its documented laws (\<open>fb_laws\<close>, \<open>chrono_laws\<close>,
  \<open>array_queue_laws\<close>, \<open>cpp_laws\<close>, \<open>simgrid_laws\<close>, \<open>rounding\<close>), each shown to be satisfiable. A stream is what its peer will
  ever have written to it and a list of the failures to come, so that a call that would wait
  for data forever ends as for a closed connection.

  \<^bold>\<open>What is shown.\<close> On this page: every run of a client is one of the specification, from which order, conservation and
  stamps of packets follow; the deadline exchange on every branch, and that it never panics; the three deadline handlers; send, receive and the C
  interface with all return codes; the sequence lock under every interleaving; safety of the parser; behaviour at the
  limits (no free buffer, packets too big, deadlines in the past). In \<open>Coordinator_Properties\<close>: packets cross the coordinator unchanged and none is lost,
  deadlines respect latencies and are understood by the clients (the infinite one excepted), and the coordinator ends. In \<open>Kvm_Properties\<close>: the module's deadlines stay in step with the client's,
  its log is a queue until it is overfilled, and two errors in its bookkeeping.

  \<^bold>\<open>Loops.\<close> No fuel is used. \<open>receive_messages\<close> and the collecting of a slice end because every
  message takes bytes from the stream, delivery because every message delivered is removed; draining, slot search and the socket loops are
  structural. The coordinator's loop is a \<open>partial_function\<close>, and the theorem on its end bounds the number of its turns by the bytes still to be read, plus
  one for each machine.

  \<^bold>\<open>Not modelled.\<close> The command line parser, which structopt generates (it is an argument of the C interface's
  \<open>vsg_init\<close>); build scripts and the crates that only select features; logging; the tests, and the process that the test actor
  is forked into; \<open>main\<close> of the coordinator, which only sets up SimGrid; the memory management of C++ objects; the creation of
  the kernel module's device, kernel messages and its unloading; deployment scripts and examples, which start processes. Signals are modelled as calls between the
  operations of the client, not in the middle of one, except in the sequence lock, whose theorems are on single memory accesses in
  a sequentially consistent memory.
\<close>

section \<open>The client as a whole\<close>









section \<open>Deadlines\<close>

text \<open>
  C5. A deadline on a working connection: the client writes a frame for each message of the slice (stamped
  no earlier than the slice begins), then for each message set aside that is due, then the end-of-slice
  mark, and nothing else; it takes in the packets the actor sent, in order, up to the actor's decision,
  which it returns; it runs the receive callback if its inbox was empty and is not any more, and the deadline
  callback if the simulation goes on.
\<close>

theorem deadline_exchange:
  assumes "fb_laws F V" "array_queue_laws A items cap" "ctx_inv F V items cap ctx"
    and "t_previous_deadline T (timer_context ctx) = Some prev" "t_next_deadline T (timer_context ctx) = Some cur"
    and "wr_faults (actor (connector ctx)) = []" "in_time prev cur ctx"
    and "rx (actor (connector ctx)) = concat frs @ fr @ rest" "packet_frames F pkts frs" "control_frame F after fr"
    and "length (items (input_queue ctx)) + length pkts < cap (input_queue ctx)"
  shows "\<exists>ctx' bs. Context_at_deadline T F A ctx = Some (after, ctx') \<and> ctx_inv F V items cap ctx' \<and>
    tx (actor (connector ctx')) = tx (actor (connector ctx)) @ bs \<and>
    deadline_bytes F V (output_buffer_pool ctx) (deadline_schedule prev cur ctx) bs \<and>
    pending (outgoing_messages ctx') 0 = [] \<and>
    upcoming_messages ctx' = dropWhile (\<lambda>m. spb_send_time m \<le> cur) (upcoming_messages ctx) \<and>
    inbox F items ctx' = inbox F items ctx @ map Some pkts \<and> rx (actor (connector ctx')) = rest \<and>
    callbacks ctx' = callbacks ctx @ (if inbox F items ctx = [] \<and> pkts \<noteq> [] then [RecvCallback] else []) @
      (case after of NextDeadline d \<Rightarrow> [DeadlineCallback d] | AfterEndSimulation \<Rightarrow> [])"
  by (rule at_deadline_exchange [OF assms]) blast

theorem deadline_exchange_witness:
  "\<exists>ctx ctx'. Context_at_deadline ex_ops ref_fb ref_queue ctx = Some (NextDeadline (dur 200), ctx') \<and>
     pending (outgoing_messages ctx') 0 = [] \<and> inbox ref_fb snd ctx' = [Some ex_pkt] \<and>
     callbacks ctx' = callbacks ctx @ [RecvCallback, DeadlineCallback (dur 200)]"
proof -
  obtain ctx where c: "ex_rel ctx ex_sent" "healthy ref_fb ref_view snd fst ctx (dur 0) (dur 100) [ex_pkt] (NextDeadline (dur 200))"
    "qemu_slice (timer_context ctx) = (dur 0, dur 100)" "qt_offset (timer_context ctx) = (1000 :: int)"
    using ex_waiting by blast
  have dl: "t_previous_deadline ex_ops (timer_context ctx) = Some (dur 0)" "t_next_deadline ex_ops (timer_context ctx) = Some (dur 100)"
    using c(3) by (simp_all add: qemu_ops_def QemuTimer_simulation_previous_deadline_def QemuTimer_simulation_next_deadline_def)
  have "inbox ref_fb snd ctx = []" using c(1) by (simp add: client_rel_def spec_new_def)
  moreover obtain frs fr rest where h: "ex_inv ctx" "wr_faults (actor (connector ctx)) = []" "in_time (dur 0) (dur 100) ctx"
    "rx (actor (connector ctx)) = concat frs @ fr @ rest" "packet_frames ref_fb [ex_pkt] frs"
    "control_frame ref_fb (NextDeadline (dur 200)) fr"
    "length (snd (input_queue ctx)) + length [ex_pkt] < fst (input_queue ctx)"
    using c(2) by (auto simp: healthy_def)
  ultimately show ?thesis using deadline_exchange [OF ref_fb_laws ref_queue_laws h(1) dl h(2-7)] by auto
qed

text \<open>
  C6. A deadline always ends, without panic, whatever the actor sends and whichever writes fail: the loops of
  \<open>at_deadline\<close> terminate, every buffer is accounted for afterwards, and the timer is untouched.
\<close>

theorem deadline_total:
  assumes "fb_laws F V" "array_queue_laws A items cap" "ctx_inv F V items cap ctx"
    and "t_previous_deadline T (timer_context ctx) = Some prev" "t_next_deadline T (timer_context ctx) = Some cur"
  shows "\<exists>after ctx'. Context_at_deadline T F A ctx = Some (after, ctx') \<and> ctx_inv F V items cap ctx' \<and>
    timer_context ctx' = timer_context ctx"
  using assms by (rule at_deadline_inv)

theorem deadline_total_witness:
  "\<exists>ctx after ctx'. actor (connector ctx) = ex_stream [1, 2, 3] \<and> ex_inv ctx \<and>
     Context_at_deadline ex_ops ref_fb ref_queue ctx = Some (after, ctx') \<and> ex_inv ctx'"
proof -
  obtain ctx where c: "ex_rel ctx (spec_new 7 2)" "actor (connector ctx) = ex_stream [1, 2, 3]"
    "timer_context ctx = QemuTimer_new ref_chrono"
    using ex_new_ok [of "[1, 2, 3]" "QemuTimer_new ref_chrono"] by blast
  have dl: "t_previous_deadline ex_ops (timer_context ctx) = Some (dur 0)" "t_next_deadline ex_ops (timer_context ctx) = Some (dur 0)"
    using c(3) by (simp_all add: qemu_ops_def QemuTimer_simulation_previous_deadline_def
        QemuTimer_simulation_next_deadline_def QemuTimer_new_def)
  have inv: "ex_inv ctx" using c(1) by (simp add: client_rel_def)
  from deadline_total [OF ref_fb_laws ref_queue_laws inv dl] c(2) inv show ?thesis by blast
qed

text \<open>
  C7. The deadline handler of a process, on a working connection: it performs exactly the deadline step of C1's
  runs, and the simulation clock of the process shows after it what it showed before, however long it took;
  the clocks' locks are released.
\<close>

theorem process_handler_freezes_time:
  assumes "chrono_laws C ns ts" "fb_laws F V" "array_queue_laws A items cap"
    and "st = timer_context ctx" "pt_ok st"
    and "healthy F V items cap ctx (pt_prev_deadline st) (pt_next_deadline st) pkts (NextDeadline d)"
    and "ProcessTimer_freeze_time C st env1 = Some (t1, st1)"
    and "process_gettime env2 = Some t2" "settime_works env2" "handler_range ns st t1 t2 d"
  shows "\<exists>ctx' ws cbs. process_deadline_handler C td F A env1 env2 (Some ctx) = Some (Some ctx') \<and>
    run (client_step (process_ops C td) process_slice F A items cap) ctx
      [EvQuiet, EvDeadline (pt_prev_deadline st) (pt_next_deadline st) pkts ws (NextDeadline d) cbs] ctx' \<and>
    pt_ok (timer_context ctx') \<and>
    int (as_nanos t2) + sim_offset ns (timer_context ctx') = int (as_nanos t1) + sim_offset ns st"
  using assms by (rule process_handler_run)

theorem process_handler_freezes_time_witness:
  "\<exists>ctx ctx'. process_deadline_handler ref_chrono (\<lambda>_. 0) ref_fb ref_queue (ex_env 1100) (ex_env 1500) (Some ctx) = Some (Some ctx') \<and>
     sim_offset (\<lambda>x. x) (timer_context ctx) = - 1000 \<and> sim_offset (\<lambda>x. x) (timer_context ctx') = - 1400"
proof -
  obtain ctx where "ex_running (timer_context ctx)"
    and h: "healthy ref_fb ref_view snd fst ctx (dur 0) (dur 100) [ex_pkt] (NextDeadline (dur 200))"
    using ex_process_started by blast
  with h have c: "healthy ref_fb ref_view snd fst ctx (dur 0) (dur 100) [ex_pkt] (NextDeadline (dur 200))"
    "pt_ok (timer_context ctx)" "\<not> pt_at_deadline (timer_context ctx)" "process_slice (timer_context ctx) = (dur 0, dur 100)"
    "sim_offset (\<lambda>x. x) (timer_context ctx) = - 1000" "app_offset (\<lambda>x. x) (timer_context ctx) = - 1000"
    by (simp_all add: ex_running_def)
  obtain st1 where f: "ProcessTimer_freeze_time ref_chrono (timer_context ctx) (ex_env 1100) = Some (dur 1100, st1)"
    using ex_freeze [OF c(2,3)] by blast
  have "handler_range (\<lambda>x. x) (timer_context ctx) (dur 1100) (dur 1500) (dur 200)"
    using c(4-6) by (simp add: handler_range_def chrono_max_def)
  with c(1,4) process_handler_freezes_time [where pkts = "[ex_pkt]" and d = "dur 200" and td = "\<lambda>_. 0",
      OF ref_chrono_laws ref_fb_laws ref_queue_laws refl c(2) _ f ex_gettime [of 1500] ex_settime]
  obtain ctx' where "process_deadline_handler ref_chrono (\<lambda>_. 0) ref_fb ref_queue (ex_env 1100) (ex_env 1500) (Some ctx) = Some (Some ctx')"
    "int (as_nanos (dur 1500)) + sim_offset (\<lambda>x. x) (timer_context ctx') = int (as_nanos (dur 1100)) + sim_offset (\<lambda>x. x) (timer_context ctx)"
    by auto
  with c(5) show ?thesis by (intro exI [of _ ctx] exI [of _ ctx']) simp
qed

text \<open>
  C8. The deadline handler of the emulator's timer performs the deadline step, and leaves the emulator's timer set to
  the instant of the virtual clock that is the new deadline.
\<close>

theorem qemu_handler_arms_timer:
  assumes "chrono_laws C ns ts" "fb_laws F V" "array_queue_laws A items cap"
    and "st = timer_context ctx" "qemu_armed ns st" "ns (qt_offset st) + int (as_nanos d) < 2 ^ 63"
    and "healthy F V items cap ctx (qt_prev_deadline st) (qt_next_deadline st) pkts (NextDeadline d)"
  shows "\<exists>ctx' ws cbs. qemu_deadline_handler C F A (Some ctx) = Some (Some ctx') \<and>
    run (client_step (qemu_ops C) qemu_slice F A items cap) ctx
      [EvDeadline (qt_prev_deadline st) (qt_next_deadline st) pkts ws (NextDeadline d) cbs] ctx' \<and>
    qemu_armed ns (timer_context ctx')"
  using assms by (rule qemu_handler_run)

theorem qemu_handler_arms_timer_witness:
  "\<exists>ctx ctx'. qemu_deadline_handler ref_chrono ref_fb ref_queue (Some ctx) = Some (Some ctx') \<and>
     qemu_slice (timer_context ctx) = (dur 0, dur 100) \<and> qemu_armed (\<lambda>x. x) (timer_context ctx')"
proof -
  obtain ctx where c: "healthy ref_fb ref_view snd fst ctx (dur 0) (dur 100) [ex_pkt] (NextDeadline (dur 200))"
    "qemu_armed (\<lambda>x. x) (timer_context ctx)" "qt_offset (timer_context ctx) = 1000" "qemu_slice (timer_context ctx) = (dur 0, dur 100)"
    using ex_waiting by blast
  with qemu_handler_arms_timer [where d = "dur 200" and pkts = "[ex_pkt]", OF ref_chrono_laws ref_fb_laws ref_queue_laws refl c(2)]
  show ?thesis by auto
qed

text \<open>
  C9. The deadline handler for KVM performs the deadline step and returns the length of the next slice in nanoseconds.
\<close>

theorem kvm_handler_returns_slice:
  assumes "fb_laws F V" "array_queue_laws A items cap"
    and "st = timer_context ctx" "as_nanos d < 2 ^ 64"
    and "healthy F V items cap ctx (kt_prev_deadline st) (kt_next_deadline st) pkts (NextDeadline d)"
  shows "\<exists>ctx' ws cbs. kvm_deadline_handler C F A env True ctx g =
      Some (word_of_nat (as_nanos d - as_nanos (kt_next_deadline st)), ctx') \<and>
    run (client_step (kvm_ops C) kvm_slice F A items cap) ctx
      [EvQuiet, EvDeadline (kt_prev_deadline st) (kt_next_deadline st) pkts ws (NextDeadline d) cbs] ctx'"
  using assms by (rule kvm_handler_run)

theorem kvm_handler_returns_slice_witness:
  "\<exists>ctx ctx'. kvm_slice (timer_context ctx) = (dur 0, dur 100) \<and>
     kvm_deadline_handler ref_chrono ref_fb ref_queue (ex_kvm_env 0) True ctx 7 = Some (100, ctx')"
proof -
  obtain ctx where c: "healthy ref_fb ref_view snd fst ctx (dur 0) (dur 100) [ex_pkt] (NextDeadline (dur 200))"
    "kvm_slice (timer_context ctx) = (dur 0, dur 100)"
    using ex_kvm_started by blast
  with kvm_handler_returns_slice [where ctx = ctx and d = "dur 200" and pkts = "[ex_pkt]" and env = "ex_kvm_env 0" and g = 7 and C = ref_chrono,
      OF ref_fb_laws ref_queue_laws refl]
  show ?thesis by auto
qed

section \<open>Sending and receiving\<close>

text \<open>
  C10. \<open>send\<close> never panics once the clock can be read. It fails with \<open>SizeTooBig\<close> exactly for a message longer
  than a packet may be, with \<open>NoMemoryAvailable\<close> exactly when as many messages wait as there are buffers, and else queues
  the message with the client's address and the time of the call, or the later time the timer asks for.
\<close>

theorem send_outcome:
  assumes "fb_laws F V" "client_rel F V items cap ctx a" "t_simulation_now T (timer_context ctx) now = Some t"
  shows "\<exists>ctx'. Context_send T F ctx now dst msg =
      Some (fst (spec_send t (t_check_overrun T (timer_context ctx) t (upcoming_messages ctx)) dst msg a), ctx') \<and>
    client_rel F V items cap ctx' (snd (spec_send t (t_check_overrun T (timer_context ctx) t (upcoming_messages ctx)) dst msg a)) \<and>
    timer_context ctx' = timer_context ctx \<and> connector ctx' = connector ctx"
  using assms by (rule send_refines)

theorem send_outcome_witness:
  "\<exists>ctx ctx'. ex_rel ctx (spec_new 7 2) \<and> Context_send ex_ops ref_fb ctx 50 9 [4, 5] = Some (Ok (), ctx') \<and> ex_rel ctx' ex_sent"
proof -
  obtain ctx where c: "ex_rel ctx (spec_new 7 2)" "timer_context ctx = QemuTimer_new ref_chrono"
    using ex_new_ok [of "[]" "QemuTimer_new ref_chrono"] by blast
  have "t_simulation_now ex_ops (timer_context ctx) 50 = Some (dur 50)" using c(2) ex_clock by simp
  from send_outcome [OF ref_fb_laws c(1) this, of 9 "[4, 5]"] c(1) show ?thesis
    by (auto simp: ex_no_overrun spec_send_def spec_new_def MAX_PACKET_SIZE_def)
qed

text \<open>
  C11. \<open>recv\<close> never panics. On an empty inbox it fails with \<open>NoMessageAvailable\<close>; else it takes the first packet
  out and copies it to the beginning of the buffer given, or, if that is too short, fails with
  \<open>SizeTooBig\<close>, writes nothing and the packet is lost.
\<close>

theorem recv_outcome:
  assumes "array_queue_laws A items cap" "client_rel F V items cap ctx a"
  shows "\<exists>ctx'. Context_recv F A ctx buf = Some (fst (fst (spec_recv buf a)), snd (fst (spec_recv buf a)), ctx') \<and>
    client_rel F V items cap ctx' (snd (spec_recv buf a)) \<and> timer_context ctx' = timer_context ctx"
  using assms by (rule recv_refines)

theorem recv_outcome_witness:
  "\<exists>ctx ctx' a. ex_step ctx (EvRecv (Ok ex_pkt)) ctx' \<and> Context_recv ref_fb ref_queue ctx [0, 0, 0, 0] = Some (Ok ex_pkt, [1, 2, 3, 0], ctx') \<and>
     ex_rel ctx' a \<and> cs_inbox a = []"
proof -
  obtain ctx0 ctx ws cbs a where c: "run ex_step ctx0 ([EvStart (dur 100), EvSend 9 [4, 5] (Ok ())] @
      [EvDeadline (dur 0) (dur 100) [ex_pkt] ws (NextDeadline (dur 200)) cbs]) ctx" "ex_rel ctx a" "cs_inbox a = [ex_pkt]"
    using ex_delivered by blast
  obtain ctx' where "Context_recv ref_fb ref_queue ctx [0, 0, 0, 0] = Some (Ok ex_pkt, [1, 2, 3, 0], ctx')"
    "ex_rel ctx' (a\<lparr>cs_inbox := []\<rparr>)"
    using recv_outcome [OF ref_queue_laws c(2), of "[0, 0, 0, 0]"] c(3) by (auto simp: spec_recv_def)
  with c_recv [of ref_fb ref_queue ctx] show ?thesis by force
qed

section \<open>The sequence lock under concurrency\<close>

text \<open>
  C12. A read never returns a torn value: in any interleaving of any number of readers and writers, the words a read
  returns with are the value the last completed write left, and no write is in progress then. The counter has
  64 bits; the read must not span \<open>2 ^ 63\<close> writes, after which it would not see that it wrapped around.
\<close>

theorem seq_lock_read_not_torn:
  assumes "lock_reachable f v s" "\<And>i ws. length (f i ws) = length ws"
    and "lock_step f s s'" "sh_pc s i = RCopy c g ws" "sh_pc s' i = RDone us" "sh_epoch s < g + 2 ^ 64"
  shows "us = last (sh_hist s') \<and> even (sh_epoch s')"
  by (rule read_not_torn [OF lock_reachable_inv [OF assms(1,2)] assms(3-6)])

text \<open>A reader that has read the only word, and a writer that has entered while a reader waits.\<close>

abbreviation ex_reader :: "nat shared" where
  "ex_reader \<equiv> goto_pc 0 (RCopy 0 0 [5]) (sh_init [5])"

abbreviation ex_writer :: "nat shared" where
  "ex_writer \<equiv> goto_pc 1 RWait (goto_pc 0 (WCopy 0 []) ((sh_init [5])\<lparr>sh_epoch := 1\<rparr>))"

lemma ex_reader_reachable: "lock_reachable (\<lambda>_. map Suc) [5] ex_reader"
proof -
  let ?f = "\<lambda>_. map Suc" and ?s = "sh_init [5] :: nat shared"
  have "lock_step ?f ?s (goto_pc 0 RWait ?s)" by (rule read_begin) (simp add: sh_init_def)
  moreover have "lock_step ?f (goto_pc 0 RWait ?s) (goto_pc 0 (RCopy 0 0 []) ?s)"
    using read_load [of "goto_pc 0 RWait ?s" 0 ?f] by (simp add: sh_init_def)
  moreover have "lock_step ?f (goto_pc 0 (RCopy 0 0 []) ?s) ex_reader"
    using read_copy [of "goto_pc 0 (RCopy 0 0 []) ?s" 0 0 0 "[]" ?f] by (simp add: sh_init_def)
  ultimately show ?thesis by (meson lock_reachable.intros)
qed

lemma ex_writer_reachable: "lock_reachable (\<lambda>_. map Suc) [5] ex_writer"
proof -
  let ?f = "\<lambda>_. map Suc" and ?s = "sh_init [5] :: nat shared"
  have "lock_step ?f ?s (goto_pc 0 WWait ?s)" by (rule write_begin) (simp add: sh_init_def)
  moreover have "lock_step ?f (goto_pc 0 WWait ?s) (goto_pc 0 (WCas 0) ?s)"
    using write_load [of "goto_pc 0 WWait ?s" 0 ?f] by (simp add: sh_init_def)
  moreover have "lock_step ?f (goto_pc 0 (WCas 0) ?s) (goto_pc 0 (WCopy 0 []) (?s\<lparr>sh_epoch := 1\<rparr>))"
    using write_enter [of "goto_pc 0 (WCas 0) ?s" 0 0 ?f] by (simp add: sh_init_def)
  moreover have "lock_step ?f (goto_pc 0 (WCopy 0 []) (?s\<lparr>sh_epoch := 1\<rparr>)) ex_writer"
    using read_begin [of "goto_pc 0 (WCopy 0 []) (?s\<lparr>sh_epoch := 1\<rparr>)" 1 ?f] by (simp add: sh_init_def)
  ultimately show ?thesis by (meson lock_reachable.intros)
qed

theorem seq_lock_read_not_torn_witness:
  "lock_step (\<lambda>_. map Suc) ex_reader (goto_pc 0 (RDone [5]) ex_reader) \<and>
     [5] = last (sh_hist (goto_pc 0 (RDone [5]) ex_reader)) \<and> even (sh_epoch (goto_pc 0 (RDone [5]) ex_reader))"
proof -
  have st: "lock_step (\<lambda>_. map Suc) ex_reader (goto_pc 0 (RDone [5]) ex_reader)"
    using read_ok [of ex_reader 0 0 0 "[5]"] by (simp add: sh_init_def)
  have "[5] = last (sh_hist (goto_pc 0 (RDone [5]) ex_reader)) \<and> even (sh_epoch (goto_pc 0 (RDone [5]) ex_reader))"
    by (rule seq_lock_read_not_torn [OF ex_reader_reachable _ st, of 0 0 0 "[5]"]) (simp_all add: sh_init_def)
  with st show ?thesis by blast
qed

text \<open>
  C13. At most one thread is inside \<open>write\<close> at any time, exactly while the counter is odd; each value the lock has held is
  the result of some writer's function on the value before it, so no update is lost; between writes the memory
  holds the last of them; and no assertion of the code fails in any thread.
\<close>

theorem seq_lock_safe:
  assumes "lock_reachable f v s" "\<And>i ws. length (f i ws) = length ws"
  shows "exclusive s \<and> hist_ok f v s \<and> (\<forall>i. sh_pc s i \<noteq> Panicked)"
  using lock_reachable_inv [OF assms] lock_inv_pc by (fastforce simp: lock_inv_def)

theorem seq_lock_safe_witness: "exclusive ex_writer \<and> hist_ok (\<lambda>_. map Suc) [5] ex_writer \<and> (\<forall>i. sh_pc ex_writer i \<noteq> Panicked)"
  by (rule seq_lock_safe [OF ex_writer_reachable]) simp

text \<open>
  A thread inside \<open>write\<close> can always finish by its own steps: its function is applied to the current value, the
  result becomes the current value and the lock is released.
\<close>

theorem seq_lock_write_finishes:
  assumes "lock_reachable f v s" "\<And>i ws. length (f i ws) = length ws" and "inside (sh_pc s i)"
  shows "\<exists>s'. (lock_step f)\<^sup>*\<^sup>* s s' \<and> sh_hist s' = sh_hist s @ [f i (last (sh_hist s))] \<and>
    sh_cells s' = last (sh_hist s') \<and> sh_pc s' = (sh_pc s)(i := Idle)"
  by (rule writer_finishes [OF lock_reachable_inv [OF assms(1,2)] assms(2,3)])

theorem seq_lock_write_finishes_witness:
  "\<exists>s'. (lock_step (\<lambda>_. map Suc))\<^sup>*\<^sup>* ex_writer s' \<and> sh_hist s' = [[5], [6]] \<and> sh_cells s' = [6] \<and> sh_pc s' 0 = Idle \<and> sh_pc s' 1 = RWait"
  using seq_lock_write_finishes [OF ex_writer_reachable, of 0] by (auto simp: sh_init_def)

text \<open>
  C14. The lock has no deadlock: from any reachable state a thread that waits in \<open>read\<close> or \<open>write\<close> for the lock to be
  released can be brought to a state where it is, by steps of the other threads alone.
\<close>

theorem seq_lock_waiting_proceeds:
  assumes "lock_reachable f v s" "\<And>i ws. length (f i ws) = length ws" and "sh_pc s i = RWait \<or> sh_pc s i = WWait"
  shows "\<exists>s'. (lock_step f)\<^sup>*\<^sup>* s s' \<and> sh_pc s' i = sh_pc s i \<and> even (sh_epoch s') \<and> sh_cells s' = last (sh_hist s')"
  by (rule waiting_proceeds [OF lock_reachable_inv [OF assms(1,2)] assms(2,3)])

theorem seq_lock_waiting_proceeds_witness:
  "\<exists>s'. (lock_step (\<lambda>_. map Suc))\<^sup>*\<^sup>* ex_writer s' \<and> sh_pc s' 1 = RWait \<and> even (sh_epoch s')"
  using seq_lock_waiting_proceeds [OF ex_writer_reachable, of 1] by auto

section \<open>The protocol\<close>

text \<open>
  C15. Receiving from the actor never panics, whatever bytes arrive and however full the pool is:
  it returns a message or an error. Buffers that were live keep their content, only a delivered
  packet takes a new buffer, and its accessors are then defined.
\<close>

theorem MsgIn_recv_safe:
  assumes "bytes_ib.wf_pool pool"
  shows "\<exists>r s' pool'. MsgIn_recv F s pool = Some (r, s', pool') \<and> recv_post F s pool r s' pool'"
  using assms by (rule MsgIn_recv_total)

theorem MsgIn_recv_safe_witness:
  "\<exists>r s' pool'. MsgIn_recv ref_fb \<lparr>rx = [1, 2], tx = [], wr_faults = []\<rparr>
     \<lparr>buffer_size = 4, buffers = replicate 8 0, buffer_busy = [False, True]\<rparr> = Some (r, s', pool')"
  using MsgIn_recv_safe [of "\<lparr>buffer_size = 4, buffers = replicate 8 0, buffer_busy = [False, True]\<rparr>"
      ref_fb "\<lparr>rx = [1, 2], tx = [], wr_faults = []\<rparr>"]
  by (auto simp: bytes_ib.wf_pool_def bytes_wf_arr_def isize_max_def)

text \<open>
  The bytes of a deadline can be read in one way only: they determine the packets, their senders,
  destinations, times and contents, their order, and where the slice ends, whatever follows them.
\<close>

theorem wire_read_uniquely:
  assumes "fb_laws F V" "wire F ws bs" "wire F ws' bs'" "bs @ r = bs' @ r'"
  shows "ws = ws' \<and> r = r'"
  using assms by (rule wire_unique)

theorem wire_read_uniquely_witness:
  "{ws. wire ref_fb ws (ex_send_packet (7, 9, dur 50, [4, 5]) @ ex_mark)} = {[(7, 9, dur 50, [4, 5])]}"
proof -
  have w: "wire ref_fb [(7, 9, dur 50, [4, 5])] (ex_send_packet (7, 9, dur 50, [4, 5]) @ ex_mark)"
    unfolding wire_def
    by (rule exI [of _ "[ex_send_packet (7, 9, dur 50, [4, 5])]"], rule exI [of _ ex_mark])
       (simp add: ex_mark_frame ex_send_packet_frame)
  moreover have "ws = [(7, 9, dur 50, [4, 5])]" if "wire ref_fb ws (ex_send_packet (7, 9, dur 50, [4, 5]) @ ex_mark)" for ws
    by (rule wire_read_uniquely [OF ref_fb_laws that w refl, THEN conjunct1])
  ultimately show ?thesis by blast
qed

text \<open>
  The actor reads what the client writes: waiting for the end of a slice, it consumes exactly the frames of
  the packets and the mark that ends the slice, returns with success, and holds no buffer afterwards, so
  that both ends of the connection stay in step.
\<close>

theorem actor_in_step:
  assumes "fb_laws F V" "actor_ok ta"
    and "list_all2 (\<lambda>(src, dst, t, p) fr. to_frame F fr (send_packet_msg src dst t p) \<and>
      length fr \<le> MAX_PACKET_SIZE + 4 \<and> length p \<le> fb_payload_limit) ws frs"
    and "to_frame F fr at_deadline_msg" "length fr \<le> MAX_PACKET_SIZE + 4"
    and "rx (ta_client ta) = concat frs @ fr @ rest"
  shows "\<exists>ta'. wait_at_deadline F ta = Some (Ok (), ta') \<and> actor_ok ta' \<and> ta_client ta' = (ta_client ta)\<lparr>rx := rest\<rparr>"
  using assms by (rule actor_follows_client)

theorem actor_in_step_witness:
  "\<exists>ta ta'. ta_client ta = ex_stream (ex_send_packet (7, 9, dur 50, [4, 5]) @ ex_mark @ [1, 2, 3]) \<and>
     wait_at_deadline ref_fb ta = Some (Ok (), ta') \<and> rx (ta_client ta') = [1, 2, 3]"
proof -
  obtain ta :: "ref_builder test_actor" where ta: "actor_ok ta" "ta_client ta = ex_stream (ex_send_packet (7, 9, dur 50, [4, 5]) @ ex_mark @ [1, 2, 3])"
    by (rule actor_new_ok [of ref_fb "ex_stream (ex_send_packet (7, 9, dur 50, [4, 5]) @ ex_mark @ [1, 2, 3])"])
  with actor_in_step [OF ref_fb_laws ta(1) _ ex_mark_frame, of "[(7, 9, dur 50, [4, 5])]" "[ex_send_packet (7, 9, dur 50, [4, 5])]" "[1, 2, 3]"]
  show ?thesis by (auto simp: ex_stream_def ex_send_packet_frame fb_payload_limit_def)
qed

text \<open>
  A whole session against the script \<open>start_actor\<close>: the client starts with the deadline the script sends, calls
  the deadline callback with it, and at that deadline is told to end the simulation, without a further callback.
\<close>

theorem session_with_start_actor:
  assumes "fb_laws F V" "array_queue_laws A items cap"
    and "actor_ok ta" "tx (ta_client ta) = []" "wr_faults (ta_client ta) = []" "start_actor F ta = Some (r, ta')"
      "length (tx (ta_client ta')) \<le> MAX_PACKET_SIZE"
    and "0 < num_buffers cfg" "Context_new F A connect (Ok tm) register cfg = Some (Ok ctx)"
    and "actor (connector ctx) = \<lparr>rx = tx (ta_client ta'), tx = [], wr_faults = []\<rparr>"
    and "t_start T tm now START_ACTOR_DEADLINE = Some (Ok off, tm')"
    and "t_previous_deadline T tm' = Some prev" "t_next_deadline T tm' = Some cur"
  shows "\<exists>ctx1 ctx2. Context_start T F ctx now = Some (Ok off, ctx1) \<and> callbacks ctx1 = [DeadlineCallback START_ACTOR_DEADLINE] \<and>
    Context_at_deadline T F A ctx1 = Some (AfterEndSimulation, ctx2) \<and> callbacks ctx2 = callbacks ctx1"
  using assms by (rule start_actor_session)

theorem session_with_start_actor_witness:
  "\<exists>ctx ctx1 ctx2 off. timer_context ctx = QemuTimer_new ref_chrono \<and> Context_start ex_ops ref_fb ctx 1000 = Some (Ok off, ctx1) \<and>
     Context_at_deadline ex_ops ref_fb ref_queue ctx1 = Some (AfterEndSimulation, ctx2)"
proof -
  obtain ta ta' where ta: "actor_ok ta" "ta_client ta = ex_stream []" "start_actor ref_fb ta = Some (Ok (), ta')"
    "length (tx (ta_client ta')) \<le> MAX_PACKET_SIZE"
    using ex_script by blast
  obtain ctx where c: "ex_new (tx (ta_client ta')) (QemuTimer_new ref_chrono) = Some (Ok ctx)"
    "actor (connector ctx) = ex_stream (tx (ta_client ta'))" "timer_context ctx = QemuTimer_new ref_chrono"
    using ex_new_ok [of "tx (ta_client ta')" "QemuTimer_new ref_chrono"] by blast
  obtain st where st: "QemuTimer_start ref_chrono (QemuTimer_new ref_chrono) 1000 START_ACTOR_DEADLINE =
      Some (Ok (ch_nanoseconds ref_chrono 1000), st)"
    by (rule qemu_start_armed [OF ref_chrono_laws, of 1000 START_ACTOR_DEADLINE]) (simp_all add: START_ACTOR_DEADLINE_def)
  have t: "t_start ex_ops (QemuTimer_new ref_chrono) 1000 START_ACTOR_DEADLINE = Some (Ok (ch_nanoseconds ref_chrono 1000), st)"
    "t_previous_deadline ex_ops st = Some (qt_prev_deadline st)" "t_next_deadline ex_ops st = Some (qt_next_deadline st)"
    using st by (simp_all add: qemu_ops_def QemuTimer_simulation_previous_deadline_def QemuTimer_simulation_next_deadline_def)
  show ?thesis
    using session_with_start_actor [OF ref_fb_laws ref_queue_laws ta(1) _ _ ta(3,4) _ c(1) _ t] ta(2) c(2,3)
    by (auto simp: ex_stream_def)
qed

text \<open>
  A packet that the actor encodes is received as the packet it was: \<open>recv\<close> returns a message whose source, destination
  and payload are those given to \<open>create_deliver_packet\<close>, and leaves the stream at the next message.
\<close>

theorem packet_round_trip:
  assumes "fb_laws F V" "fv_fresh V b" "length p \<le> fb_payload_limit"
    and "fb_finished_data F (create_deliver_packet F b src dst p) = Some data" "length data \<le> buffer_size pool + 4"
    and "bytes_ib.wf_pool pool" "card (pool_busy pool) < num_buffers_of pool" "rx s = data @ rest"
  shows "\<exists>d pool'. MsgIn_recv F s pool = Some (Ok (DeliverPacket d), s\<lparr>rx := rest\<rparr>, pool') \<and>
    DeliverPacket_deserialize F pool' d = Some (Some \<lparr>pm_src = src, pm_dst = dst\<rparr>, Some p)"
proof -
  have "from_frame F data (deliver_packet_msg src dst p)"
    using create_deliver_packet_frame [OF assms(1-3), of src dst] assms(4) by auto
  then show ?thesis by (rule recv_deliver_packet [OF assms(1,6,7) _ assms(5,8)]) blast
qed

theorem packet_round_trip_witness:
  "\<exists>d pool'. MsgIn_recv ref_fb (ex_stream (ex_packet ex_pkt)) ex_pool =
       Some (Ok (DeliverPacket d), ex_stream [], pool') \<and>
     DeliverPacket_deserialize ref_fb pool' d = Some (Some \<lparr>pm_src = 9, pm_dst = 7\<rparr>, Some [1, 2, 3])"
proof -
  have b: "fv_fresh ref_view RFresh" by (simp add: ref_view_def)
  have data: "fb_finished_data ref_fb (create_deliver_packet ref_fb RFresh 9 7 [1, 2, 3]) = Some (ex_packet ex_pkt)"
    by (simp add: create_deliver_packet_def prepare_deliver_packet_def ref_fb_def ex_packet_def Let_def)
  have p: "length [1, 2, 3 :: u8] \<le> fb_payload_limit" by (simp add: fb_payload_limit_def)
  show ?thesis
    by (rule packet_round_trip [OF ref_fb_laws b p data ex_frames_short(2) ex_pool_ok(1,2) ex_stream_simps(1), unfolded ex_stream_simps(2)])
qed

text \<open>
  Every deadline, to the nanosecond and over the whole range of the type, survives the encoding: what the actor
  encodes for the deadline \<open>d\<close> is received as \<open>GoToDeadline d\<close>, and takes no buffer.
\<close>

theorem deadline_round_trip:
  assumes "fb_laws F V" "fv_fresh V b"
    and "fb_finished_data F (create_goto_deadline F b d) = Some data" "length data \<le> buffer_size pool + 4"
    and "bytes_ib.wf_pool pool" "card (pool_busy pool) < num_buffers_of pool" "rx s = data @ rest"
  shows "\<exists>pool'. MsgIn_recv F s pool = Some (Ok (GoToDeadline d), s\<lparr>rx := rest\<rparr>, pool') \<and> pool_busy pool' = pool_busy pool"
proof -
  have fr: "from_frame F data (goto_deadline_msg d)" using create_goto_deadline_frame [OF assms(1,2), of d] assms(3) by auto
  obtain pool' where r: "MsgIn_recv F s pool = Some (Ok (GoToDeadline d), s\<lparr>rx := rest\<rparr>, pool')"
    by (rule recv_control [OF assms(1,5,6) fr assms(4,7), of d "GoToDeadline d"]) auto
  with MsgIn_recv_total [OF assms(5), of F s] show ?thesis by (auto simp: recv_post_def)
qed

theorem deadline_round_trip_witness:
  "\<exists>pool'. MsgIn_recv ref_fb (ex_stream (ex_goto (dur 1000000001))) ex_pool =
     Some (Ok (GoToDeadline (dur 1000000001)), ex_stream [], pool') \<and> pool_busy pool' = {}"
proof -
  have b: "fv_fresh ref_view RFresh" by (simp add: ref_view_def)
  show ?thesis
    by (rule deadline_round_trip [OF ref_fb_laws b ex_goto_data ex_frames_short(1) ex_pool_ok(1,2) ex_stream_simps(1),
          unfolded ex_stream_simps(2) ex_pool_ok(4)])
qed

section \<open>Creation and start\<close>

text \<open>
  C31. A client that was created is in order: all its buffers are free and accounted for, no message waits in either
  direction, it has the buffers and the address of its configuration, and it is not started.
\<close>

theorem new_client_in_order:
  assumes "array_queue_laws A items cap" "0 < num_buffers cfg"
    and "Context_new F A connect timer_new register cfg = Some (Ok ctx)"
  shows "ctx_inv F V items cap ctx \<and> \<not> start_once ctx \<and> callbacks ctx = [] \<and> address ctx = cfg_address cfg \<and>
    inbox F items ctx = [] \<and> waiting_messages ctx = 0 \<and> num_buffers_of (output_buffer_pool ctx) = num_buffers cfg \<and>
    cap (input_queue ctx) = num_buffers cfg"
  using Context_new_inv(1) [OF assms, of V] Context_new_inv(2-) [OF assms] by (simp add: inbox_def)

theorem new_client_in_order_witness:
  "\<exists>ctx. ex_new [1, 2] () = Some (Ok ctx) \<and> ex_inv ctx \<and> fst (input_queue ctx) = 2"
proof -
  obtain ctx where c: "ex_new [1, 2] () = Some (Ok ctx)" using ex_new_ok [of "[1, 2]" "()"] by blast
  with new_client_in_order [OF ref_queue_laws _ c, where V = ref_view] show ?thesis by auto
qed

text \<open>
  Once the connection is up, creation depends on the size of the buffers alone: it succeeds when their bytes fit into
  one allocation, and panics when they do not.
\<close>

theorem new_client_size:
  assumes "array_queue_laws A items cap" "0 < num_buffers cfg" "connect (actor_socket cfg) = Ok s"
  shows "((\<exists>ctx. Context_new F A connect (Ok tm) (Ok ()) cfg = Some (Ok ctx)) \<longleftrightarrow> MAX_PACKET_SIZE * num_buffers cfg \<le> isize_max) \<and>
    (Context_new F A connect (Ok tm) (Ok ()) cfg = None \<longleftrightarrow> isize_max < MAX_PACKET_SIZE * num_buffers cfg)"
proof -
  have "(\<exists>ctx. Context_new F A connect (Ok tm) (Ok ()) cfg = Some (Ok ctx))" if "MAX_PACKET_SIZE * num_buffers cfg \<le> isize_max"
    using Context_new_succeeds [where connect = connect and F = F and tm = tm, OF assms(1,2) that assms(3)] by auto
  moreover have "Context_new F A connect (Ok tm) (Ok ()) cfg = None" if "isize_max < MAX_PACKET_SIZE * num_buffers cfg"
    using assms(3) that by (rule Context_new_panic)
  ultimately show ?thesis by (cases "MAX_PACKET_SIZE * num_buffers cfg \<le> isize_max") (auto simp: not_le)
qed

theorem new_client_size_witness:
  "Context_new ref_fb ref_queue (\<lambda>_. Ok (ex_stream [])) (Ok ()) (Ok ()) (ex_cfg\<lparr>num_buffers := isize_max\<rparr>) = None"
  using new_client_size [OF ref_queue_laws, of "ex_cfg\<lparr>num_buffers := isize_max\<rparr>" "\<lambda>_. Ok (ex_stream [])" "ex_stream []" ref_fb "()"]
  by (simp add: isize_max_def MAX_PACKET_SIZE_def)

text \<open>
  A client starts at most once: after a call of \<open>start\<close>, whether it succeeded or not, every further call fails with
  \<open>AlreadyStarted\<close> and changes nothing.
\<close>

theorem start_only_once:
  assumes "Context_start T F ctx now = Some (r, ctx')"
  shows "Context_start T F ctx' now' = Some (Err AlreadyStarted, ctx')"
  using assms by (rule start_again [OF start_sets_once])

theorem start_only_once_witness:
  "\<exists>ctx ctx' e. ex_inv ctx \<and> Context_start ex_ops ref_fb ctx 1000 = Some (Err e, ctx') \<and> e \<noteq> AlreadyStarted \<and>
     Context_start ex_ops ref_fb ctx' 2000 = Some (Err AlreadyStarted, ctx')"
proof -
  obtain ctx where c: "ex_inv ctx" "actor (connector ctx) = ex_stream []" "\<not> start_once ctx" "timer_context ctx = QemuTimer_new ref_chrono"
    using ex_new_ok [of "[]" "QemuTimer_new ref_chrono"] by (auto simp: client_rel_def)
  then obtain ctx' e where s: "Context_start ex_ops ref_fb ctx 1000 = Some (Err (IoError e), ctx')"
    by (simp add: Context_start_def UnixConnector_recv_def MsgIn_recv_def read_prefixed_size_def ex_stream_def read_exact_def)
  from start_only_once [OF s] s c(1) show ?thesis by blast
qed

section \<open>When the simulation ends early\<close>

text \<open>
  C32. Input starvation: the message that sets the next deadline needs an input buffer too. If the packets of a slice take
  the last free ones, the client cannot receive it, and ends the simulation, though every message was valid.
\<close>

theorem starved_client_ends:
  assumes "fb_laws F V" "array_queue_laws A items cap" "ctx_inv F V items cap ctx"
    and "t_previous_deadline T (timer_context ctx) = Some prev" "t_next_deadline T (timer_context ctx) = Some cur"
    and "rx (actor (connector ctx)) = concat frs @ fr @ rest" "packet_frames F pkts frs" "control_frame F (NextDeadline d) fr"
    and "length (inbox F items ctx) + length pkts = cap (input_queue ctx)"
  shows "\<exists>ctx'. Context_at_deadline T F A ctx = Some (AfterEndSimulation, ctx')"
  using deadline_starved [OF assms(1-7), of "goto_deadline_msg d"] assms(8,9) by (simp add: control_frame_def inbox_def)

theorem starved_client_ends_witness:
  "\<exists>ctx ctx'. ex_inv ctx \<and> actor (connector ctx) = ex_stream (ex_packet ex_pkt @ ex_packet ex_pkt @ ex_goto (dur 200)) \<and>
     Context_at_deadline ex_ops ref_fb ref_queue ctx = Some (AfterEndSimulation, ctx')"
proof -
  let ?bs = "ex_packet ex_pkt @ ex_packet ex_pkt @ ex_goto (dur 200)"
  obtain ctx where c: "ex_rel ctx (spec_new 7 2)" "actor (connector ctx) = ex_stream ?bs" "timer_context ctx = QemuTimer_new ref_chrono"
    using ex_new_ok [of ?bs "QemuTimer_new ref_chrono"] by blast
  then have inv: "ex_inv ctx" and box: "inbox ref_fb snd ctx = []" "fst (input_queue ctx) = 2"
    by (simp_all add: client_rel_def spec_new_def)
  have rx: "rx (actor (connector ctx)) = concat [ex_packet ex_pkt, ex_packet ex_pkt] @ ex_goto (dur 200) @ []"
    using c(2) by (simp add: ex_stream_def)
  have pk: "packet_frames ref_fb [ex_pkt, ex_pkt] [ex_packet ex_pkt, ex_packet ex_pkt]"
    using ex_packet_frame [of "[1, 2, 3]" 9 7] by (simp add: packet_frames_def)
  from starved_client_ends [where T = ex_ops, OF ref_fb_laws ref_queue_laws inv ex_new_deadlines [OF c(3)] rx pk ex_goto_frame] box inv c(2)
  show ?thesis by auto
qed

text \<open>
  C33. A packet whose encoding is larger than an input buffer ends the simulation of the client it is delivered to. (Since
  \<open>send\<close> accepts payloads up to the size of a buffer, a peer can send such a packet.)
\<close>

theorem oversized_packet_ends:
  assumes "fb_laws F V" "ctx_inv F V items cap ctx"
    and "t_previous_deadline T (timer_context ctx) = Some prev" "t_next_deadline T (timer_context ctx) = Some cur"
    and "rx (actor (connector ctx)) = fr @ rest" "from_frame F fr (deliver_packet_msg src dst p)" "MAX_PACKET_SIZE + 4 < length fr"
  shows "\<exists>ctx'. Context_at_deadline T F A ctx = Some (AfterEndSimulation, ctx')"
  using assms by (rule deadline_oversized)

theorem oversized_packet_ends_witness:
  "\<exists>ctx ctx'. ex_inv ctx \<and> actor (connector ctx) = ex_stream (ex_packet (9, 7, replicate MAX_PACKET_SIZE 0)) \<and>
     Context_at_deadline ex_ops ref_fb ref_queue ctx = Some (AfterEndSimulation, ctx')"
proof -
  let ?fr = "ex_packet (9, 7, replicate MAX_PACKET_SIZE 0)"
  obtain ctx where c: "ex_rel ctx (spec_new 7 2)" "actor (connector ctx) = ex_stream ?fr" "timer_context ctx = QemuTimer_new ref_chrono"
    using ex_new_ok [of ?fr "QemuTimer_new ref_chrono"] by blast
  then have inv: "ex_inv ctx" by (simp add: client_rel_def)
  have rx: "rx (actor (connector ctx)) = ?fr @ []" using c(2) by (simp add: ex_stream_def)
  from oversized_packet_ends [where T = ex_ops, OF ref_fb_laws inv ex_new_deadlines [OF c(3)] rx ex_big_packet] inv c(2)
  show ?thesis by blast
qed

text \<open>
  C34. In a process, a deadline before the current one makes the handler panic: the length of the next slice underflows.
\<close>

theorem process_deadline_regress:
  assumes "ProcessTimer_freeze_time C (timer_context ctx) env1 = Some (t1, st1)"
    and "Context_at_deadline (process_ops C td) F A (ctx\<lparr>timer_context := st1\<rparr>) = Some (NextDeadline d, ctx1)"
      "timer_context ctx1 = st1"
    and "d < pt_next_deadline (timer_context ctx)"
  shows "process_deadline_handler C td F A env1 env2 (Some ctx) = None"
  using assms by (rule process_handler_regress)

theorem process_deadline_regress_witness:
  "\<exists>ctx. ex_running (timer_context ctx) \<and>
     process_deadline_handler ref_chrono (\<lambda>_. 0) ref_fb ref_queue (ex_env 1100) (ex_env 1200) (Some ctx) = None"
proof -
  obtain ctx st1 ctx1 where c: "ex_running (timer_context ctx)"
    "ProcessTimer_freeze_time ref_chrono (timer_context ctx) (ex_env 1100) = Some (dur 1100, st1)"
    "Context_at_deadline ex_process_ops ref_fb ref_queue (ctx\<lparr>timer_context := st1\<rparr>) = Some (NextDeadline (dur 60), ctx1)"
    "timer_context ctx1 = st1"
    using ex_process_deadline [OF ex_goto_frame [of "dur 60"], of 1100] by blast
  from process_deadline_regress [OF c(2-4)] c(1) show ?thesis by (auto simp: ex_running_def duration_less_iff)
qed

text \<open>
  When the simulation ends, the deadline handler of a process releases \<open>stop\<close>: until then a call of \<open>stop\<close> waits, afterwards
  it returns.
\<close>

theorem process_stop_returns:
  assumes "\<not> pt_stopped (timer_context ctx)" "ProcessTimer_freeze_time C (timer_context ctx) env1 = Some (t1, st1)"
    and "Context_at_deadline (process_ops C td) F A (ctx\<lparr>timer_context := st1\<rparr>) = Some (AfterEndSimulation, ctx1)"
  shows "ProcessTimer_stop (timer_context ctx) = None \<and>
    (\<exists>ctx'. process_deadline_handler C td F A env1 env2 (Some ctx) = Some (Some ctx') \<and> ProcessTimer_stop (timer_context ctx') = Some ())"
  using process_handler_end [OF assms(2,3), of env2] assms(1) stop_returns_iff [of "timer_context ctx"]
  by (cases "ProcessTimer_stop (timer_context ctx)") (auto simp: stop_returns_iff)

theorem process_stop_returns_witness:
  "\<exists>ctx ctx'. ProcessTimer_stop (timer_context ctx) = None \<and>
     process_deadline_handler ref_chrono (\<lambda>_. 0) ref_fb ref_queue (ex_env 1100) (ex_env 1200) (Some ctx) = Some (Some ctx') \<and>
     ProcessTimer_stop (timer_context ctx') = Some ()"
proof -
  obtain ctx st1 ctx1 where c: "ex_running (timer_context ctx)"
    "ProcessTimer_freeze_time ref_chrono (timer_context ctx) (ex_env 1100) = Some (dur 1100, st1)"
    "Context_at_deadline ex_process_ops ref_fb ref_queue (ctx\<lparr>timer_context := st1\<rparr>) = Some (AfterEndSimulation, ctx1)"
    using ex_process_deadline [OF ex_end_frame, of 1100] by blast
  from process_stop_returns [OF _ c(2,3), of "ex_env 1200"] c(1) show ?thesis by (auto simp: ex_running_def)
qed

text \<open>
  C35. Deadlines of a process drift: the timer is armed for the length of the slice counted from the moment the handler
  resumes, so that the delay with which the handler was called (reading \<open>t1\<close> instead of the time the timer was set to)
  is added to the simulated time at which the next deadline fires.
\<close>

theorem process_deadlines_drift:
  assumes "chrono_laws C ns ts" "pt_ok (timer_context ctx)"
    and "ProcessTimer_freeze_time C (timer_context ctx) env1 = Some (t1, st1)"
    and "Context_at_deadline (process_ops C td) F A (ctx\<lparr>timer_context := st1\<rparr>) = Some (NextDeadline d, ctx1)"
      "timer_context ctx1 = st1"
    and "process_gettime env2 = Some t2" "settime_works env2"
    and "pt_next_deadline (timer_context ctx) \<le> d" "handler_range ns (timer_context ctx) t1 t2 d"
  shows "\<exists>ctx'. process_deadline_handler C td F A env1 env2 (Some ctx) = Some (Some ctx') \<and>
    pt_next_deadline (timer_context ctx') = d \<and>
    lateness ns (timer_context ctx') = lateness ns (timer_context ctx) +
      (int (as_nanos t1) - int (as_nanos (pt_next_deadline_raw (timer_context ctx))))"
  by (rule process_handler_next [OF assms]) auto

theorem process_deadlines_drift_witness:
  "\<exists>ctx ctx'. lateness (\<lambda>x. x) (timer_context ctx) = 0 \<and>
     process_deadline_handler ref_chrono (\<lambda>_. 0) ref_fb ref_queue (ex_env 1130) (ex_env 1200) (Some ctx) = Some (Some ctx') \<and>
     lateness (\<lambda>x. x) (timer_context ctx') = 30"
proof -
  obtain ctx st1 ctx1 where c: "ex_running (timer_context ctx)"
    "ProcessTimer_freeze_time ref_chrono (timer_context ctx) (ex_env 1130) = Some (dur 1130, st1)"
    "Context_at_deadline ex_process_ops ref_fb ref_queue (ctx\<lparr>timer_context := st1\<rparr>) = Some (NextDeadline (dur 200), ctx1)"
    "timer_context ctx1 = st1"
    using ex_process_deadline [OF ex_goto_frame [of "dur 200"], of 1130] by blast
  then have st: "pt_ok (timer_context ctx)" "lateness (\<lambda>x. x) (timer_context ctx) = 0" "as_nanos (pt_next_deadline_raw (timer_context ctx)) = 1100"
    "pt_next_deadline (timer_context ctx) \<le> dur 200" "handler_range (\<lambda>x. x) (timer_context ctx) (dur 1130) (dur 1200) (dur 200)"
    by (simp_all add: ex_running_def handler_range_def chrono_max_def duration_bound_def)
  from process_deadlines_drift [OF ref_chrono_laws st(1) c(2-4) ex_gettime ex_settime st(4,5)] st(2,3) show ?thesis by auto
qed

section \<open>Buffers and message sets\<close>



text \<open>
  C37. The set of outgoing messages is a bag with a bound: an insertion succeeds exactly when a slot is free and adds the
  message, and one drain then yields every message of the set, each once, and leaves the set empty.
\<close>

theorem message_set_is_bounded_bag:
  assumes "wf_set s"
  shows "\<exists>s' i s''. OutputMsgSet_insert s m =
      Some (if length (pending s 0) < length (slots s) then Ok () else Err NoSlotAvailable, s') \<and>
    mset (pending s' 0) = (if length (pending s 0) < length (slots s) then {#m#} else {#}) + mset (pending s 0) \<and>
    outgoing.drain_steps (length (slots s)) s' 0 = Some (pending s' 0, i, s'') \<and> pending s'' 0 = []"
proof -
  let ?room = "length (pending s 0) < length (slots s)"
  have "\<exists>s'. OutputMsgSet_insert s m = Some (if ?room then Ok () else Err NoSlotAvailable, s') \<and> wf_set s' \<and>
      mset (pending s' 0) = (if ?room then {#m#} else {#}) + mset (pending s 0) \<and> length (slots s') = length (slots s)"
  proof (cases ?room)
    case True
    with outgoing.ins_room [OF assms this, of m] show ?thesis by auto
  next
    case False
    with outgoing.waiting_capacity [OF assms] have "length (pending s 0) = length (slots s)" by simp
    with outgoing.ins_full [OF assms this, of m] assms show ?thesis by simp
  qed
  then obtain s' where s': "OutputMsgSet_insert s m = Some (if ?room then Ok () else Err NoSlotAvailable, s')" "wf_set s'"
    "mset (pending s' 0) = (if ?room then {#m#} else {#}) + mset (pending s 0)" "length (slots s') = length (slots s)"
    by blast
  have len: "length (pending s' 0) \<le> length (slots s)" using outgoing.waiting_capacity [OF s'(2)] s'(4) by simp
  then obtain i s'' where "outgoing.drain_steps (length (slots s)) s' 0 = Some (pending s' 0, i, s'')" "pending s'' 0 = []"
    using outgoing.drain_steps_all [OF s'(2), of "length (slots s)" 0] by auto
  with s' show ?thesis by blast
qed

theorem message_set_is_bounded_bag_witness:
  "\<exists>s' i s''. OutputMsgSet_insert (OutputMsgSet_new 1) (5 :: nat) = Some (Ok (), s') \<and>
     outgoing.drain_steps 1 s' 0 = Some ([5], i, s'') \<and> pending s'' 0 = []"
  using message_set_is_bounded_bag [OF wf_set_new, of 1 "5 :: nat"] by auto

section \<open>The C interface\<close>



text \<open>
  C39. \<open>vsg_recv\<close> agrees with \<open>vsg_poll\<close>: both return \<open>EAGAIN\<close> exactly on an empty inbox. Else \<open>vsg_recv\<close> takes the first packet:
  it returns 0 with addresses, length and contents written where the caller asked for them, or \<open>EMSGSIZE\<close> with
  nothing written when the caller's buffer is too short.
\<close>

theorem vsg_recv_outcome:
  assumes "array_queue_laws A items cap" "ctx_inv F V items cap ctx"
    and "ra_msglen args = Some len" "ra_msg args = Some mem" "unat len \<le> length mem"
  shows "vsg_poll A (Some ctx) = (if inbox F items ctx = [] then EAGAIN else 0) \<and>
    (case inbox F items ctx of
       [] \<Rightarrow> vsg_recv F A (Some ctx) args = Some (EAGAIN, args, Some ctx)
     | x # rest \<Rightarrow> \<exists>src dst p ctx'. x = Some (src, dst, p) \<and> inbox F items ctx' = rest \<and> ctx_inv F V items cap ctx' \<and>
         vsg_recv F A (Some ctx) args =
           (if length p \<le> unat len
            then Some (0, args\<lparr>ra_psrc := map_option (\<lambda>_. src) (ra_psrc args), ra_pdst := map_option (\<lambda>_. dst) (ra_pdst args),
                                ra_msglen := Some (word_of_nat (length p)), ra_msg := Some (p @ drop (length p) mem)\<rparr>, Some ctx')
            else Some (EMSGSIZE, args, Some ctx')))"
proof (cases "inbox F items ctx")
  case Nil
  with vsg_recv_empty [OF assms(1) _ assms(3-5)] vsg_poll_iff [OF assms(1), of ctx F] show ?thesis by simp
next
  case (Cons x rest)
  then obtain src dst p where x: "x = Some (src, dst, p)" using inbox_defined [OF assms(2), of x] by auto
  then have box: "inbox F items ctx = Some (src, dst, p) # rest" using Cons by simp
  obtain ctx' where "inbox F items ctx' = rest" "ctx_inv F V items cap ctx'"
    "vsg_recv F A (Some ctx) args =
       (if length p \<le> unat len
        then Some (0, args\<lparr>ra_psrc := map_option (\<lambda>_. src) (ra_psrc args), ra_pdst := map_option (\<lambda>_. dst) (ra_pdst args),
                            ra_msglen := Some (word_of_nat (length p)), ra_msg := Some (p @ drop (length p) mem)\<rparr>, Some ctx')
        else Some (EMSGSIZE, args, Some ctx'))"
    by (rule vsg_recv_first [OF assms(1,2) box assms(3-5)])
  with box x vsg_poll_iff [OF assms(1), of ctx F] show ?thesis by (auto simp del: if_split)
qed

theorem vsg_recv_outcome_witness:
  "\<exists>(ctx :: (_, _, _, int qemu_timer) client_context) ctx'. ex_inv ctx \<and> vsg_recv ref_fb ref_queue (Some ctx) \<lparr>ra_psrc = None, ra_pdst = Some 0, ra_msglen = Some 4, ra_msg = Some [0, 0, 0, 0]\<rparr> =
     Some (0, \<lparr>ra_psrc = None, ra_pdst = Some 7, ra_msglen = Some 3, ra_msg = Some [1, 2, 3, 0]\<rparr>, Some ctx')"
proof -
  obtain ctx0 ctx ws cbs a where c: "run ex_step ctx0 ([EvStart (dur 100), EvSend 9 [4, 5] (Ok ())] @
      [EvDeadline (dur 0) (dur 100) [ex_pkt] ws (NextDeadline (dur 200)) cbs]) ctx" "ex_rel ctx a" "cs_inbox a = [ex_pkt]"
    using ex_delivered by blast
  then have "ex_inv ctx" "inbox ref_fb snd ctx = [Some ex_pkt]" by (simp_all add: client_rel_def)
  with vsg_recv_outcome [OF ref_queue_laws this(1),
      of "\<lparr>ra_psrc = None, ra_pdst = Some 0, ra_msglen = Some 4, ra_msg = Some [0, 0, 0, 0]\<rparr>" 4 "[0, 0, 0, 0]"]
  show ?thesis by auto
qed

text \<open>
  The time offset \<open>vsg_start\<close> reports is the offset of \<open>start\<close> to the nanosecond. It is split by truncation: for a negative
  offset both parts are zero or negative, and the nanoseconds are always less than a second.
\<close>

theorem vsg_start_reports_offset:
  assumes "chrono_laws C ns ts" "Context_start T F ctx now = Some (Ok off, ctx')" "\<bar>ns off\<bar> \<le> chrono_max"
  shows "\<exists>ts. vsg_start C T F (Some ctx) now (Some old) = Some (0, Some ts, Some ctx') \<and> timespec_nanos ts = ns off \<and>
    \<bar>sint (tv_nsec ts)\<bar> < 10 ^ 9 \<and> (ns off < 0 \<longrightarrow> sint (tv_nsec ts) \<le> 0) \<and> (0 \<le> ns off \<longrightarrow> 0 \<le> sint (tv_nsec ts))"
  by (rule vsg_start_offset [OF assms]) blast

theorem vsg_start_reports_offset_witness:
  "\<exists>ctx ctx' ts. ex_inv ctx \<and> timer_context ctx = QemuTimer_new ref_chrono \<and>
     vsg_start ref_chrono ex_ops ref_fb (Some ctx) 1000 (Some timespec_zero) = Some (0, Some ts, Some ctx') \<and> timespec_nanos ts = 1000"
proof -
  obtain ctx where c: "ex_rel ctx (spec_new 7 2)" "\<not> start_once ctx" "actor (connector ctx) = ex_stream (ex_goto (dur 100))"
    "timer_context ctx = QemuTimer_new ref_chrono"
    using ex_new_ok [of "ex_goto (dur 100)" "QemuTimer_new ref_chrono"] by blast
  then have inv: "ex_inv ctx" and "inbox ref_fb snd ctx = []" "fst (input_queue ctx) = 2"
    by (simp_all add: client_rel_def spec_new_def)
  then have room: "length (snd (input_queue ctx)) < fst (input_queue ctx)" by (simp add: inbox_def)
  obtain st where "QemuTimer_start ref_chrono (QemuTimer_new ref_chrono) 1000 (dur 100) = Some (Ok (ch_nanoseconds ref_chrono 1000), st)"
    by (rule qemu_start_armed [OF ref_chrono_laws, of 1000 "dur 100"]) simp_all
  then have t: "t_start ex_ops (timer_context ctx) 1000 (dur 100) = Some (Ok 1000, st)"
    using c(4) by (simp add: qemu_ops_def ref_chrono_def)
  obtain conn where s: "Context_start ex_ops ref_fb ctx 1000 = Some (Ok 1000, ctx\<lparr>connector := conn, start_once := True,
      callbacks := callbacks ctx @ [DeadlineCallback (dur 100)], timer_context := st\<rparr>)"
    by (rule start_on_deadline [OF ref_fb_laws inv c(2) _ ex_goto_frame room t, of "[]"]) (use c(3) in \<open>simp add: ex_stream_def\<close>)
  from vsg_start_reports_offset [OF ref_chrono_laws s, of timespec_zero] inv c(4) show ?thesis by (auto simp: chrono_max_def)
qed

text \<open>
  The arguments of the program up to the first \<open>--\<close> are those of the client, and the index returned is that of the first
  argument after it, or the number of arguments when there is none.
\<close>

theorem parse_os_args_splits:
  assumes "0 \<le> argc" "nat argc \<le> length argv"
  shows "parse_os_args argc argv parse =
    (let argv = take (nat argc) argv; args = takeWhile (\<lambda>a. a \<noteq> ''--'') argv in
     map_option (map_sum id (\<lambda>r. (r, if ''--'' \<in> set argv then int (length args) + 1 else argc))) (parse args))"
  using assms by (rule parse_os_args_spec)

theorem parse_os_args_splits_witness:
  "parse_os_args 4 [''prog'', ''-n'', ''--'', ''app''] (\<lambda>args. Some (Ok args)) = Some (Ok ([''prog'', ''-n''], 3))"
  using parse_os_args_splits [of 4 "[''prog'', ''-n'', ''--'', ''app'']" "\<lambda>args. Some (Ok args)"] by simp

section \<open>Encodings and clocks\<close>

text \<open>
  Every duration survives the conversion to a \<open>timespec\<close> and back, and the C interface's copy of the conversion is the
  same function as the client's.
\<close>

theorem timespec_conversion:
  "timespec_to_duration (duration_to_timespec d) = Some d \<and> capi_duration_to_timespec d = duration_to_timespec d"
  by (intro conjI timespec_round_trip) (simp add: capi_duration_to_timespec_def duration_to_timespec_def)

text \<open>
  Addresses: the text printed for an address is parsed to the same address, in network byte order as in the host's.
\<close>

theorem address_round_trip:
  "Ipv4Addr_from_str (Ipv4Addr_fmt ip) = Some ip \<and>
   vsg_address_from_str (Ipv4Addr_fmt (vsg_address_to_ipv4addr a)) = Ok a"
  by (simp add: from_str_fmt vsg_address_from_str_def vsg_address_to_ipv4addr_def)

text \<open>
  The emulator's simulation clock counts from the start: a reading of the emulator's clock is the time that has passed
  on it since \<open>start\<close>.
\<close>

theorem qemu_clock_counts_from_start:
  assumes "chrono_laws C ns ts" "0 \<le> sint clk" "sint clk + int (as_nanos d) < 2 ^ 63" "sint clk \<le> sint clk'"
  shows "\<exists>st' t. QemuTimer_start C st clk d = Some (Ok (ch_nanoseconds C clk), st') \<and>
    QemuTimer_simulation_now C st' clk' = Some t \<and> int (as_nanos t) = sint clk' - sint clk"
proof -
  obtain st' where st': "QemuTimer_start C st clk d = Some (Ok (ch_nanoseconds C clk), st')" "ns (qt_offset st') = sint clk"
    by (rule qemu_start_armed [OF assms(1-3)])
  obtain t where "QemuTimer_simulation_now C st' clk' = Some t" "int (as_nanos t) = sint clk' - ns (qt_offset st')"
    by (rule qemu_simulation_now [OF assms(1), of st' clk']) (use st'(2) assms(2,4) in simp_all)
  with st' show ?thesis by auto
qed

theorem qemu_clock_counts_from_start_witness:
  "\<exists>st' t. QemuTimer_start ref_chrono (QemuTimer_new ref_chrono) 1000 (dur 100) = Some (Ok 1000, st') \<and>
     QemuTimer_simulation_now ref_chrono st' 1050 = Some t \<and> as_nanos t = 50"
  using qemu_clock_counts_from_start [OF ref_chrono_laws, of 1000 "dur 100" 1050 "QemuTimer_new ref_chrono"]
  by (simp add: ref_chrono_def)

text \<open>
  With KVM, the simulation clock never runs backwards within a slice: of two readings with a rounding that is monotone, the one
  with the later counter is not earlier.
\<close>

theorem kvm_clock_monotone:
  assumes "chrono_laws C ns ts" "mono (kv_rnd env)" "kt_tsc_freq st = Finite f" "0 < f"
    and "KvmTimer_simulation_now C st env = Some t" "KvmTimer_simulation_now C st (env\<lparr>kv_rdtsc := r\<rparr>) = Some t'"
    and "kv_rdtsc env \<le> r" "unat (tsc_nanos (kv_rnd env) (Finite f) (r + kv_tsc_offset env)) < 2 ^ 63"
  shows "t \<le> t'"
  using assms by (rule kvm_simulation_now_mono)

theorem kvm_clock_monotone_witness:
  "\<exists>st t t'. KvmTimer_simulation_now ref_chrono st (ex_kvm_env 40) = Some t \<and>
     KvmTimer_simulation_now ref_chrono st (ex_kvm_env 60) = Some t' \<and> t \<le> t'"
proof -
  let ?st = "(KvmTimer_new 3)\<lparr>kt_tsc_freq := Finite 1, kt_vmx_timer_value := 100, kt_next_deadline := dur 100\<rparr>"
  have t: "KvmTimer_simulation_now ref_chrono ?st (ex_kvm_env 40) = Some (dur 40)"
    "KvmTimer_simulation_now ref_chrono ?st ((ex_kvm_env 40)\<lparr>kv_rdtsc := 60\<rparr>) = Some (dur 60)"
    by (simp_all add: KvmTimer_simulation_now_def ex_kvm_env_def f64_of_u64_def u64_add_def u64_sub_def ref_chrono_def chrono_max_def)
  have le: "dur 40 \<le> dur 60"
    by (rule kvm_clock_monotone [OF ref_chrono_laws _ _ _ t, of 1]) (simp_all add: ex_kvm_env_def tsc_nanos_def f64_of_u64_def mono_def)
  have e: "(ex_kvm_env 40)\<lparr>kv_rdtsc := 60\<rparr> = ex_kvm_env 60" by (simp add: ex_kvm_env_def)
  show ?thesis using t le unfolding e by blast
qed

text \<open>
  C40. \<open>stop\<close> of the KVM timer drops a reference that \<open>start\<close> never took: after one start and one stop the reference of the
  timer's own context is counted out (a use after free from then on), while the emulator's timer keeps it.
\<close>

theorem kvm_stop_drops_own_reference:
  assumes "KvmTimer_start C (KvmTimer_new fd) env d = Some (r, k)" "QemuTimer_start C (QemuTimer_new C) clk d = Some (r', q)"
  shows "(\<exists>k'. KvmTimer_stop k = Some k' \<and> kt_strong k' = 0) \<and> (\<exists>q'. QemuTimer_stop q = Some q' \<and> qt_strong q' = 1)"
  using kvm_stop_unbalanced(2) [OF assms(1)] assms(2)
  by (auto simp: KvmTimer_new_def QemuTimer_start_def QemuTimer_set_next_deadline_def QemuTimer_new_def QemuTimer_stop_def
      Let_def bind_eq_Some_conv)

theorem kvm_stop_drops_own_reference_witness:
  "\<exists>k k'. KvmTimer_start ref_chrono (KvmTimer_new 3) (ex_kvm_env 0) (dur 100) = Some (Ok 0, k) \<and> KvmTimer_stop k = Some k' \<and> kt_strong k' = 0"
proof -
  obtain k where k: "KvmTimer_start ref_chrono (KvmTimer_new 3) (ex_kvm_env 0) (dur 100) = Some (Ok 0, k)"
    using ex_kvm_start by blast
  obtain q where q: "QemuTimer_start ref_chrono (QemuTimer_new ref_chrono) 1000 (dur 100) = Some (Ok (ch_nanoseconds ref_chrono 1000), q)"
    by (rule qemu_start_armed [OF ref_chrono_laws, of 1000 "dur 100"]) simp_all
  from kvm_stop_drops_own_reference [OF k q] k show ?thesis by blast
qed

end
